(* ===== verification/ContextDB_Prelude.thy ===== *)
theory ContextDB_Prelude
  imports Main "HOL-Library.Word" "HOL-Library.List_Lexorder" "HOL-Library.Char_ord"
begin

text \<open>
  Shared vocabulary of the development. Machine integers are words of their Rust width; byte
  strings are lists of 8-bit words and Rust strings are lists of the bytes of their UTF-8
  encoding, both ordered lexicographically, as Rust's \<open>Vec<u8>\<close> and \<open>String\<close> are.
  Fallible code returns a sum whose left side is the error; \<open>rbind\<close> is the question-mark
  operator. A Rust \<open>BTreeMap\<close> is a strictly sorted association list and a \<open>BTreeSet\<close> a
  strictly sorted list, so that equality and iteration order are those of the Rust containers.
\<close>

named_theorems result_simps \<open>evaluation of the result combinators\<close>
named_theorems btree_simps \<open>lookup after an update of an ordered map or set\<close>
named_theorems btree_intros \<open>updates keep an ordered map or set strictly sorted\<close>

section \<open>Machine integers and byte strings\<close>

type_synonym u8 = "8 word"
type_synonym u16 = "16 word"
type_synonym u32 = "32 word"
type_synonym u64 = "64 word"
type_synonym bytes = "u8 list"

definition usize_max :: nat where
  "usize_max = 2 ^ 64 - 1"

text \<open>\<open>usize::checked_add\<close> and \<open>usize::saturating_add\<close> on a 64-bit target.\<close>

definition checked_add_usize :: "nat \<Rightarrow> nat \<Rightarrow> nat option" where
  "checked_add_usize a b = (if a + b \<le> usize_max then Some (a + b) else None)"

definition saturating_add_usize :: "nat \<Rightarrow> nat \<Rightarrow> nat" where
  "saturating_add_usize a b = min (a + b) usize_max"

text \<open>\<open>checked_add\<close> of an unsigned word type.\<close>

definition checked_add_word :: "'a::len word \<Rightarrow> 'a word \<Rightarrow> 'a word option" where
  "checked_add_word a b = (if unat a + unat b < 2 ^ LENGTH('a) then Some (a + b) else None)"

text \<open>Big-endian encoding (\<open>to_be_bytes\<close>) and decoding (\<open>from_be_bytes\<close>).\<close>

fun be_digits :: "nat \<Rightarrow> nat \<Rightarrow> bytes" where
  "be_digits 0 x = []"
| "be_digits (Suc n) x = of_nat (x div 256 ^ n) # be_digits n (x mod 256 ^ n)"

fun be_value :: "bytes \<Rightarrow> nat" where
  "be_value [] = 0"
| "be_value (b # bs) = unat b * 256 ^ length bs + be_value bs"

definition to_be_bytes :: "'a::len word \<Rightarrow> bytes" where
  "to_be_bytes w = be_digits (LENGTH('a) div 8) (unat w)"

definition from_be_bytes :: "bytes \<Rightarrow> 'a::len word" where
  "from_be_bytes bs = of_nat (be_value bs)"

section \<open>Results\<close>

fun rbind :: "'e + 'a \<Rightarrow> ('a \<Rightarrow> 'e + 'b) \<Rightarrow> 'e + 'b" where
  "rbind (Inl e) f = Inl e"
| "rbind (Inr x) f = f x"

definition ok_or :: "'e \<Rightarrow> 'a option \<Rightarrow> 'e + 'a" where
  "ok_or e x = (case x of None \<Rightarrow> Inl e | Some y \<Rightarrow> Inr y)"

definition map_err :: "('e \<Rightarrow> 'f) \<Rightarrow> 'e + 'a \<Rightarrow> 'f + 'a" where
  "map_err f r = (case r of Inl e \<Rightarrow> Inl (f e) | Inr x \<Rightarrow> Inr x)"

definition rguard :: "bool \<Rightarrow> 'e \<Rightarrow> 'e + unit" where
  "rguard ok e = (if ok then Inr () else Inl e)"

fun rfold :: "('a \<Rightarrow> 's \<Rightarrow> 'e + 's) \<Rightarrow> 'a list \<Rightarrow> 's \<Rightarrow> 'e + 's" where
  "rfold f [] s = Inr s"
| "rfold f (x # xs) s = rbind (f x s) (rfold f xs)"

fun rmap :: "('a \<Rightarrow> 'e + 'b) \<Rightarrow> 'a list \<Rightarrow> 'e + 'b list" where
  "rmap f [] = Inr []"
| "rmap f (x # xs) = rbind (f x) (\<lambda>y. rbind (rmap f xs) (\<lambda>ys. Inr (y # ys)))"

fun rall :: "('a \<Rightarrow> 'e + unit) \<Rightarrow> 'a list \<Rightarrow> 'e + unit" where
  "rall f [] = Inr ()"
| "rall f (x # xs) = rbind (f x) (\<lambda>_. rall f xs)"

definition is_ok :: "'e + 'a \<Rightarrow> bool" where
  "is_ok r = (case r of Inl _ \<Rightarrow> False | Inr _ \<Rightarrow> True)"

section \<open>Strings\<close>

text \<open>
  A string is blank (\<open>trim().is_empty()\<close>) when each of its characters has the Unicode property
  White\_Space. On the UTF-8 bytes these are the ASCII characters 9 to 13 and 32 and the
  encodings of U+0085, U+00A0, U+1680, U+2000 to U+200A, U+2028, U+2029, U+202F, U+205F and
  U+3000.
\<close>

definition ascii_white :: "nat \<Rightarrow> bool" where
  "ascii_white c \<longleftrightarrow> 9 \<le> c \<and> c \<le> 13 \<or> c = 32"

definition white2 :: "nat \<Rightarrow> nat \<Rightarrow> bool" where
  "white2 a b \<longleftrightarrow> a = 194 \<and> (b = 133 \<or> b = 160)"

definition white3 :: "nat \<Rightarrow> nat \<Rightarrow> nat \<Rightarrow> bool" where
  "white3 a b c \<longleftrightarrow>
     a = 225 \<and> b = 154 \<and> c = 128
   \<or> a = 226 \<and> b = 128 \<and> (128 \<le> c \<and> c \<le> 138 \<or> c = 168 \<or> c = 169 \<or> c = 175)
   \<or> a = 226 \<and> b = 129 \<and> c = 159
   \<or> a = 227 \<and> b = 128 \<and> c = 128"

fun blank_codes :: "nat list \<Rightarrow> bool" where
  "blank_codes [] = True"
| "blank_codes [a] = ascii_white a"
| "blank_codes [a, b] = (if ascii_white a then ascii_white b else white2 a b)"
| "blank_codes (a # b # c # cs) =
     (if ascii_white a then blank_codes (b # c # cs)
      else if white2 a b then blank_codes (c # cs)
      else white3 a b c \<and> blank_codes cs)"

definition is_blank :: "string \<Rightarrow> bool" where
  "is_blank s = blank_codes (map of_char s)"

definition is_ascii_uppercase :: "char \<Rightarrow> bool" where
  "is_ascii_uppercase c \<longleftrightarrow> CHR ''A'' \<le> c \<and> c \<le> CHR ''Z''"

definition is_ascii_lowercase :: "char \<Rightarrow> bool" where
  "is_ascii_lowercase c \<longleftrightarrow> CHR ''a'' \<le> c \<and> c \<le> CHR ''z''"

definition is_ascii_digit :: "char \<Rightarrow> bool" where
  "is_ascii_digit c \<longleftrightarrow> CHR ''0'' \<le> c \<and> c \<le> CHR ''9''"

definition is_ascii_alphanumeric :: "char \<Rightarrow> bool" where
  "is_ascii_alphanumeric c \<longleftrightarrow> is_ascii_uppercase c \<or> is_ascii_lowercase c \<or> is_ascii_digit c"

text \<open>Decimal rendering of a number in a message.\<close>

fun decimal :: "nat \<Rightarrow> string" where
  "decimal n = (if n < 10 then [char_of (48 + n)] else decimal (n div 10) @ [char_of (48 + n mod 10)])"

declare decimal.simps [simp del]

text \<open>\<open>slice::starts_with\<close>.\<close>

fun starts_with :: "'a list \<Rightarrow> 'a list \<Rightarrow> bool" where
  "starts_with xs [] = True"
| "starts_with [] (p # ps) = False"
| "starts_with (x # xs) (p # ps) = (x = p \<and> starts_with xs ps)"

section \<open>Ordered maps and sets\<close>

type_synonym ('k, 'v) btree_map = "('k \<times> 'v) list"
type_synonym 'k btree_set = "'k list"

abbreviation bt_get :: "('k, 'v) btree_map \<Rightarrow> 'k \<Rightarrow> 'v option" where
  "bt_get \<equiv> map_of"

abbreviation bt_contains :: "('k, 'v) btree_map \<Rightarrow> 'k \<Rightarrow> bool" where
  "bt_contains m k \<equiv> map_of m k \<noteq> None"

abbreviation strictly_sorted :: "'k::linorder list \<Rightarrow> bool" where
  "strictly_sorted ks \<equiv> sorted_wrt (<) ks"

definition bt_ok :: "('k::linorder, 'v) btree_map \<Rightarrow> bool" where
  "bt_ok m \<longleftrightarrow> strictly_sorted (map fst m)"

fun bt_insert :: "'k::linorder \<Rightarrow> 'v \<Rightarrow> ('k, 'v) btree_map \<Rightarrow> ('k, 'v) btree_map" where
  "bt_insert k v [] = [(k, v)]"
| "bt_insert k v ((a, b) # m) =
     (if k < a then (k, v) # (a, b) # m
      else if k = a then (k, v) # m
      else (a, b) # bt_insert k v m)"

definition bt_remove :: "'k \<Rightarrow> ('k, 'v) btree_map \<Rightarrow> ('k, 'v) btree_map" where
  "bt_remove k m = filter (\<lambda>(a, b). a \<noteq> k) m"

text \<open>\<open>entry(k).or_default()\<close> followed by an update of the value through the reference.\<close>

definition bt_upsert :: "'k::linorder \<Rightarrow> 'v \<Rightarrow> ('v \<Rightarrow> 'v) \<Rightarrow> ('k, 'v) btree_map \<Rightarrow> ('k, 'v) btree_map" where
  "bt_upsert k d f m = bt_insert k (f (case bt_get m k of None \<Rightarrow> d | Some v \<Rightarrow> v)) m"

fun bs_insert :: "'k::linorder \<Rightarrow> 'k btree_set \<Rightarrow> 'k btree_set" where
  "bs_insert k [] = [k]"
| "bs_insert k (a # s) = (if k < a then k # a # s else if k = a then a # s else a # bs_insert k s)"

definition bs_remove :: "'k \<Rightarrow> 'k btree_set \<Rightarrow> 'k btree_set" where
  "bs_remove k s = filter (\<lambda>a. a \<noteq> k) s"

definition bs_of_list :: "'k::linorder list \<Rightarrow> 'k btree_set" where
  "bs_of_list ks = fold bs_insert ks []"

text \<open>
  A \<open>HashMap\<close>: an association list with one entry per key, in an order the code does not rely on.
\<close>

definition hm_insert :: "'k \<Rightarrow> 'v \<Rightarrow> ('k \<times> 'v) list \<Rightarrow> ('k \<times> 'v) list" where
  "hm_insert k v m = (k, v) # bt_remove k m"

section \<open>Lemmas on results\<close>

lemma rbind_Inr_iff [simp]: "rbind r f = Inr y \<longleftrightarrow> (\<exists>x. r = Inr x \<and> f x = Inr y)"
  by (cases r) auto

lemma rbind_Inl_iff: "rbind r f = Inl e \<longleftrightarrow> r = Inl e \<or> (\<exists>x. r = Inr x \<and> f x = Inl e)"
  by (cases r) auto

lemma rbind_assoc: "rbind (rbind r f) g = rbind r (\<lambda>x. rbind (f x) g)"
  by (cases r) simp_all

lemma rbind_unit [simp]: "rbind r Inr = r"
  by (cases r) simp_all

lemma ok_or_Inr_iff [simp]: "ok_or e x = Inr y \<longleftrightarrow> x = Some y"
  by (cases x) (auto simp: ok_or_def)

lemma ok_or_simps [result_simps, simp]: "ok_or e None = Inl e" "ok_or e (Some x) = Inr x"
  by (simp_all add: ok_or_def)

lemma map_err_simps [result_simps, simp]: "map_err f (Inl e) = Inl (f e)" "map_err f (Inr x) = Inr x"
  by (simp_all add: map_err_def)

lemma map_err_Inr_iff [simp]: "map_err f r = Inr y \<longleftrightarrow> r = Inr y"
  by (cases r) auto

lemma rguard_simps [result_simps, simp]: "rguard True e = Inr ()" "rguard False e = Inl e"
  by (simp_all add: rguard_def)

lemma rguard_Inr_iff [simp]: "rguard b e = Inr u \<longleftrightarrow> b"
  by (cases b) auto

lemma rguard_Inl_iff [simp]: "rguard b e = Inl e' \<longleftrightarrow> \<not> b \<and> e' = e"
  by (cases b) auto

lemma rall_Inr_iff [simp]: "rall f xs = Inr u \<longleftrightarrow> (\<forall>x \<in> set xs. f x = Inr ())"
  by (induction xs) auto

lemma is_ok_iff: "is_ok r \<longleftrightarrow> (\<exists>x. r = Inr x)"
  by (cases r) (auto simp: is_ok_def)

lemma rfold_append: "rfold f (xs @ ys) s = rbind (rfold f xs s) (rfold f ys)"
proof (induction xs arbitrary: s)
  case (Cons x xs)
  then show ?case by (cases "f x s") auto
qed simp

lemma rfold_invariant:
  assumes "rfold f xs s = Inr t" and "P s"
    and "\<And>x s t. x \<in> set xs \<Longrightarrow> P s \<Longrightarrow> f x s = Inr t \<Longrightarrow> P t"
  shows "P t"
  using assms
proof (induction xs arbitrary: s)
  case (Cons x xs)
  then obtain u where "f x s = Inr u" "rfold f xs u = Inr t" by auto
  with Cons show ?case by (metis list.set_intros)
qed simp

lemma rmap_Inr_iff: "rmap f xs = Inr ys \<longleftrightarrow> list_all2 (\<lambda>x y. f x = Inr y) xs ys"
proof (induction xs arbitrary: ys)
  case (Cons x xs)
  then show ?case by (cases ys) auto
qed auto

lemma rmap_cong: "(\<And>x. x \<in> set xs \<Longrightarrow> f x = g x) \<Longrightarrow> rmap f xs = rmap g xs"
  by (induction xs) auto

lemma rmap_Inr_map: "(\<And>x. x \<in> set xs \<Longrightarrow> f x = Inr (g x)) \<Longrightarrow> rmap f xs = Inr (map g xs)"
  by (induction xs) auto

section \<open>Lemmas on integers and their encodings\<close>

lemma checked_add_usize_Some_iff:
  "checked_add_usize a b = Some c \<longleftrightarrow> c = a + b \<and> a + b \<le> usize_max"
  by (auto simp: checked_add_usize_def)

lemma checked_add_usize_None_iff: "checked_add_usize a b = None \<longleftrightarrow> usize_max < a + b"
  by (auto simp: checked_add_usize_def)

lemma unat_checked_add: "checked_add_word a b = Some c \<Longrightarrow> unat c = unat a + unat b"
  by (auto simp: checked_add_word_def unat_word_ariths split: if_splits)

lemma of_nat_word_eq_iff:
  assumes "i < 2 ^ LENGTH('a::len)" and "j < 2 ^ LENGTH('a)"
  shows "(of_nat i :: 'a word) = of_nat j \<longleftrightarrow> i = j"
proof
  assume "(of_nat i :: 'a word) = of_nat j"
  then have "unat (of_nat i :: 'a word) = unat (of_nat j :: 'a word)" by simp
  with assms show "i = j" by (simp add: unat_of_nat)
qed simp

lemma checked_add_word_less:
  fixes a :: "'a::len word"
  assumes "checked_add_word a 1 = Some c" and "1 < LENGTH('a)"
  shows "a < c"
  using unat_checked_add [OF assms(1)] assms(2) by (simp add: word_less_nat_alt)

lemma length_be_digits [simp]: "length (be_digits n x) = n"
  by (induction n arbitrary: x) auto

lemma be_value_bound: "be_value bs < 256 ^ length bs"
proof (induction bs)
  case (Cons b bs)
  have "unat b \<le> 255" using unsigned_less [of b, where 'a = nat] by simp
  then have "unat b * 256 ^ length bs \<le> 255 * 256 ^ length bs" by (rule mult_le_mono1)
  then have "unat b * 256 ^ length bs + be_value bs < 255 * 256 ^ length bs + 256 ^ length bs"
    using Cons by (rule add_le_less_mono)
  then show ?case by simp
qed simp

lemma be_value_be_digits: "x < 256 ^ n \<Longrightarrow> be_value (be_digits n x) = x"
proof (induction n arbitrary: x)
  case (Suc n)
  have "x div 256 ^ n < 256" using Suc.prems by (simp add: less_mult_imp_div_less)
  then have "unat (of_nat (x div 256 ^ n) :: u8) = x div 256 ^ n"
    by (simp add: unat_of_nat)
  moreover have "be_value (be_digits n (x mod 256 ^ n)) = x mod 256 ^ n"
    by (rule Suc.IH) simp
  ultimately show ?case
    by (simp only: be_digits.simps be_value.simps length_be_digits div_mult_mod_eq)
qed simp

lemma be_digits_be_value: "be_digits (length bs) (be_value bs) = bs"
proof (induction bs)
  case (Cons b bs)
  then show ?case using be_value_bound [of bs] by simp
qed simp

lemma be_digits_inj: "x < 256 ^ n \<Longrightarrow> y < 256 ^ n \<Longrightarrow> be_digits n x = be_digits n y \<longleftrightarrow> x = y"
  by (metis be_value_be_digits)

lemma div_mod_less_iff:
  fixes x y m :: nat
  shows "x div m < y div m \<or> x div m = y div m \<and> x mod m < y mod m \<longleftrightarrow> x < y"
proof
  assume "x div m < y div m \<or> x div m = y div m \<and> x mod m < y mod m"
  then show "x < y"
  proof
    assume "x div m < y div m"
    then show ?thesis using div_le_mono [of y x m] by (simp add: not_le [symmetric]) blast
  next
    assume *: "x div m = y div m \<and> x mod m < y mod m"
    have "x = x div m * m + x mod m" "y = y div m * m + y mod m" by simp_all
    with * show ?thesis by (metis add_less_cancel_left)
  qed
next
  assume "x < y"
  then have le: "x div m \<le> y div m" by (simp add: div_le_mono)
  have "x mod m < y mod m" if "x div m = y div m"
    using \<open>x < y\<close> that by (metis add_less_cancel_left div_mult_mod_eq)
  with le show "x div m < y div m \<or> x div m = y div m \<and> x mod m < y mod m" by auto
qed

text \<open>Big-endian encodings of equal width compare bytewise as the numbers do.\<close>

lemma be_digits_less_iff:
  "x < 256 ^ n \<Longrightarrow> y < 256 ^ n \<Longrightarrow> be_digits n x < be_digits n y \<longleftrightarrow> x < y"
proof (induction n arbitrary: x y)
  case (Suc n)
  let ?h = "\<lambda>z. of_nat (z div 256 ^ n) :: u8"
  have bound: "z div 256 ^ n < 256" if "z < 256 ^ Suc n" for z :: nat
    using that by (simp add: less_mult_imp_div_less)
  have less: "?h x < ?h y \<longleftrightarrow> x div 256 ^ n < y div 256 ^ n"
    and eq: "?h x = ?h y \<longleftrightarrow> x div 256 ^ n = y div 256 ^ n"
    using bound [OF Suc.prems(1)] bound [OF Suc.prems(2)]
    by (simp_all add: word_less_nat_alt word_unat_eq_iff unat_of_nat)
  have "be_digits n (x mod 256 ^ n) < be_digits n (y mod 256 ^ n)
      \<longleftrightarrow> x mod 256 ^ n < y mod 256 ^ n"
    by (rule Suc.IH) simp_all
  then have "be_digits (Suc n) x < be_digits (Suc n) y \<longleftrightarrow>
      x div 256 ^ n < y div 256 ^ n \<or> x div 256 ^ n = y div 256 ^ n \<and> x mod 256 ^ n < y mod 256 ^ n"
    using less eq by simp
  also have "\<dots> \<longleftrightarrow> x < y"
    by (rule div_mod_less_iff)
  finally show ?case .
qed simp

lemma length_to_be_bytes [simp]: "length (to_be_bytes (w :: 'a::len word)) = LENGTH('a) div 8"
  by (simp add: to_be_bytes_def)

lemma be_power_width:
  assumes "8 dvd n"
  shows "(256 :: nat) ^ (n div 8) = 2 ^ n"
proof -
  from assms obtain k where n: "n = 8 * k" by (rule dvdE)
  have "(2 :: nat) ^ n = (2 ^ 8) ^ k" by (simp only: n power_mult)
  then show ?thesis by (simp add: n)
qed

lemma from_be_bytes_to_be_bytes [simp]:
  fixes w :: "'a::len word"
  assumes "8 dvd LENGTH('a)"
  shows "from_be_bytes (to_be_bytes w) = w"
proof -
  have "unat w < 256 ^ (LENGTH('a) div 8)"
    using unsigned_less [of w, where 'a = nat] be_power_width [OF assms] by simp
  then show ?thesis
    by (simp add: from_be_bytes_def to_be_bytes_def be_value_be_digits)
qed

lemma to_be_bytes_from_be_bytes:
  assumes "8 dvd LENGTH('a::len)" and "length bs = LENGTH('a) div 8"
  shows "to_be_bytes (from_be_bytes bs :: 'a word) = bs"
proof -
  have "be_value bs < 2 ^ LENGTH('a)"
    using be_value_bound [of bs] be_power_width [OF assms(1)] assms(2) by simp
  then have "unat (of_nat (be_value bs) :: 'a word) = be_value bs"
    by (simp add: unat_of_nat)
  then show ?thesis
    using assms(2) be_digits_be_value [of bs] by (simp add: from_be_bytes_def to_be_bytes_def)
qed

lemma to_be_bytes_less_iff:
  fixes v w :: "'a::len word"
  assumes "8 dvd LENGTH('a)"
  shows "to_be_bytes v < to_be_bytes w \<longleftrightarrow> v < w"
proof -
  have "unat u < 256 ^ (LENGTH('a) div 8)" for u :: "'a word"
    using unsigned_less [of u, where 'a = nat] be_power_width [OF assms] by simp
  then show ?thesis
    by (simp add: to_be_bytes_def be_digits_less_iff word_less_nat_alt)
qed

lemma to_be_bytes_inj:
  fixes v w :: "'a::len word"
  assumes "8 dvd LENGTH('a)"
  shows "to_be_bytes v = to_be_bytes w \<longleftrightarrow> v = w"
  by (metis assms from_be_bytes_to_be_bytes)

section \<open>Lemmas on prefixes\<close>

lemma append_less_append [simp]:
  fixes xs :: "'a::linorder list"
  shows "xs @ ys < xs @ zs \<longleftrightarrow> ys < zs"
  by (induction xs) auto

lemma starts_with_iff: "starts_with xs ps \<longleftrightarrow> (\<exists>ys. xs = ps @ ys)"
  by (induction xs ps rule: starts_with.induct) auto

lemma starts_with_append [simp]: "starts_with (ps @ xs) ps"
  by (auto simp: starts_with_iff)

lemma starts_with_take: "starts_with xs ps \<longleftrightarrow> take (length ps) xs = ps"
  by (metis append_eq_conv_conj append_take_drop_id starts_with_iff)

lemma starts_with_le:
  fixes xs :: "'a::linorder list"
  shows "starts_with xs ps \<Longrightarrow> ps \<le> xs"
  by (induction xs ps rule: starts_with.induct) auto

text \<open>
  In a lexicographic order the lists with a common prefix are contiguous: one that is above the
  prefix and does not start with it is above every list that does.
\<close>

lemma starts_with_above:
  fixes xs ys ps :: "'a::linorder list"
  assumes "ps < xs" and "\<not> starts_with xs ps" and "starts_with ys ps"
  shows "ys < xs"
  using assms
proof (induction ps arbitrary: xs ys)
  case (Cons p ps)
  then show ?case by (cases xs; cases ys) auto
qed simp

section \<open>Lemmas on ordered maps and sets\<close>

lemma bt_ok_Nil [simp, btree_intros]: "bt_ok []"
  by (simp add: bt_ok_def)

lemma bt_ok_Cons:
  "bt_ok ((k, v) # m) \<longleftrightarrow> (\<forall>a \<in> fst ` set m. k < a) \<and> bt_ok m"
  by (auto simp: bt_ok_def)

lemma bt_ok_distinct: "bt_ok m \<Longrightarrow> distinct (map fst m)"
  by (simp add: bt_ok_def strict_sorted_iff)

lemma bt_ok_filter [btree_intros]: "bt_ok m \<Longrightarrow> bt_ok (filter P m)"
  by (induction m) (auto simp: bt_ok_Cons)

lemma bt_get_insert [btree_simps, simp]: "bt_get (bt_insert k v m) = (bt_get m)(k \<mapsto> v)"
  by (induction k v m rule: bt_insert.induct) auto

lemma bt_insert_keys [simp]: "fst ` set (bt_insert k v m) = insert k (fst ` set m)"
  by (induction k v m rule: bt_insert.induct) auto

lemma bt_ok_insert [btree_intros]: "bt_ok m \<Longrightarrow> bt_ok (bt_insert k v m)"
proof (induction k v m rule: bt_insert.induct)
  case (2 k v a b m)
  then show ?case by (auto simp: bt_ok_Cons)
qed (simp add: bt_ok_def)

lemma bt_get_remove [btree_simps, simp]: "bt_get (bt_remove k m) = (bt_get m)(k := None)"
  by (induction m) (auto simp: bt_remove_def)

lemma bt_ok_remove [btree_intros]: "bt_ok m \<Longrightarrow> bt_ok (bt_remove k m)"
  by (simp add: bt_remove_def bt_ok_filter)

lemma bt_get_upsert [btree_simps, simp]:
  "bt_get (bt_upsert k d f m) =
     (bt_get m)(k \<mapsto> f (case bt_get m k of None \<Rightarrow> d | Some v \<Rightarrow> v))"
  by (simp add: bt_upsert_def)

lemma bt_ok_upsert [btree_intros]: "bt_ok m \<Longrightarrow> bt_ok (bt_upsert k d f m)"
  by (simp add: bt_upsert_def bt_ok_insert)

lemma bt_mem_iff: "bt_ok m \<Longrightarrow> (k, v) \<in> set m \<longleftrightarrow> bt_get m k = Some v"
  by (metis bt_ok_distinct map_of_SomeD map_of_eq_Some_iff)

text \<open>Two ordered maps with the same lookups are the same list.\<close>

lemma bt_ext:
  assumes "bt_ok m" and "bt_ok n" and "bt_get m = bt_get n"
  shows "m = n"
proof -
  have sets: "set m = set n" using assms by (auto simp: set_eq_iff bt_mem_iff)
  have inj: "inj_on fst (set m \<union> set n)"
    using assms(2) bt_ok_distinct sets by (auto simp: distinct_map)
  show ?thesis
    using assms(1,2) sets inj
    by (intro map_sorted_distinct_set_unique [of fst]) (auto simp: bt_ok_def strict_sorted_iff)
qed

lemma bs_insert_set [btree_simps, simp]: "set (bs_insert k s) = insert k (set s)"
  by (induction k s rule: bs_insert.induct) auto

lemma bs_insert_sorted [btree_intros, simp]:
  "strictly_sorted s \<Longrightarrow> strictly_sorted (bs_insert k s)"
  by (induction k s rule: bs_insert.induct) auto

lemma bs_insert_not_Nil [simp]: "bs_insert k s \<noteq> []"
  by (cases s) auto

lemma bs_remove_set [btree_simps, simp]: "set (bs_remove k s) = set s - {k}"
  by (auto simp: bs_remove_def)

lemma bs_remove_sorted [btree_intros, simp]:
  "strictly_sorted s \<Longrightarrow> strictly_sorted (bs_remove k s)"
  by (simp add: bs_remove_def sorted_wrt_filter)

lemma bs_of_list_fold:
  "set (fold bs_insert ks s) = set ks \<union> set s \<and>
   (strictly_sorted s \<longrightarrow> strictly_sorted (fold bs_insert ks s))"
  by (induction ks arbitrary: s) auto

lemma bs_of_list_set [btree_simps, simp]: "set (bs_of_list ks) = set ks"
  by (simp add: bs_of_list_def bs_of_list_fold)

lemma bs_of_list_sorted [btree_intros, simp]: "strictly_sorted (bs_of_list ks)"
  by (simp add: bs_of_list_def bs_of_list_fold)

lemma bs_ext:
  assumes "strictly_sorted s" and "strictly_sorted t" and "set s = set t"
  shows "s = t"
  using assms by (metis strict_sorted_equal)

lemma map_of_hm_insert [btree_simps, simp]: "map_of (hm_insert k v m) = (map_of m)(k \<mapsto> v)"
  by (simp add: hm_insert_def fun_eq_iff)

lemma distinct_hm_insert [btree_intros]:
  "distinct (map fst m) \<Longrightarrow> distinct (map fst (hm_insert k v m))"
  by (auto simp: hm_insert_def bt_remove_def distinct_map_filter)

end
