(* ===== verification/Record_Frame.thy ===== *)
theory Record_Frame
  imports ContextDB_Prelude
begin

text \<open>
  The physical framing of durable records, \<open>RecordEnvelope\<close> of
  \<open>crates/contextdb-format/src/lib.rs\<close>: a fixed big-endian header of 32 bytes, a payload and a
  checksum of it. BLAKE3 is the parameter \<open>hash\<close>. The theory shows that \<open>decode\<close> inverts
  \<open>encode\<close>, that a frame that decodes is the one encoding of what it decodes to, that no frame is
  a proper prefix of another one, and which error each kind of damage gives.
\<close>

section \<open>Model\<close>

datatype format_error =
    InvalidIdentifier string string
  | InvalidMigrationId string
  | InvalidReaderRange u32 u32
  | UnsupportedWriterVersion string u32 u32 u32
  | UnknownRequiredFeature string string
  | UnknownFormatFamily string
  | DuplicateReader string
  | DuplicateMigration string
  | DuplicateMigrationEdge string u32 u32
  | IdentityMigration string u32
  | InvalidFreeSpaceRequirement
  | FreeSpaceEstimateOverflow
  | MigrationPathUnavailable string u32 u32
  | InsufficientMigrationSpace u64 u64
  | PayloadTooLarge nat
  | TruncatedHeader nat
  | BadMagic
  | LengthMismatch u32 nat
  | InvalidLength
  | ChecksumMismatch u64 u64

definition MAGIC :: bytes where
  "MAGIC = map of_char ''CTXJ''"

definition HEADER_LEN :: nat where
  "HEADER_LEN = 32"

datatype record_kind =
    KObservation | KSemanticMutation | KSemanticPublication | KPolicyMutation | KOutbox | KSnapshot
  | KDeletionProof | KMaintenanceMutation | KMaintenancePublication

fun record_kind_u16 :: "record_kind \<Rightarrow> u16" where
  "record_kind_u16 KObservation = 1"
| "record_kind_u16 KSemanticMutation = 2"
| "record_kind_u16 KSemanticPublication = 3"
| "record_kind_u16 KPolicyMutation = 4"
| "record_kind_u16 KOutbox = 5"
| "record_kind_u16 KSnapshot = 6"
| "record_kind_u16 KDeletionProof = 7"
| "record_kind_u16 KMaintenanceMutation = 8"
| "record_kind_u16 KMaintenancePublication = 9"

record record_envelope =
  env_kind :: u16
  env_schema :: u16
  env_flags :: u32
  env_seq :: u64
  env_len :: u32
  env_checksum :: u64

record decoded_record =
  dec_envelope :: record_envelope
  dec_payload :: bytes

definition checksum :: "(bytes \<Rightarrow> bytes) \<Rightarrow> bytes \<Rightarrow> u64" where
  "checksum hash payload = from_be_bytes (take 8 (hash payload))"

text \<open>\<open>slice::get\<close> with a range.\<close>

definition slice_get :: "bytes \<Rightarrow> nat \<Rightarrow> nat \<Rightarrow> bytes option" where
  "slice_get bs a b = (if a \<le> b \<and> b \<le> length bs then Some (take (b - a) (drop a bs)) else None)"

definition read_u16 :: "bytes \<Rightarrow> nat \<Rightarrow> format_error + u16" where
  "read_u16 bs offset =
     rbind (ok_or InvalidLength (slice_get bs offset (saturating_add_usize offset 2)))
       (\<lambda>v. Inr (from_be_bytes v))"

definition read_u32 :: "bytes \<Rightarrow> nat \<Rightarrow> format_error + u32" where
  "read_u32 bs offset =
     rbind (ok_or InvalidLength (slice_get bs offset (saturating_add_usize offset 4)))
       (\<lambda>v. Inr (from_be_bytes v))"

definition read_u64 :: "bytes \<Rightarrow> nat \<Rightarrow> format_error + u64" where
  "read_u64 bs offset =
     rbind (ok_or InvalidLength (slice_get bs offset (saturating_add_usize offset 8)))
       (\<lambda>v. Inr (from_be_bytes v))"

definition envelope_encode ::
  "(bytes \<Rightarrow> bytes) \<Rightarrow> u16 \<Rightarrow> u16 \<Rightarrow> u32 \<Rightarrow> u64 \<Rightarrow> bytes \<Rightarrow> format_error + bytes" where
  "envelope_encode hash kind schema flags seq payload =
     (if length payload < 2 ^ 32
      then Inr (MAGIC @ to_be_bytes kind @ to_be_bytes schema @ to_be_bytes flags @ to_be_bytes seq
                @ to_be_bytes (of_nat (length payload) :: u32) @ to_be_bytes (checksum hash payload)
                @ payload)
      else Inl (PayloadTooLarge (length payload)))"

definition envelope_decode :: "(bytes \<Rightarrow> bytes) \<Rightarrow> bytes \<Rightarrow> format_error + decoded_record" where
  "envelope_decode hash frame =
     (if length frame < HEADER_LEN then Inl (TruncatedHeader (length frame))
      else if slice_get frame 0 4 \<noteq> Some MAGIC then Inl BadMagic
      else rbind (read_u16 frame 4) (\<lambda>kind.
           rbind (read_u16 frame 6) (\<lambda>schema.
           rbind (read_u32 frame 8) (\<lambda>flags.
           rbind (read_u64 frame 12) (\<lambda>seq.
           rbind (read_u32 frame 20) (\<lambda>len.
           rbind (read_u64 frame 24) (\<lambda>sum.
           rbind (ok_or InvalidLength (checked_add_usize HEADER_LEN (unat len))) (\<lambda>expected_len.
           if length frame \<noteq> expected_len
           then Inl (LengthMismatch len (length frame - HEADER_LEN))
           else rbind (ok_or InvalidLength (slice_get frame HEADER_LEN (length frame))) (\<lambda>payload.
           let actual = checksum hash payload in
           if sum \<noteq> actual then Inl (ChecksumMismatch sum actual)
           else Inr \<lparr>dec_envelope = \<lparr>env_kind = kind, env_schema = schema, env_flags = flags,
                        env_seq = seq, env_len = len, env_checksum = sum\<rparr>,
                     dec_payload = payload\<rparr>)))))))))"

section \<open>Frames and their fields\<close>

lemma length_MAGIC [simp]: "length MAGIC = 4"
  by (simp add: MAGIC_def)

text \<open>The fields of a frame that is long enough, as slices.\<close>

definition field :: "bytes \<Rightarrow> nat \<Rightarrow> nat \<Rightarrow> bytes" where
  "field bs offset n = take n (drop offset bs)"

lemma length_field: "offset + n \<le> length bs \<Longrightarrow> length (field bs offset n) = n"
  by (simp add: field_def)

lemma slice_get_field: "offset + n \<le> length bs \<Longrightarrow> slice_get bs offset (offset + n) = Some (field bs offset n)"
  by (simp add: slice_get_def field_def)

lemma small_saturating_add: "a + b \<le> 64 \<Longrightarrow> saturating_add_usize a b = a + b"
  by (simp add: saturating_add_usize_def usize_max_def)

lemma read_fields:
  "offset + 2 \<le> length bs \<Longrightarrow> offset \<le> 32 \<Longrightarrow> read_u16 bs offset = Inr (from_be_bytes (field bs offset 2))"
  "offset + 4 \<le> length bs \<Longrightarrow> offset \<le> 32 \<Longrightarrow> read_u32 bs offset = Inr (from_be_bytes (field bs offset 4))"
  "offset + 8 \<le> length bs \<Longrightarrow> offset \<le> 32 \<Longrightarrow> read_u64 bs offset = Inr (from_be_bytes (field bs offset 8))"
  using slice_get_field [of offset 2 bs] slice_get_field [of offset 4 bs] slice_get_field [of offset 8 bs]
  by (simp_all add: read_u16_def read_u32_def read_u64_def small_saturating_add ok_or_def)

definition header_of :: "bytes \<Rightarrow> record_envelope" where
  "header_of frame = \<lparr>env_kind = from_be_bytes (field frame 4 2), env_schema = from_be_bytes (field frame 6 2),
     env_flags = from_be_bytes (field frame 8 4), env_seq = from_be_bytes (field frame 12 8),
     env_len = from_be_bytes (field frame 20 4), env_checksum = from_be_bytes (field frame 24 8)\<rparr>"

text \<open>The decoder in terms of the fields.\<close>

lemma envelope_decode_eq:
  "envelope_decode hash frame =
     (let h = header_of frame; payload = drop 32 frame in
      if length frame < 32 then Inl (TruncatedHeader (length frame))
      else if take 4 frame \<noteq> MAGIC then Inl BadMagic
      else if length frame \<noteq> 32 + unat (env_len h) then Inl (LengthMismatch (env_len h) (length frame - 32))
      else if env_checksum h \<noteq> checksum hash payload
      then Inl (ChecksumMismatch (env_checksum h) (checksum hash payload))
      else Inr \<lparr>dec_envelope = h, dec_payload = payload\<rparr>)"
proof (cases "length frame < 32")
  case False
  have "unat (from_be_bytes (field frame 20 4) :: u32) < 2 ^ 32"
    using unsigned_less [of "from_be_bytes (field frame 20 4) :: u32", where 'a = nat] by simp
  then have "checked_add_usize 32 (unat (from_be_bytes (field frame 20 4) :: u32)) =
      Some (32 + unat (from_be_bytes (field frame 20 4) :: u32))"
    by (simp add: checked_add_usize_def usize_max_def)
  moreover have "slice_get frame 0 4 = Some (take 4 frame)"
    using False by (simp add: slice_get_def)
  moreover have "slice_get frame 32 (32 + unat (from_be_bytes (field frame 20 4) :: u32)) = Some (drop 32 frame)"
    if "length frame = 32 + unat (from_be_bytes (field frame 20 4) :: u32)"
    using that by (simp add: slice_get_def)
  ultimately show ?thesis
    using False by (auto simp: envelope_decode_def HEADER_LEN_def read_fields header_of_def Let_def ok_or_def)
qed (simp add: envelope_decode_def HEADER_LEN_def)

lemma envelope_decode_Inr_iff:
  "envelope_decode hash frame = Inr d \<longleftrightarrow>
     32 \<le> length frame \<and> take 4 frame = MAGIC \<and> length frame = 32 + unat (env_len (header_of frame))
     \<and> env_checksum (header_of frame) = checksum hash (drop 32 frame)
     \<and> d = \<lparr>dec_envelope = header_of frame, dec_payload = drop 32 frame\<rparr>"
  by (auto simp: envelope_decode_eq Let_def)

lemma field_append:
  "length xs \<le> offset \<Longrightarrow> field (xs @ ys) offset n = field ys (offset - length xs) n"
  "length xs = n \<Longrightarrow> field (xs @ ys) 0 n = xs"
  by (simp_all add: field_def)

lemma header_of_encode:
  assumes "envelope_encode hash kind schema flags seq payload = Inr frame"
  shows "header_of frame = \<lparr>env_kind = kind, env_schema = schema, env_flags = flags, env_seq = seq,
      env_len = of_nat (length payload), env_checksum = checksum hash payload\<rparr>"
    and "length frame = 32 + length payload" and "take 4 frame = MAGIC" and "drop 32 frame = payload"
    and "length payload < 2 ^ 32"
  using assms
  by (auto simp: envelope_encode_def header_of_def field_append split: if_splits)

lemma envelope_decode_encode:
  assumes "envelope_encode hash kind schema flags seq payload = Inr frame"
  shows "envelope_decode hash frame =
    Inr \<lparr>dec_envelope = \<lparr>env_kind = kind, env_schema = schema, env_flags = flags, env_seq = seq,
           env_len = of_nat (length payload), env_checksum = checksum hash payload\<rparr>,
         dec_payload = payload\<rparr>"
proof -
  note fields = header_of_encode [OF assms]
  have "unat (of_nat (length payload) :: u32) = length payload"
    using fields(5) by (simp add: unat_of_nat)
  then have "envelope_decode hash frame = Inr \<lparr>dec_envelope = header_of frame, dec_payload = payload\<rparr>"
    unfolding envelope_decode_Inr_iff using fields by simp
  then show ?thesis using fields by simp
qed

lemma frame_fields:
  assumes "32 \<le> length frame"
  shows "frame = take 4 frame @ field frame 4 2 @ field frame 6 2 @ field frame 8 4 @ field frame 12 8
    @ field frame 20 4 @ field frame 24 8 @ drop 32 frame"
proof -
  have split: "drop a frame = field frame a n @ drop (n + a) frame" for a n
    by (simp add: field_def flip: drop_drop)
  have "frame = take 4 frame @ drop 4 frame" by simp
  also have "drop 4 frame = field frame 4 2 @ drop 6 frame" using split [of 4 2] by simp
  also have "drop 6 frame = field frame 6 2 @ drop 8 frame" using split [of 6 2] by simp
  also have "drop 8 frame = field frame 8 4 @ drop 12 frame" using split [of 8 4] by simp
  also have "drop 12 frame = field frame 12 8 @ drop 20 frame" using split [of 12 8] by simp
  also have "drop 20 frame = field frame 20 4 @ drop 24 frame" using split [of 20 4] by simp
  also have "drop 24 frame = field frame 24 8 @ drop 32 frame" using split [of 24 8] by simp
  finally show ?thesis .
qed

lemma be_bytes_field:
  "offset + 2 \<le> length bs \<Longrightarrow> to_be_bytes (from_be_bytes (field bs offset 2) :: u16) = field bs offset 2"
  "offset + 4 \<le> length bs \<Longrightarrow> to_be_bytes (from_be_bytes (field bs offset 4) :: u32) = field bs offset 4"
  "offset + 8 \<le> length bs \<Longrightarrow> to_be_bytes (from_be_bytes (field bs offset 8) :: u64) = field bs offset 8"
  by (simp_all add: to_be_bytes_from_be_bytes length_field)

text \<open>A frame that decodes has the header it decodes to in front of its payload.\<close>

lemma decoded_frame:
  assumes "envelope_decode hash frame = Inr d"
  shows "envelope_encode hash (env_kind (dec_envelope d)) (env_schema (dec_envelope d)) (env_flags (dec_envelope d))
    (env_seq (dec_envelope d)) (dec_payload d) = Inr frame"
proof -
  have len: "32 \<le> length frame" and magic: "take 4 frame = MAGIC"
    and plen: "length frame = 32 + unat (env_len (header_of frame))"
    and check: "env_checksum (header_of frame) = checksum hash (drop 32 frame)"
    and d: "d = \<lparr>dec_envelope = header_of frame, dec_payload = drop 32 frame\<rparr>"
    using assms by (auto simp: envelope_decode_Inr_iff)
  have size: "length (drop 32 frame) = unat (env_len (header_of frame))" using plen by simp
  then have "of_nat (length (drop 32 frame)) = env_len (header_of frame)" by simp
  moreover have "length (drop 32 frame) < 2 ^ 32"
    using size unsigned_less [of "env_len (header_of frame)", where 'a = nat] by simp
  ultimately have "envelope_encode hash (env_kind (dec_envelope d)) (env_schema (dec_envelope d)) (env_flags (dec_envelope d))
      (env_seq (dec_envelope d)) (dec_payload d) =
    Inr (take 4 frame @ field frame 4 2 @ field frame 6 2 @ field frame 8 4 @ field frame 12 8
      @ field frame 20 4 @ field frame 24 8 @ drop 32 frame)"
    using len magic check
    by (simp add: d envelope_encode_def be_bytes_field header_of_def flip: check)
  then show ?thesis using frame_fields [OF len] by simp
qed

section \<open>Properties\<close>

text \<open>C33.
  Round trip: decoding an encoded record returns exactly the fields and the payload that were
  encoded, with the declared length and the checksum of the payload, for every payload the
  32-bit length field can represent.
\<close>

theorem envelope_roundtrip:
  assumes "length payload < 2 ^ 32"
  shows "\<exists>frame. envelope_encode hash kind schema flags seq payload = Inr frame
    \<and> length frame = HEADER_LEN + length payload
    \<and> envelope_decode hash frame =
        Inr \<lparr>dec_envelope = \<lparr>env_kind = kind, env_schema = schema, env_flags = flags, env_seq = seq,
               env_len = of_nat (length payload), env_checksum = checksum hash payload\<rparr>,
             dec_payload = payload\<rparr>"
proof -
  obtain frame where frame: "envelope_encode hash kind schema flags seq payload = Inr frame"
    using assms by (simp add: envelope_encode_def)
  then show ?thesis
    using envelope_decode_encode [OF frame] header_of_encode(2) [OF frame] by (simp add: HEADER_LEN_def)
qed

theorem envelope_roundtrip_witness:
  "\<exists>frame. envelope_encode (\<lambda>p. replicate 32 (of_nat (length p))) (record_kind_u16 KObservation) 1 0 7 [1, 2, 3] = Inr frame
    \<and> length frame = HEADER_LEN + 3
    \<and> envelope_decode (\<lambda>p. replicate 32 (of_nat (length p))) frame =
        Inr \<lparr>dec_envelope = \<lparr>env_kind = 1, env_schema = 1, env_flags = 0, env_seq = 7,
               env_len = 3, env_checksum = checksum (\<lambda>p. replicate 32 (of_nat (length p))) [1, 2, 3]\<rparr>,
             dec_payload = [1, 2, 3]\<rparr>"
  using envelope_roundtrip [of "[1, 2, 3]" "\<lambda>p. replicate 32 (of_nat (length p))" "record_kind_u16 KObservation" 1 0 7]
  by (simp add: HEADER_LEN_def)

text \<open>C34.
  Canonical form: a frame that decodes is the encoding of the fields it decodes to, so two frames
  that decode to the same record are the same bytes, and damage is found: a frame is never a
  proper prefix of another one (truncated frames and trailing bytes are refused), and two frames
  with one header have payloads with one checksum.
\<close>

theorem envelope_canonical:
  assumes "envelope_decode hash frame = Inr d" and "envelope_decode hash frame' = Inr d'"
  shows "envelope_encode hash (env_kind (dec_envelope d)) (env_schema (dec_envelope d))
      (env_flags (dec_envelope d)) (env_seq (dec_envelope d)) (dec_payload d) = Inr frame
    \<and> (d = d' \<longrightarrow> frame = frame')
    \<and> (starts_with frame' frame \<longrightarrow> frame = frame')
    \<and> (take HEADER_LEN frame = take HEADER_LEN frame' \<longrightarrow>
        checksum hash (dec_payload d) = checksum hash (dec_payload d')
        \<and> length (dec_payload d) = length (dec_payload d'))"
proof -
  have same_header: "header_of f = header_of f'" if "take 32 f = take 32 f'" for f f'
  proof -
    have "field f a n = field f' a n" if "a + n \<le> 32" for a n
    proof -
      have "field g a n = take n (drop a (take 32 g))" for g
        using that by (simp add: field_def drop_take min_def)
      then show ?thesis using \<open>take 32 f = take 32 f'\<close> by simp
    qed
    then show ?thesis by (simp add: header_of_def)
  qed
  have "frame = frame'" if "starts_with frame' frame"
  proof -
    from that obtain rest where rest: "frame' = frame @ rest" by (auto simp: starts_with_iff)
    with assms have "header_of frame = header_of frame'"
      by (intro same_header) (auto simp: envelope_decode_Inr_iff)
    with assms have "length frame = length frame'" by (auto simp: envelope_decode_Inr_iff)
    with rest show ?thesis by simp
  qed
  moreover have "checksum hash (dec_payload d) = checksum hash (dec_payload d')
      \<and> length (dec_payload d) = length (dec_payload d')"
    if "take HEADER_LEN frame = take HEADER_LEN frame'"
    using assms same_header [of frame frame'] that by (auto simp: envelope_decode_Inr_iff HEADER_LEN_def)
  moreover have "frame = frame'" if "d = d'"
    using decoded_frame [OF assms(1)] decoded_frame [OF assms(2)] that by simp
  ultimately show ?thesis using decoded_frame [OF assms(1)] by blast
qed

theorem envelope_canonical_witness:
  "envelope_encode (\<lambda>p. replicate 32 0) 1 1 0 7 [9] =
     Inr [67, 84, 88, 74, 0, 1, 0, 1, 0, 0, 0, 0, 0, 0, 0, 0, 0, 0, 0, 7, 0, 0, 0, 1, 0, 0, 0, 0, 0, 0, 0, 0, 9]"
  (is "_ = Inr ?frame")
proof -
  have "be_value (replicate n 0) = 0" for n by (induction n) simp_all
  then have "envelope_decode (\<lambda>p. replicate 32 0) ?frame =
      Inr \<lparr>dec_envelope = \<lparr>env_kind = 1, env_schema = 1, env_flags = 0, env_seq = 7, env_len = 1, env_checksum = 0\<rparr>,
           dec_payload = [9]\<rparr>"
    by (simp add: envelope_decode_eq header_of_def field_def from_be_bytes_def MAGIC_def checksum_def Let_def)
  from envelope_canonical [OF this this, THEN conjunct1] show ?thesis
    by (simp only: record_envelope.simps decoded_record.simps)
qed

end
