(* ===== verification/Format_Registry.thy ===== *)
theory Format_Registry
  imports Record_Frame "HOL-Library.Product_Lexorder"
begin

text \<open>
  Stored-format manifests, reader capabilities, and the registry of migrations with its planner:
  the rest of \<open>crates/contextdb-format/src/lib.rs\<close>. The theory shows that readers fail closed,
  that the free-space estimate is the exact rounded-up value, and that the planner returns a
  shortest chain of registered migrations exactly when there is one.
\<close>

section \<open>Identifiers\<close>

definition identifier_tail :: "char \<Rightarrow> bool" where
  "identifier_tail b \<longleftrightarrow> is_ascii_lowercase b \<or> is_ascii_digit b \<or> b = CHR ''_'' \<or> b = CHR ''-''"

definition validate_identifier :: "string \<Rightarrow> string \<Rightarrow> format_error + unit" where
  "validate_identifier kind value =
     (case value of
        [] \<Rightarrow> Inl (InvalidIdentifier kind value)
      | first # rest \<Rightarrow>
          if \<not> is_ascii_lowercase first \<or> \<not> list_all identifier_tail rest
          then Inl (InvalidIdentifier kind value) else Inr ())"

text \<open>\<open>str::rsplit_once\<close>: what stands before and after the last occurrence of the separator.\<close>

definition rsplit_once :: "char \<Rightarrow> string \<Rightarrow> (string \<times> string) option" where
  "rsplit_once c s =
     (if c \<in> set s
      then let suffix = takeWhile (\<lambda>b. b \<noteq> c) (rev s)
           in Some (rev (drop (Suc (length suffix)) (rev s)), rev suffix)
      else None)"

definition validate_migration_id :: "string \<Rightarrow> format_error + unit" where
  "validate_migration_id value =
     (case rsplit_once (CHR ''-'') value of
        None \<Rightarrow> Inl (InvalidMigrationId value)
      | Some (prefix, sequence) \<Rightarrow>
          if prefix = [] \<or> \<not> list_all is_ascii_uppercase prefix
             \<or> length sequence < 4 \<or> \<not> list_all is_ascii_digit sequence
          then Inl (InvalidMigrationId value) else Inr ())"

section \<open>Manifests and readers\<close>

record stored_format_manifest =
  sfm_family :: string
  sfm_writer :: u32
  sfm_required :: "string btree_set"

definition manifest_validate :: "stored_format_manifest \<Rightarrow> format_error + unit" where
  "manifest_validate m =
     rbind (validate_identifier ''format family'' (sfm_family m))
       (\<lambda>_. rall (validate_identifier ''required format feature'') (sfm_required m))"

definition manifest_new :: "string \<Rightarrow> u32 \<Rightarrow> string list \<Rightarrow> format_error + stored_format_manifest" where
  "manifest_new family writer features =
     (let m = \<lparr>sfm_family = family, sfm_writer = writer, sfm_required = bs_of_list features\<rparr>
      in rbind (manifest_validate m) (\<lambda>_. Inr m))"

record reader_capability =
  read_min :: u32
  read_max :: u32
  supported_features :: "string btree_set"

definition capability_validate :: "reader_capability \<Rightarrow> format_error + unit" where
  "capability_validate c =
     (if read_min c > read_max c then Inl (InvalidReaderRange (read_min c) (read_max c))
      else rall (validate_identifier ''supported format feature'') (supported_features c))"

definition capability_new :: "u32 \<Rightarrow> u32 \<Rightarrow> string list \<Rightarrow> format_error + reader_capability" where
  "capability_new rmin rmax features =
     (let c = \<lparr>read_min = rmin, read_max = rmax, supported_features = bs_of_list features\<rparr>
      in rbind (capability_validate c) (\<lambda>_. Inr c))"

text \<open>The first element of \<open>required_features.difference(supported)\<close> is the first one missing.\<close>

definition ensure_can_read :: "reader_capability \<Rightarrow> stored_format_manifest \<Rightarrow> format_error + unit" where
  "ensure_can_read c stored =
     rbind (capability_validate c) (\<lambda>_.
     rbind (manifest_validate stored) (\<lambda>_.
       if \<not> (read_min c \<le> sfm_writer stored \<and> sfm_writer stored \<le> read_max c)
       then Inl (UnsupportedWriterVersion (sfm_family stored) (sfm_writer stored) (read_min c) (read_max c))
       else case List.find (\<lambda>f. f \<notin> set (supported_features c)) (sfm_required stored) of
              Some feature \<Rightarrow> Inl (UnknownRequiredFeature (sfm_family stored) feature)
            | None \<Rightarrow> Inr ()))"

section \<open>Migrations\<close>

datatype migration_kind =
  OnlineMetadata | BackgroundSegmentRewrite | SideBySideGeneration | OfflineMajor | LogicalExportImport

datatype rollback_policy =
  SwitchToUntouchedSource | VerifiedReverseMigration | RollbackUnsupported

record free_space_requirement =
  fixed_bytes :: u64
  multiplier_numerator :: u32
  multiplier_denominator :: u32

definition FREE_SPACE_NONE :: free_space_requirement where
  "FREE_SPACE_NONE = \<lparr>fixed_bytes = 0, multiplier_numerator = 0, multiplier_denominator = 1\<rparr>"

text \<open>The result of a checked 128-bit operation.\<close>

definition checked_u128 :: "nat \<Rightarrow> format_error + nat" where
  "checked_u128 n = (if n < 2 ^ 128 then Inr n else Inl FreeSpaceEstimateOverflow)"

definition estimate :: "free_space_requirement \<Rightarrow> u64 \<Rightarrow> format_error + u64" where
  "estimate r source_bytes =
     (if multiplier_denominator r = 0 then Inl InvalidFreeSpaceRequirement
      else rbind (checked_u128 (unat source_bytes * unat (multiplier_numerator r))) (\<lambda>numerator.
           let denominator = unat (multiplier_denominator r) in
           rbind (checked_u128 (numerator + (denominator - 1))) (\<lambda>rounded.
           let scaled = rounded div denominator in
           rbind (checked_u128 (scaled + unat (fixed_bytes r))) (\<lambda>total_bytes.
           if total_bytes < 2 ^ 64 then Inr (of_nat total_bytes) else Inl FreeSpaceEstimateOverflow))))"

record migration_descriptor =
  migration_id :: string
  mig_family :: string
  from_writer :: u32
  to_writer :: u32
  mig_kind :: migration_kind
  rollback :: rollback_policy
  required_free_space :: free_space_requirement
  checksum_plan :: string

definition migration_validate :: "migration_descriptor \<Rightarrow> format_error + unit" where
  "migration_validate m =
     rbind (validate_migration_id (migration_id m)) (\<lambda>_.
     rbind (validate_identifier ''format family'' (mig_family m)) (\<lambda>_.
     rbind (validate_identifier ''checksum plan'' (checksum_plan m)) (\<lambda>_.
       if from_writer m = to_writer m then Inl (IdentityMigration (mig_family m) (from_writer m))
       else rbind (estimate (required_free_space m) 0) (\<lambda>_. Inr ()))))"

record migration_plan =
  plan_family :: string
  plan_from :: u32
  plan_to :: u32
  plan_steps :: "migration_descriptor list"
  required_free_space_bytes :: u64
  rollback_supported :: bool

record format_registry =
  readers :: "(string, reader_capability) btree_map"
  migrations :: "(string, migration_descriptor) btree_map"

definition registry_new :: format_registry where
  "registry_new = \<lparr>readers = [], migrations = []\<rparr>"

text \<open>
  \<open>BTreeMap::insert\<close> stores the new capability and returns the old one; the check for a duplicate
  comes after it, so the registry is changed on that error too.
\<close>

definition register_reader ::
  "string \<Rightarrow> reader_capability \<Rightarrow> format_registry \<Rightarrow> format_registry \<times> (format_error + unit)" where
  "register_reader family capability reg =
     (case validate_identifier ''format family'' family of
        Inl e \<Rightarrow> (reg, Inl e)
      | Inr _ \<Rightarrow>
          (case capability_validate capability of
             Inl e \<Rightarrow> (reg, Inl e)
           | Inr _ \<Rightarrow>
               let previous = bt_get (readers reg) family;
                   reg' = reg\<lparr>readers := bt_insert family capability (readers reg)\<rparr>
               in if previous \<noteq> None then (reg', Inl (DuplicateReader family)) else (reg', Inr ())))"

definition register_migration ::
  "migration_descriptor \<Rightarrow> format_registry \<Rightarrow> format_registry \<times> (format_error + unit)" where
  "register_migration m reg =
     (case migration_validate m of
        Inl e \<Rightarrow> (reg, Inl e)
      | Inr _ \<Rightarrow>
          if bt_contains (migrations reg) (migration_id m)
          then (reg, Inl (DuplicateMigration (migration_id m)))
          else if list_ex (\<lambda>(k, existing). mig_family existing = mig_family m
                     \<and> from_writer existing = from_writer m \<and> to_writer existing = to_writer m) (migrations reg)
          then (reg, Inl (DuplicateMigrationEdge (mig_family m) (from_writer m) (to_writer m)))
          else (reg\<lparr>migrations := bt_insert (migration_id m) m (migrations reg)\<rparr>, Inr ()))"

definition ensure_readable :: "format_registry \<Rightarrow> stored_format_manifest \<Rightarrow> format_error + unit" where
  "ensure_readable reg stored =
     rbind (manifest_validate stored) (\<lambda>_.
     rbind (ok_or (UnknownFormatFamily (sfm_family stored)) (bt_get (readers reg) (sfm_family stored)))
       (\<lambda>reader. ensure_can_read reader stored))"

section \<open>The planner\<close>

definition outgoing :: "format_registry \<Rightarrow> string \<Rightarrow> u32 \<Rightarrow> migration_descriptor list" where
  "outgoing reg family writer =
     sort_key (\<lambda>m. (to_writer m, migration_id m))
       (filter (\<lambda>m. mig_family m = family \<and> from_writer m = writer) (map snd (migrations reg)))"

text \<open>The inner loop over the outgoing migrations of one writer version.\<close>

type_synonym plan_queue = "(u32 \<times> string list) list"

fun explore ::
  "u32 \<Rightarrow> string list \<Rightarrow> migration_descriptor list \<Rightarrow> u32 btree_set \<Rightarrow> plan_queue \<Rightarrow>
   u32 btree_set \<times> plan_queue \<times> string list option" where
  "explore target path [] visited queue = (visited, queue, None)"
| "explore target path (m # ms) visited queue =
     (if to_writer m \<in> set visited then explore target path ms visited queue
      else let visited' = bs_insert (to_writer m) visited;
               next_path = path @ [migration_id m]
           in if to_writer m = target then (visited', queue, Some next_path)
              else explore target path ms visited' (queue @ [(to_writer m, next_path)]))"

definition new_targets :: "migration_descriptor list \<Rightarrow> u32 btree_set \<Rightarrow> u32 set" where
  "new_targets ms visited = to_writer ` set ms - set visited"

lemma explore_None:
  assumes "explore target path ms visited queue = (visited', queue', None)"
  shows "set visited' = set visited \<union> to_writer ` set ms
    \<and> target \<notin> new_targets ms visited
    \<and> (\<exists>fresh. queue' = queue @ fresh \<and> distinct (map fst fresh) \<and> fst ` set fresh = new_targets ms visited
        \<and> (\<forall>(w, p) \<in> set fresh. \<exists>m \<in> set ms. w = to_writer m \<and> p = path @ [migration_id m]))"
  using assms
proof (induction target path ms visited queue rule: explore.induct)
  case (2 target path m ms visited queue)
  show ?case
  proof (cases "to_writer m \<in> set visited")
    case True
    then have run: "explore target path ms visited queue = (visited', queue', None)" using 2(3) by simp
    from True have "new_targets (m # ms) visited = new_targets ms visited" by (auto simp: new_targets_def)
    with "2.IH"(1) [OF True run] True show ?thesis by auto
  next
    case False
    let ?v = "bs_insert (to_writer m) visited"
    let ?p = "path @ [migration_id m]"
    have ne: "to_writer m \<noteq> target" and run: "explore target path ms ?v (queue @ [(to_writer m, ?p)]) = (visited', queue', None)"
      using 2(3) False by (auto simp: Let_def split: if_splits)
    from "2.IH"(2) [OF False refl refl ne run] obtain fresh where
      v: "set visited' = set ?v \<union> to_writer ` set ms" and t: "target \<notin> new_targets ms ?v"
      and q: "queue' = (queue @ [(to_writer m, ?p)]) @ fresh" and d: "distinct (map fst fresh)"
      and f: "fst ` set fresh = new_targets ms ?v"
      and m: "\<forall>(w, p) \<in> set fresh. \<exists>m \<in> set ms. w = to_writer m \<and> p = path @ [migration_id m]"
      by blast
    have new: "new_targets (m # ms) visited = insert (to_writer m) (new_targets ms ?v)"
      and notin: "to_writer m \<notin> new_targets ms ?v"
      using False by (auto simp: new_targets_def)
    have "queue' = queue @ ((to_writer m, ?p) # fresh)" using q by simp
    moreover have "distinct (map fst ((to_writer m, ?p) # fresh))" using d f notin by simp
    moreover have "fst ` set ((to_writer m, ?p) # fresh) = new_targets (m # ms) visited" using f new by simp
    moreover have "\<forall>(w, p) \<in> set ((to_writer m, ?p) # fresh). \<exists>m' \<in> set (m # ms). w = to_writer m' \<and> p = path @ [migration_id m']"
      using m by auto
    ultimately show ?thesis using v t ne new by (auto intro!: exI [of _ "(to_writer m, ?p) # fresh"])
  qed
qed (simp add: new_targets_def)

lemma explore_Some:
  assumes "explore target path ms visited queue = (visited', queue', Some p)"
  shows "\<exists>m \<in> set ms. to_writer m = target \<and> p = path @ [migration_id m]"
  using assms by (induction target path ms visited queue rule: explore.induct) (auto simp: Let_def split: if_splits)

text \<open>
  The outer loop: each iteration takes one entry from the queue, and every entry it adds belongs to
  a writer version that was not visited before.
\<close>

definition all_targets :: "format_registry \<Rightarrow> u32 set" where
  "all_targets reg = to_writer ` snd ` set (migrations reg)"

lemma outgoing_targets: "to_writer ` set (outgoing reg family w) \<subseteq> all_targets reg"
  by (auto simp: outgoing_def all_targets_def)

function plan_search ::
  "format_registry \<Rightarrow> string \<Rightarrow> u32 \<Rightarrow> plan_queue \<Rightarrow> u32 btree_set \<Rightarrow> string list option" where
  "plan_search reg family target [] visited = None"
| "plan_search reg family target ((writer, path) # queue) visited =
     (case explore target path (outgoing reg family writer) visited queue of
        (visited', queue', Some selected) \<Rightarrow> Some selected
      | (visited', queue', None) \<Rightarrow> plan_search reg family target queue' visited')"
  by pat_completeness auto
termination
proof (relation "measure (\<lambda>(reg, family, target, queue, visited).
    card (all_targets reg - set visited) + length queue)", goal_cases)
  case (2 reg family target writer path queue visited visited' rest queue' found)
  then obtain fresh where v: "set visited' = set visited \<union> to_writer ` set (outgoing reg family writer)"
    and q: "queue' = queue @ fresh" and d: "distinct (map fst fresh)"
    and f: "fst ` set fresh = new_targets (outgoing reg family writer) visited"
    using explore_None [of target path "outgoing reg family writer" visited queue visited' queue'] by auto
  have fin: "finite (all_targets reg)" by (simp add: all_targets_def)
  let ?new = "new_targets (outgoing reg family writer) visited"
  have sub: "?new \<subseteq> all_targets reg - set visited"
    using outgoing_targets [of reg family writer] by (auto simp: new_targets_def)
  have "all_targets reg - set visited' = (all_targets reg - set visited) - ?new"
    using v by (auto simp: new_targets_def)
  then have "card (all_targets reg - set visited') = card (all_targets reg - set visited) - card ?new"
    using card_Diff_subset [OF finite_subset [OF sub] sub] fin by simp
  moreover have "card ?new = length fresh"
    using d f by (metis distinct_card length_map list.set_map)
  moreover have "card ?new \<le> card (all_targets reg - set visited)" using card_mono [OF _ sub] fin by simp
  ultimately show ?case using q by simp
qed simp

declare plan_search.simps(2) [simp del]

fun max_estimate :: "u64 \<Rightarrow> migration_descriptor list \<Rightarrow> u64 \<Rightarrow> format_error + u64" where
  "max_estimate source_bytes [] acc = Inr acc"
| "max_estimate source_bytes (step # steps) acc =
     rbind (estimate (required_free_space step) source_bytes)
       (\<lambda>n. max_estimate source_bytes steps (max acc n))"

definition plan_migration ::
  "format_registry \<Rightarrow> string \<Rightarrow> u32 \<Rightarrow> u32 \<Rightarrow> u64 \<Rightarrow> u64 \<Rightarrow> format_error + migration_plan" where
  "plan_migration reg family fromw tow source_bytes available =
     rbind (validate_identifier ''format family'' family) (\<lambda>_.
       if fromw = tow
       then Inr \<lparr>plan_family = family, plan_from = fromw, plan_to = tow, plan_steps = [],
                 required_free_space_bytes = 0, rollback_supported = True\<rparr>
       else
         rbind (ok_or (MigrationPathUnavailable family fromw tow)
                  (plan_search reg family tow [(fromw, [])] [fromw])) (\<lambda>ids.
         let steps = List.map_filter (bt_get (migrations reg)) ids in
         rbind (max_estimate source_bytes steps 0) (\<lambda>required.
         if available < required then Inl (InsufficientMigrationSpace required available)
         else Inr \<lparr>plan_family = family, plan_from = fromw, plan_to = tow, plan_steps = steps,
                   required_free_space_bytes = required,
                   rollback_supported = list_all (\<lambda>s. rollback s \<noteq> RollbackUnsupported) steps\<rparr>)))"

section \<open>Routes and the search\<close>

definition edges :: "format_registry \<Rightarrow> string \<Rightarrow> migration_descriptor set" where
  "edges reg family = {m \<in> snd ` set (migrations reg). mig_family m = family}"

fun chain :: "u32 \<Rightarrow> migration_descriptor list \<Rightarrow> u32 \<Rightarrow> bool" where
  "chain a [] b \<longleftrightarrow> a = b"
| "chain a (m # ms) b \<longleftrightarrow> from_writer m = a \<and> chain (to_writer m) ms b"

definition route :: "format_registry \<Rightarrow> string \<Rightarrow> u32 \<Rightarrow> migration_descriptor list \<Rightarrow> u32 \<Rightarrow> bool" where
  "route reg family a ms b \<longleftrightarrow> chain a ms b \<and> set ms \<subseteq> edges reg family"

definition shortest_route :: "format_registry \<Rightarrow> string \<Rightarrow> u32 \<Rightarrow> migration_descriptor list \<Rightarrow> u32 \<Rightarrow> bool" where
  "shortest_route reg family a ms b \<longleftrightarrow>
     route reg family a ms b \<and> (\<forall>ms'. route reg family a ms' b \<longrightarrow> length ms \<le> length ms')"

lemma chain_snoc: "chain a (ms @ [m]) b \<longleftrightarrow> chain a ms (from_writer m) \<and> to_writer m = b"
  by (induction ms arbitrary: a) auto

lemma route_snoc:
  "route reg family a (ms @ [m]) b \<longleftrightarrow>
     route reg family a ms (from_writer m) \<and> m \<in> edges reg family \<and> to_writer m = b"
  by (auto simp: route_def chain_snoc)

lemma set_outgoing: "set (outgoing reg family w) = {m \<in> edges reg family. from_writer m = w}"
  by (auto simp: outgoing_def edges_def)

definition queue_ok :: "format_registry \<Rightarrow> string \<Rightarrow> u32 \<Rightarrow> nat \<Rightarrow> plan_queue \<Rightarrow> bool" where
  "queue_ok reg family src n queue \<longleftrightarrow>
     (\<forall>(w, p) \<in> set queue. (\<exists>ms. route reg family src ms w \<and> p = map migration_id ms)
        \<and> (\<forall>ms. route reg family src ms w \<longrightarrow> length p \<le> length ms) \<and> (length p = n \<or> length p = Suc n))"

definition expanded :: "format_registry \<Rightarrow> string \<Rightarrow> plan_queue \<Rightarrow> u32 btree_set \<Rightarrow> bool" where
  "expanded reg family queue visited \<longleftrightarrow>
     (\<forall>w \<in> set visited. w \<in> fst ` set queue \<or> (\<forall>m \<in> edges reg family. from_writer m = w \<longrightarrow> to_writer m \<in> set visited))"

definition levels_seen :: "format_registry \<Rightarrow> string \<Rightarrow> u32 \<Rightarrow> nat \<Rightarrow> u32 btree_set \<Rightarrow> bool" where
  "levels_seen reg family src n visited \<longleftrightarrow>
     (\<forall>w ms. route reg family src ms w \<longrightarrow> length ms \<le> n \<longrightarrow> w \<in> set visited)"

definition search_ok :: "format_registry \<Rightarrow> string \<Rightarrow> u32 \<Rightarrow> u32 \<Rightarrow> plan_queue \<Rightarrow> u32 btree_set \<Rightarrow> bool" where
  "search_ok reg family src target queue visited \<longleftrightarrow>
     src \<in> set visited \<and> target \<notin> set visited \<and> expanded reg family queue visited
     \<and> sorted (map (\<lambda>(w, p). length p) queue)
     \<and> (queue \<noteq> [] \<longrightarrow>
          (let n = length (snd (hd queue)) in
           queue_ok reg family src n queue \<and> levels_seen reg family src n visited))"

lemma search_ok_start:
  assumes "src \<noteq> target"
  shows "search_ok reg family src target [(src, [])] [src]"
  using assms
  by (auto simp: search_ok_def expanded_def queue_ok_def levels_seen_def Let_def route_def intro!: exI [of _ "[]"])

text \<open>A full queue level without the next one: the level after it has been seen.\<close>

lemma levels_seen_Suc:
  assumes "levels_seen reg family src n visited" and "expanded reg family queue visited"
    and "queue_ok reg family src (Suc n) queue"
  shows "levels_seen reg family src (Suc n) visited"
  unfolding levels_seen_def
proof (intro allI impI)
  fix w ms
  assume r: "route reg family src ms w" and len: "length ms \<le> Suc n"
  show "w \<in> set visited"
  proof (cases "length ms \<le> n")
    case True
    with r assms(1) show ?thesis by (simp add: levels_seen_def)
  next
    case False
    with len obtain ms' m where ms: "ms = ms' @ [m]" and n: "length ms' = n"
      by (cases ms rule: rev_cases) auto
    let ?x = "from_writer m"
    have x: "route reg family src ms' ?x" and m: "m \<in> edges reg family" and w: "to_writer m = w"
      using r ms by (auto simp: route_snoc)
    have "?x \<in> set visited" using assms(1) x n by (simp add: levels_seen_def)
    moreover have "?x \<notin> fst ` set queue"
    proof
      assume "?x \<in> fst ` set queue"
      then obtain p where "(?x, p) \<in> set queue" by auto
      with assms(3) x have "length p \<le> length ms'" and "Suc n \<le> length p" by (fastforce simp: queue_ok_def)+
      then show False using n by simp
    qed
    ultimately show ?thesis using assms(2) m w by (auto simp: expanded_def)
  qed
qed

lemma search_ok_step:
  assumes ok: "search_ok reg family src target ((w, path) # queue) visited"
    and run: "explore target path (outgoing reg family w) visited queue = (visited', queue', None)"
  shows "search_ok reg family src target queue' visited'"
proof -
  let ?out = "outgoing reg family w"
  let ?n = "length path"
  obtain fresh where v: "set visited' = set visited \<union> to_writer ` set ?out" and t: "target \<notin> new_targets ?out visited"
    and q: "queue' = queue @ fresh" and f: "fst ` set fresh = new_targets ?out visited"
    and fr: "\<forall>(u, p) \<in> set fresh. \<exists>m \<in> set ?out. u = to_writer m \<and> p = path @ [migration_id m]"
    using explore_None [OF run] by blast
  have seen: "levels_seen reg family src ?n visited" and qok: "queue_ok reg family src ?n ((w, path) # queue)"
    and sorted: "sorted (map (\<lambda>(w, p). length p) ((w, path) # queue))"
    and exp: "expanded reg family ((w, path) # queue) visited"
    and ends: "src \<in> set visited" "target \<notin> set visited"
    using ok by (auto simp: search_ok_def Let_def)
  have fresh_len: "length p = Suc ?n" if "(u, p) \<in> set fresh" for u p using fr that by auto
  have fresh_route: "\<exists>ms. route reg family src ms u \<and> p = map migration_id ms" if "(u, p) \<in> set fresh" for u p
  proof -
    from fr that obtain m where m: "m \<in> set ?out" "u = to_writer m" "p = path @ [migration_id m]" by auto
    from qok obtain ms where "route reg family src ms w" "path = map migration_id ms" by (auto simp: queue_ok_def)
    with m have "route reg family src (ms @ [m]) u \<and> p = map migration_id (ms @ [m])"
      by (auto simp: route_snoc set_outgoing)
    then show ?thesis by blast
  qed
  have fresh_min: "Suc ?n \<le> length ms" if "(u, p) \<in> set fresh" "route reg family src ms u" for u p ms
  proof (rule ccontr)
    assume "\<not> Suc ?n \<le> length ms"
    with seen that(2) have "u \<in> set visited" by (auto simp: levels_seen_def)
    moreover have "u \<in> new_targets ?out visited" using f that(1) by force
    ultimately show False by (simp add: new_targets_def)
  qed
  have exp': "expanded reg family queue' visited'"
    using exp v q f by (auto simp: expanded_def new_targets_def set_outgoing image_Un) 
  have sorted': "sorted (map (\<lambda>(w, p). length p) queue')"
  proof -
    have "length p \<le> Suc ?n" if "(u, p) \<in> set queue" for u p using qok that by (auto simp: queue_ok_def)
    moreover have "map (\<lambda>(w, p). length p) fresh = replicate (length fresh) (Suc ?n)"
      using fresh_len by (auto simp: map_replicate_const [symmetric] intro!: map_cong)
    ultimately show ?thesis using sorted by (auto simp: q sorted_append)
  qed
  have low: "?n \<le> length p" if "(u, p) \<in> set queue" for u p using sorted that by auto
  have tgt: "target \<notin> set visited'" using ends t v by (auto simp: new_targets_def)
  show ?thesis
  proof (cases "queue' = []")
    case True
    then show ?thesis using exp' ends v tgt by (simp add: search_ok_def)
  next
    case False
    let ?k = "length (snd (hd queue'))"
    obtain u0 p0 where hd: "hd queue' = (u0, p0)" by (metis surj_pair)
    then have "(u0, p0) \<in> set queue'" using False by (metis hd_in_set)
    then have k: "?k = ?n \<or> ?k = Suc ?n"
      using qok fresh_len q hd by (fastforce simp: queue_ok_def)
    have ge: "?k \<le> length p" if "(u, p) \<in> set queue'" for u p
      using sorted' that False by (cases queue') (auto split: prod.splits)
    have qok': "queue_ok reg family src ?k queue'"
      unfolding queue_ok_def
    proof (safe, goal_cases)
      case (1 u p)
      then show ?case using qok fresh_route q by (auto simp: queue_ok_def)
    next
      case (2 u p ms)
      then show ?case using qok fresh_min fresh_len q by (fastforce simp: queue_ok_def)
    next
      case (3 u p)
      then have "length p \<le> Suc ?n" using qok fresh_len q by (fastforce simp: queue_ok_def)
      with 3 ge [of u p] k show ?case by auto
    qed
    have seen': "levels_seen reg family src ?n visited'" using seen v by (auto simp: levels_seen_def)
    have "levels_seen reg family src ?k visited'"
      using k seen' levels_seen_Suc [OF seen' exp'] qok' by auto
    then show ?thesis using exp' sorted' tgt ends v qok' by (simp add: search_ok_def Let_def)
  qed
qed

lemma expanded_closed:
  assumes "expanded reg family [] visited" and "src \<in> set visited" and "route reg family src ms w"
  shows "w \<in> set visited"
  using assms(2,3)
proof (induction ms arbitrary: src)
  case (Cons m ms)
  then have "to_writer m \<in> set visited" "route reg family (to_writer m) ms w"
    using assms(1) by (auto simp: expanded_def route_def)
  then show ?case by (rule Cons.IH)
qed (simp add: route_def)

lemma plan_search_correct:
  assumes "search_ok reg family src target queue visited"
  shows "case plan_search reg family target queue visited of
      None \<Rightarrow> \<not> (\<exists>ms. route reg family src ms target)
    | Some ids \<Rightarrow> \<exists>ms. shortest_route reg family src ms target \<and> ids = map migration_id ms"
  using assms
proof (induction reg family target queue visited rule: plan_search.induct)
  case (1 reg family target visited)
  then show ?case using expanded_closed [of reg family visited src] by (auto simp: search_ok_def)
next
  case (2 reg family target w path queue visited)
  let ?out = "outgoing reg family w"
  obtain visited' queue' found where run: "explore target path ?out visited queue = (visited', queue', found)"
    by (metis surj_pair)
  show ?case
  proof (cases found)
    case None
    then show ?thesis
      using run "2.IH" [OF run [symmetric] refl None] search_ok_step [OF "2.prems"]
      by (simp add: plan_search.simps(2))
  next
    case (Some ids)
    from explore_Some [OF run [unfolded Some]] obtain m where
      m: "m \<in> set ?out" "to_writer m = target" "ids = path @ [migration_id m]" by blast
    obtain ms where ms: "route reg family src ms w" "path = map migration_id ms"
      using "2.prems" by (auto simp: search_ok_def queue_ok_def Let_def)
    have "route reg family src (ms @ [m]) target"
      using m ms by (auto simp: route_snoc set_outgoing)
    moreover have "length (ms @ [m]) \<le> length ms'" if "route reg family src ms' target" for ms'
    proof (rule ccontr)
      assume "\<not> length (ms @ [m]) \<le> length ms'"
      then have "length ms' \<le> length path" using ms by simp
      with "2.prems" that show False by (auto simp: search_ok_def levels_seen_def Let_def)
    qed
    ultimately have "shortest_route reg family src (ms @ [m]) target" by (simp add: shortest_route_def)
    moreover have "ids = map migration_id (ms @ [m])" using m ms by simp
    ultimately show ?thesis using run Some by (auto simp: plan_search.simps(2))
  qed
qed

text \<open>In a registry each descriptor is stored below its own id, so the ids of a route give it back.\<close>

definition registry_ok :: "format_registry \<Rightarrow> bool" where
  "registry_ok reg \<longleftrightarrow> bt_ok (readers reg) \<and> bt_ok (migrations reg)
     \<and> (\<forall>(k, m) \<in> set (migrations reg). k = migration_id m \<and> migration_validate m = Inr ())
     \<and> (\<forall>(k, c) \<in> set (readers reg). capability_validate c = Inr ())
     \<and> (\<forall>(k, m) \<in> set (migrations reg). \<forall>(k', m') \<in> set (migrations reg).
          mig_family m = mig_family m' \<longrightarrow> from_writer m = from_writer m' \<longrightarrow> to_writer m = to_writer m' \<longrightarrow> m = m')"

lemma route_of_ids:
  assumes "registry_ok reg" and "set ms \<subseteq> edges reg family"
  shows "List.map_filter (bt_get (migrations reg)) (map migration_id ms) = ms"
  using assms(2)
proof (induction ms)
  case (Cons m ms)
  then obtain k where "(k, m) \<in> set (migrations reg)" by (auto simp: edges_def)
  moreover from this assms(1) have "k = migration_id m" and "bt_ok (migrations reg)"
    by (auto simp: registry_ok_def)
  ultimately have "bt_get (migrations reg) (migration_id m) = Some m" by (simp add: bt_mem_iff)
  with Cons show ?case by (simp add: List.map_filter_simps)
qed (simp add: List.map_filter_simps)

lemma registry_ok_new: "registry_ok registry_new"
  by (simp add: registry_ok_def registry_new_def bt_ok_def)

lemma registry_ok_reader:
  assumes "registry_ok reg" and "register_reader family c reg = (reg', r)"
  shows "registry_ok reg'"
proof (cases "reg' = reg")
  case False
  then have c: "capability_validate c = Inr ()" and reg': "reg' = reg\<lparr>readers := bt_insert family c (readers reg)\<rparr>"
    using assms(2) by (auto simp: register_reader_def Let_def split: sum.splits if_splits)
  have ok: "bt_ok (bt_insert family c (readers reg))" using assms(1) by (simp add: registry_ok_def bt_ok_insert)
  have "capability_validate c' = Inr ()" if "(k, c') \<in> set (bt_insert family c (readers reg))" for k c'
    using that c assms(1) by (auto simp: bt_mem_iff [OF ok] registry_ok_def split: if_splits dest: map_of_SomeD)
  then show ?thesis using assms(1) ok by (auto simp: registry_ok_def reg')
qed (use assms in simp)

lemma registry_ok_migration:
  assumes "registry_ok reg" and "register_migration m reg = (reg', r)"
  shows "registry_ok reg'"
proof (cases "reg' = reg")
  case False
  then have v: "migration_validate m = Inr ()" and new: "bt_get (migrations reg) (migration_id m) = None"
    and edge: "\<forall>(k, e) \<in> set (migrations reg). mig_family e = mig_family m \<longrightarrow> from_writer e = from_writer m \<longrightarrow> to_writer e \<noteq> to_writer m"
    and reg': "reg' = reg\<lparr>migrations := bt_insert (migration_id m) m (migrations reg)\<rparr>"
    using assms(2) by (auto simp: register_migration_def list_ex_iff split: sum.splits if_splits)
  have ok: "bt_ok (bt_insert (migration_id m) m (migrations reg))"
    using assms(1) by (simp add: registry_ok_def bt_ok_insert)
  have mem: "(k, e) \<in> set (bt_insert (migration_id m) m (migrations reg)) \<longleftrightarrow>
      k = migration_id m \<and> e = m \<or> (k, e) \<in> set (migrations reg)" for k e
    using new assms(1) by (auto simp: bt_mem_iff [OF ok] registry_ok_def bt_mem_iff)
  show ?thesis
    using assms(1) ok v edge unfolding registry_ok_def reg' by (fastforce simp: mem)
qed (use assms in simp)

text \<open>Registries as they are built: any sequence of registrations, failed ones included.\<close>

datatype registration = RegisterReader string reader_capability | RegisterMigration migration_descriptor

fun register :: "registration \<Rightarrow> format_registry \<Rightarrow> format_registry" where
  "register (RegisterReader family c) reg = fst (register_reader family c reg)"
| "register (RegisterMigration m) reg = fst (register_migration m reg)"

definition build_registry :: "registration list \<Rightarrow> format_registry" where
  "build_registry rs = fold register rs registry_new"

lemma registry_ok_register: "registry_ok reg \<Longrightarrow> registry_ok (register r reg)"
  by (cases r) (metis register.simps prod.collapse registry_ok_reader registry_ok_migration)+

lemma registry_ok_build: "registry_ok (build_registry rs)"
proof -
  have "registry_ok reg \<Longrightarrow> registry_ok (fold register rs reg)" for reg
    by (induction rs arbitrary: reg) (auto simp: registry_ok_register)
  then show ?thesis by (simp add: build_registry_def registry_ok_new)
qed

section \<open>Estimates\<close>

lemma ceiling_least:
  fixes a d :: nat
  assumes "0 < d"
  shows "(a + (d - 1)) div d = (LEAST k. a \<le> k * d)"
proof (rule Least_equality [symmetric])
  have "a + (d - 1) = (a + (d - 1)) div d * d + (a + (d - 1)) mod d" by simp
  moreover have "(a + (d - 1)) mod d \<le> d - 1" using assms by (simp add: Suc_leI less_Suc_eq_le [symmetric])
  ultimately show "a \<le> (a + (d - 1)) div d * d" by linarith
next
  fix k
  assume "a \<le> k * d"
  then have "a + (d - 1) < Suc k * d" using assms by (simp add: add.commute)
  then show "(a + (d - 1)) div d \<le> k"
    using assms by (metis less_Suc_eq_le less_mult_imp_div_less)
qed

lemma max_estimate_Inr:
  "max_estimate src steps acc = Inr n \<Longrightarrow>
     acc \<le> n \<and> (\<forall>s \<in> set steps. \<exists>e. estimate (required_free_space s) src = Inr e \<and> e \<le> n)
     \<and> (n = acc \<or> (\<exists>s \<in> set steps. estimate (required_free_space s) src = Inr n))"
proof (induction steps arbitrary: acc)
  case (Cons s steps)
  then obtain e where e: "estimate (required_free_space s) src = Inr e"
    and run: "max_estimate src steps (max acc e) = Inr n" by auto
  from Cons.IH [OF run] e show ?case by (auto simp: max_def split: if_splits)
qed simp

section \<open>A concrete registry\<close>

definition example_migration :: "string \<Rightarrow> u32 \<Rightarrow> u32 \<Rightarrow> migration_descriptor" where
  "example_migration name a b = \<lparr>migration_id = name, mig_family = ''storage'', from_writer = a, to_writer = b,
     mig_kind = SideBySideGeneration, rollback = SwitchToUntouchedSource,
     required_free_space = \<lparr>fixed_bytes = 10, multiplier_numerator = 3, multiplier_denominator = 2\<rparr>,
     checksum_plan = ''blake3''\<rparr>"

definition example_registrations :: "registration list" where
  "example_registrations = [RegisterMigration (example_migration ''STORAGE-0002'' 2 3),
     RegisterMigration (example_migration ''STORAGE-0001'' 1 2),
     RegisterReader ''storage'' \<lparr>read_min = 1, read_max = 3, supported_features = []\<rparr>]"

definition example_plan :: migration_plan where
  "example_plan = \<lparr>plan_family = ''storage'', plan_from = 1, plan_to = 3,
     plan_steps = [example_migration ''STORAGE-0001'' 1 2, example_migration ''STORAGE-0002'' 2 3],
     required_free_space_bytes = 12, rollback_supported = True\<rparr>"

lemma example_identifiers:
  "validate_identifier ''format family'' ''storage'' = Inr ()" "validate_identifier ''checksum plan'' ''blake3'' = Inr ()"
  "validate_migration_id ''STORAGE-0001'' = Inr ()" "validate_migration_id ''STORAGE-0002'' = Inr ()"
  by code_simp+

lemma example_estimate:
  "estimate \<lparr>fixed_bytes = 10, multiplier_numerator = 3, multiplier_denominator = 2\<rparr> 0 = Inr 10"
  "estimate \<lparr>fixed_bytes = 10, multiplier_numerator = 3, multiplier_denominator = 2\<rparr> 1 = Inr 12"
  by (simp_all add: estimate_def checked_u128_def Let_def)

lemma example_registry:
  "build_registry example_registrations =
     \<lparr>readers = [(''storage'', \<lparr>read_min = 1, read_max = 3, supported_features = []\<rparr>)],
      migrations = [(''STORAGE-0001'', example_migration ''STORAGE-0001'' 1 2),
        (''STORAGE-0002'', example_migration ''STORAGE-0002'' 2 3)]\<rparr>"
  by (simp add: build_registry_def example_registrations_def registry_new_def register_migration_def
      register_reader_def migration_validate_def example_migration_def example_identifiers example_estimate
      capability_validate_def Let_def)

lemmas example_search = plan_search.simps(2) outgoing_def Let_def insort_key.simps sort_key_simps

lemma example_planned:
  "plan_migration (build_registry example_registrations) ''storage'' 1 3 1 100 = Inr example_plan"
  by (simp add: plan_migration_def example_registry example_identifiers example_search example_plan_def
      List.map_filter_simps example_migration_def example_estimate ok_or_def)

section \<open>Properties\<close>

text \<open>C35.
  Every plan is right. On a registry built by any sequence of registrations, a plan consists of
  registered migrations of the requested family that lead step by step from the source version to
  the target version, no other chain of registered migrations is shorter, the reported space is
  enough for every step and is the need of some step or zero, it is available, and rollback is
  reported exactly when every step declares a rollback route.
\<close>

theorem plan_migration_sound:
  assumes "plan_migration (build_registry rs) family a b source_bytes available = Inr plan"
  shows "shortest_route (build_registry rs) family a (plan_steps plan) b
    \<and> required_free_space_bytes plan \<le> available
    \<and> (\<forall>s \<in> set (plan_steps plan). \<exists>e. estimate (required_free_space s) source_bytes = Inr e
          \<and> e \<le> required_free_space_bytes plan)
    \<and> (required_free_space_bytes plan = 0
        \<or> (\<exists>s \<in> set (plan_steps plan). estimate (required_free_space s) source_bytes = Inr (required_free_space_bytes plan)))
    \<and> (rollback_supported plan \<longleftrightarrow> (\<forall>s \<in> set (plan_steps plan). rollback s \<noteq> RollbackUnsupported))"
proof (cases "a = b")
  case True
  then show ?thesis using assms by (auto simp: plan_migration_def shortest_route_def route_def)
next
  case False
  let ?reg = "build_registry rs"
  obtain ids n where ids: "plan_search ?reg family b [(a, [])] [a] = Some ids"
    and n: "max_estimate source_bytes (List.map_filter (bt_get (migrations ?reg)) ids) 0 = Inr n"
    and plan: "plan_steps plan = List.map_filter (bt_get (migrations ?reg)) ids"
      "required_free_space_bytes plan = n" "n \<le> available"
      "rollback_supported plan = list_all (\<lambda>s. rollback s \<noteq> RollbackUnsupported) (plan_steps plan)"
    using assms False by (auto simp: plan_migration_def Let_def split: if_splits)
  obtain ms where ms: "shortest_route ?reg family a ms b" "ids = map migration_id ms"
    using plan_search_correct [OF search_ok_start [OF False], of ?reg family] ids by auto
  then have "plan_steps plan = ms"
    using route_of_ids [OF registry_ok_build] plan(1) by (auto simp: shortest_route_def route_def)
  then show ?thesis
    using ms plan max_estimate_Inr [OF n] by (auto simp: list_all_iff)
qed

theorem plan_migration_sound_witness:
  "shortest_route (build_registry example_registrations) ''storage'' 1
     [example_migration ''STORAGE-0001'' 1 2, example_migration ''STORAGE-0002'' 2 3] 3"
  using plan_migration_sound [OF example_planned] by (simp add: example_plan_def)

text \<open>C36.
  The planner reports that no path exists exactly when there is none: for a well-formed family name
  it returns \<open>MigrationPathUnavailable\<close> if and only if no chain of registered migrations leads
  from the source to the target version. The search itself always ends.
\<close>

theorem plan_migration_complete:
  assumes "validate_identifier ''format family'' family = Inr ()"
  shows "plan_migration (build_registry rs) family a b source_bytes available = Inl (MigrationPathUnavailable family a b)
    \<longleftrightarrow> \<not> (\<exists>ms. route (build_registry rs) family a ms b)"
proof (cases "a = b")
  case True
  then have "route (build_registry rs) family a [] b" by (simp add: route_def)
  with True assms show ?thesis by (auto simp: plan_migration_def)
next
  case False
  let ?reg = "build_registry rs"
  have other: "max_estimate source_bytes steps acc \<noteq> Inl (MigrationPathUnavailable family a b)" for steps acc
  proof (induction steps arbitrary: acc)
    case (Cons s steps)
    have "estimate r src \<noteq> Inl (MigrationPathUnavailable family a b)" for r src
      by (auto simp: estimate_def checked_u128_def Let_def rbind_Inl_iff split: if_splits)
    with Cons show ?case by (auto simp: rbind_Inl_iff)
  qed simp
  show ?thesis
  proof (cases "plan_search ?reg family b [(a, [])] [a]")
    case None
    then show ?thesis
      using assms False plan_search_correct [OF search_ok_start [OF False], of ?reg family]
      by (simp add: plan_migration_def ok_or_def)
  next
    case (Some ids)
    then show ?thesis
      using assms False other plan_search_correct [OF search_ok_start [OF False], of ?reg family]
      by (auto simp: plan_migration_def ok_or_def rbind_Inl_iff Let_def shortest_route_def split: if_splits)
  qed
qed

theorem plan_migration_complete_witness:
  "\<not> (\<exists>ms. route (build_registry example_registrations) ''storage'' 3 ms 1)"
proof -
  have "plan_migration (build_registry example_registrations) ''storage'' 3 1 1 100 =
      Inl (MigrationPathUnavailable ''storage'' 3 1)"
    by (simp add: plan_migration_def example_registry example_identifiers example_search example_migration_def ok_or_def)
  then show ?thesis using example_identifiers(1) plan_migration_complete [of "''storage''" example_registrations 3 1 1 100] by simp
qed

text \<open>
  The free-space estimate is exact: with a non-zero denominator it is the fixed allowance plus the
  least number of bytes that covers the scaled source size, and it fails only when that number does
  not fit in 64 bits; the 128-bit intermediate arithmetic never overflows.
\<close>

theorem estimate_exact:
  "estimate r source_bytes =
     (if multiplier_denominator r = 0 then Inl InvalidFreeSpaceRequirement
      else let need = unat (fixed_bytes r) + (LEAST k. unat source_bytes * unat (multiplier_numerator r)
                        \<le> k * unat (multiplier_denominator r))
           in if need < 2 ^ 64 then Inr (of_nat need) else Inl FreeSpaceEstimateOverflow)"
proof (cases "multiplier_denominator r = 0")
  case False
  let ?s = "unat source_bytes" and ?n = "unat (multiplier_numerator r)" and ?d = "unat (multiplier_denominator r)"
  have d: "0 < ?d" using False by (simp add: unat_gt_0)
  have bounds: "?s < 2 ^ 64" "?n < 2 ^ 32" "?d < 2 ^ 32" "unat (fixed_bytes r) < 2 ^ 64"
    using unsigned_less [of source_bytes, where 'a = nat] unsigned_less [of "multiplier_numerator r", where 'a = nat]
      unsigned_less [of "multiplier_denominator r", where 'a = nat] unsigned_less [of "fixed_bytes r", where 'a = nat]
    by simp_all
  have prod: "?s * ?n < 2 ^ 96"
  proof -
    have "?s * ?n < 2 ^ 64 * 2 ^ 32" using bounds by (intro mult_strict_mono) simp_all
    then show ?thesis by simp
  qed
  let ?c = "(?s * ?n + (?d - 1)) div ?d"
  have "?c < 2 ^ 97" by (rule le_less_trans [OF div_le_dividend]) (use prod bounds in simp)
  then have "?c + unat (fixed_bytes r) < 2 ^ 97 + 2 ^ 64" using bounds by (intro add_strict_mono)
  then have small: "?s * ?n < 2 ^ 128" "?s * ?n + (?d - 1) < 2 ^ 128" "?c + unat (fixed_bytes r) < 2 ^ 128"
    using prod bounds by simp_all
  have c: "?c = (LEAST k. ?s * ?n \<le> k * ?d)" using ceiling_least [OF d] .
  show ?thesis
    unfolding c [symmetric] using False small
    by (simp add: estimate_def checked_u128_def Let_def add.commute)
qed (simp add: estimate_def)

text \<open>
  Readers fail closed: stored state opens only with a registered reader whose version range contains
  the writer version and which supports every required feature, all identifiers being well formed.
\<close>

theorem ensure_readable_iff:
  "ensure_readable reg stored = Inr () \<longleftrightarrow>
     manifest_validate stored = Inr ()
     \<and> (\<exists>c. bt_get (readers reg) (sfm_family stored) = Some c \<and> capability_validate c = Inr ()
          \<and> read_min c \<le> sfm_writer stored \<and> sfm_writer stored \<le> read_max c
          \<and> set (sfm_required stored) \<subseteq> set (supported_features c))"
proof -
  have "(case List.find (\<lambda>f. f \<notin> A) fs of Some f \<Rightarrow> Inl (E f) | None \<Rightarrow> Inr ()) = Inr () \<longleftrightarrow> set fs \<subseteq> A"
    for A and fs :: "string list" and E :: "string \<Rightarrow> format_error"
    by (induction fs) auto
  then show ?thesis
    by (cases "bt_get (readers reg) (sfm_family stored)")
      (auto simp: ensure_readable_def ensure_can_read_def ok_or_def split: if_splits)
qed

text \<open>C40.
  A second registration for a family reports \<open>DuplicateReader\<close>, and yet replaces the registered
  capability: the error does not mean that nothing changed.
\<close>

theorem register_reader_duplicate_replaces:
  assumes "validate_identifier ''format family'' family = Inr ()" and "capability_validate c = Inr ()"
    and "bt_get (readers reg) family = Some old" and "register_reader family c reg = (reg', r)"
  shows "r = Inl (DuplicateReader family) \<and> bt_get (readers reg') family = Some c"
  using assms by (auto simp: register_reader_def Let_def)

theorem register_reader_duplicate_replaces_witness:
  "bt_get (readers (fst (register_reader ''storage'' \<lparr>read_min = 9, read_max = 9, supported_features = []\<rparr>
       (build_registry example_registrations)))) ''storage''
     = Some \<lparr>read_min = 9, read_max = 9, supported_features = []\<rparr>"
proof -
  have "capability_validate \<lparr>read_min = 9, read_max = 9, supported_features = []\<rparr> = Inr ()"
    by (simp add: capability_validate_def)
  moreover have "bt_get (readers (build_registry example_registrations)) ''storage'' =
      Some \<lparr>read_min = 1, read_max = 3, supported_features = []\<rparr>"
    by (simp add: example_registry)
  ultimately show ?thesis
    using register_reader_duplicate_replaces [OF example_identifiers(1) _ _ surjective_pairing] by blast
qed

end
