(* ===== verification/Storage_Contract.thy ===== *)
theory Storage_Contract
  imports ContextDB_Prelude
begin

text \<open>
  The physical storage boundary, \<open>crates/contextdb-storage/src/lib.rs\<close>: keyspace names,
  bounded scan pages, the loop that drains them, and the three traits \<open>ReadSnapshot\<close>,
  \<open>WriteTransaction\<close> and \<open>StorageEngine\<close>. A trait is a record of its methods (the
  dictionary a generic function receives); what the trait's documentation promises is the
  locale of the same name, whose lemmas hold for every backend that satisfies it. Methods that
  change the engine take it and return it.
\<close>

section \<open>Data\<close>

datatype storage_error =
    InvalidKeyspace string
  | SnapshotUnavailable u64 u64
  | WriteConflict u64 u64
  | LockPoisoned
  | InvalidScanPage string nat nat
  | ResourceExhausted string nat nat
  | ScanContractViolation string
  | Backend string string
  | Unsupported string string

datatype keyspace = Keyspace (as_str: string)

definition keyspace_new :: "string \<Rightarrow> storage_error + keyspace" where
  "keyspace_new value =
     (if value \<noteq> [] \<and> length value \<le> 128
         \<and> list_all (\<lambda>b. is_ascii_alphanumeric b \<or> b = CHR ''-'' \<or> b = CHR ''_'') value
      then Inr (Keyspace value) else Inl (InvalidKeyspace value))"

datatype snapshot_selector = Latest | At u64

datatype durability = Ephemeral | Sync

datatype entry = Entry (entry_key: bytes) (entry_value: bytes)

definition MAX_SCAN_PAGE_ENTRIES :: nat where
  "MAX_SCAN_PAGE_ENTRIES = 65536"

definition MAX_SCAN_PAGE_BYTES :: nat where
  "MAX_SCAN_PAGE_BYTES = 64 * 1024 * 1024"

record scan_page_request =
  req_prefix :: bytes
  start_after :: "bytes option"
  max_entries :: nat
  max_bytes :: nat

record scan_page =
  page_entries :: "entry list"
  continuation :: "bytes option"

record commit_receipt =
  receipt_sequence :: u64
  receipt_durability :: durability

datatype verify_mode = Quick | Deep

record verify_report =
  report_sequence :: u64
  report_keyspaces :: u64
  report_records :: u64
  report_warnings :: "string list"

record compact_report =
  compact_sequence :: u64
  bytes_reclaimed :: u64

record checkpoint_manifest =
  format_version :: u32
  checkpoint_sequence :: u64
  checkpoint_backend :: string

section \<open>Bounded scan pages\<close>

definition scan_request_validate :: "scan_page_request \<Rightarrow> storage_error + unit" where
  "scan_request_validate r =
     (if max_entries r = 0 \<or> max_entries r > MAX_SCAN_PAGE_ENTRIES
      then Inl (InvalidScanPage ''max_entries'' (max_entries r) MAX_SCAN_PAGE_ENTRIES)
      else if max_bytes r = 0 \<or> max_bytes r > MAX_SCAN_PAGE_BYTES
      then Inl (InvalidScanPage ''max_bytes'' (max_bytes r) MAX_SCAN_PAGE_BYTES)
      else Inr ())"

text \<open>The body of the loop in \<open>collect_scan_page\<close>: page, bytes used and previous key so far.\<close>

fun collect_scan_loop ::
  "scan_page_request \<Rightarrow> (storage_error + entry) list \<Rightarrow> entry list \<Rightarrow> nat \<Rightarrow> bytes option \<Rightarrow>
   storage_error + scan_page" where
  "collect_scan_loop r [] page used previous =
     Inr \<lparr>page_entries = page, continuation = None\<rparr>"
| "collect_scan_loop r (Inl e # items) page used previous = Inl e"
| "collect_scan_loop r (Inr entry # items) page used previous =
     (if (case previous of None \<Rightarrow> False | Some p \<Rightarrow> entry_key entry \<le> p)
      then Inl (ScanContractViolation ''backend scan is not in strict lexicographic key order'')
      else if \<not> starts_with (entry_key entry) (req_prefix r)
      then (if entry_key entry < req_prefix r
            then collect_scan_loop r items page used (Some (entry_key entry))
            else Inr \<lparr>page_entries = page, continuation = None\<rparr>)
      else if (case start_after r of None \<Rightarrow> False | Some s \<Rightarrow> entry_key entry \<le> s)
      then collect_scan_loop r items page used (Some (entry_key entry))
      else case checked_add_usize (length (entry_key entry)) (length (entry_value entry)) of
             None \<Rightarrow> Inl (ResourceExhausted ''scan_page_bytes'' (max_bytes r) usize_max)
           | Some entry_bytes \<Rightarrow>
               if page = [] \<and> entry_bytes > max_bytes r
               then Inl (ResourceExhausted ''scan_page_bytes'' (max_bytes r) entry_bytes)
               else if length page = max_entries r
                 \<or> (case checked_add_usize used entry_bytes of None \<Rightarrow> True | Some n \<Rightarrow> n > max_bytes r)
               then Inr \<lparr>page_entries = page,
                         continuation = (if page = [] then None else Some (entry_key (last page)))\<rparr>
               else collect_scan_loop r items (page @ [entry]) (used + entry_bytes)
                      (Some (entry_key entry)))"

definition collect_scan_page ::
  "scan_page_request \<Rightarrow> (storage_error + entry) list \<Rightarrow> storage_error + scan_page" where
  "collect_scan_page r items =
     rbind (scan_request_validate r) (\<lambda>_. collect_scan_loop r items [] 0 None)"

section \<open>Draining all pages\<close>

definition LEGACY_SCAN_PAGE_ENTRIES :: nat where
  "LEGACY_SCAN_PAGE_ENTRIES = 4096"

definition LEGACY_SCAN_PAGE_BYTES :: nat where
  "LEGACY_SCAN_PAGE_BYTES = 16 * 1024 * 1024"

definition LEGACY_SCAN_MAX_ENTRIES :: nat where
  "LEGACY_SCAN_MAX_ENTRIES = 10000000"

definition LEGACY_SCAN_MAX_BYTES :: nat where
  "LEGACY_SCAN_MAX_BYTES = 512 * 1024 * 1024"

definition count_entry_bytes :: "entry \<Rightarrow> nat \<Rightarrow> storage_error + nat" where
  "count_entry_bytes entry total_bytes =
     rbind (ok_or (ResourceExhausted ''legacy_scan_bytes'' LEGACY_SCAN_MAX_BYTES usize_max)
              (checked_add_usize (length (entry_key entry)) (length (entry_value entry))))
       (\<lambda>entry_bytes.
          ok_or (ResourceExhausted ''legacy_scan_bytes'' LEGACY_SCAN_MAX_BYTES usize_max)
            (checked_add_usize total_bytes entry_bytes))"

function collect_pages ::
  "(scan_page_request \<Rightarrow> storage_error + scan_page) \<Rightarrow> bytes \<Rightarrow> entry list \<Rightarrow> bytes option \<Rightarrow> nat \<Rightarrow>
   storage_error + entry list" where
  "collect_pages page_fn prefix entries cursor total_bytes =
     (case page_fn \<lparr>req_prefix = prefix, start_after = cursor,
                    max_entries = LEGACY_SCAN_PAGE_ENTRIES, max_bytes = LEGACY_SCAN_PAGE_BYTES\<rparr> of
        Inl e \<Rightarrow> Inl e
      | Inr page \<Rightarrow>
          if continuation page \<noteq> None \<and> page_entries page = []
          then Inl (ScanContractViolation ''continuation page made no progress'')
          else if (case (cursor, continuation page) of
                     (Some previous, Some next) \<Rightarrow> next \<le> previous | _ \<Rightarrow> False)
          then Inl (ScanContractViolation ''continuation key did not advance'')
          else case rfold count_entry_bytes (page_entries page) total_bytes of
                 Inl e \<Rightarrow> Inl e
               | Inr total_bytes' \<Rightarrow>
                   let required = saturating_add_usize (length entries) (length (page_entries page)) in
                   if required > LEGACY_SCAN_MAX_ENTRIES
                   then Inl (ResourceExhausted ''legacy_scan_entries'' LEGACY_SCAN_MAX_ENTRIES required)
                   else if total_bytes' > LEGACY_SCAN_MAX_BYTES
                   then Inl (ResourceExhausted ''legacy_scan_bytes'' LEGACY_SCAN_MAX_BYTES total_bytes')
                   else case continuation page of
                          None \<Rightarrow> Inr (entries @ page_entries page)
                        | Some next \<Rightarrow>
                            collect_pages page_fn prefix (entries @ page_entries page) (Some next) total_bytes')"
  by pat_completeness auto
termination
proof (relation "measure (\<lambda>(f, p, entries, c, t). Suc LEGACY_SCAN_MAX_ENTRIES - length entries)", goal_cases)
  case (2 page_fn prefix entries cursor total_bytes page total_bytes' required nxt)
  then have "page_entries page \<noteq> []" by auto
  moreover have "length entries + length (page_entries page) \<le> LEGACY_SCAN_MAX_ENTRIES"
    using 2 by (auto simp: saturating_add_usize_def usize_max_def LEGACY_SCAN_MAX_ENTRIES_def)
  ultimately show ?case by (cases "page_entries page") auto
qed simp

declare collect_pages.simps [simp del]

declare collect_pages.simps [simp del]

definition collect_prefix_pages ::
  "(scan_page_request \<Rightarrow> storage_error + scan_page) \<Rightarrow> bytes \<Rightarrow> storage_error + entry list" where
  "collect_prefix_pages page_fn prefix = collect_pages page_fn prefix [] None 0"

section \<open>The traits\<close>

record 's read_snapshot_ops =
  snap_sequence :: "'s \<Rightarrow> u64"
  snap_get :: "'s \<Rightarrow> keyspace \<Rightarrow> bytes \<Rightarrow> storage_error + bytes option"
  snap_scan_prefix :: "'s \<Rightarrow> keyspace \<Rightarrow> bytes \<Rightarrow> storage_error + entry list"
  snap_scan_prefix_page :: "'s \<Rightarrow> keyspace \<Rightarrow> scan_page_request \<Rightarrow> storage_error + scan_page"

text \<open>The default method body of \<open>ReadSnapshot::scan_prefix_page\<close>.\<close>

definition default_scan_prefix_page ::
  "('s \<Rightarrow> keyspace \<Rightarrow> bytes \<Rightarrow> storage_error + entry list) \<Rightarrow> 's \<Rightarrow> keyspace \<Rightarrow> scan_page_request \<Rightarrow>
   storage_error + scan_page" where
  "default_scan_prefix_page scan s ks r =
     rbind (scan s ks (req_prefix r)) (\<lambda>entries. collect_scan_page r (map Inr entries))"

record ('t, 'e) write_transaction_ops = "'t read_snapshot_ops" +
  tx_put :: "keyspace \<Rightarrow> bytes \<Rightarrow> bytes \<Rightarrow> 't \<Rightarrow> storage_error + 't"
  tx_delete :: "keyspace \<Rightarrow> bytes \<Rightarrow> 't \<Rightarrow> storage_error + 't"
  tx_commit :: "durability \<Rightarrow> 't \<Rightarrow> 'e \<Rightarrow> 'e \<times> (storage_error + commit_receipt)"
  tx_rollback :: "'t \<Rightarrow> storage_error + unit"

record ('e, 's, 't) storage_engine_ops =
  eng_snapshot :: "'s read_snapshot_ops"
  eng_transaction :: "('t, 'e) write_transaction_ops"
  eng_head_sequence :: "'e \<Rightarrow> storage_error + u64"
  eng_begin_read :: "snapshot_selector \<Rightarrow> 'e \<Rightarrow> storage_error + 's"
  eng_begin_write :: "'e \<Rightarrow> storage_error + 't"
  eng_checkpoint :: "string \<Rightarrow> 'e \<Rightarrow> storage_error + checkpoint_manifest"
  eng_compact :: "u64 option \<Rightarrow> 'e \<Rightarrow> storage_error + compact_report"
  eng_verify :: "verify_mode \<Rightarrow> 'e \<Rightarrow> storage_error + verify_report"

section \<open>What a page is\<close>

text \<open>
  The reference description of a page: of the entries that match the request, in key order, the
  longest initial part that respects both limits; the continuation is the last key returned when
  more entries match. An entry that alone exceeds the byte limit is an error, never skipped.
\<close>

definition entry_bytes :: "entry \<Rightarrow> nat" where
  "entry_bytes e = length (entry_key e) + length (entry_value e)"

definition entries_bytes :: "entry list \<Rightarrow> nat" where
  "entries_bytes es = sum_list (map entry_bytes es)"

definition page_matches :: "scan_page_request \<Rightarrow> entry \<Rightarrow> bool" where
  "page_matches r e \<longleftrightarrow> starts_with (entry_key e) (req_prefix r)
     \<and> (case start_after r of None \<Rightarrow> True | Some s \<Rightarrow> s < entry_key e)"

fun fill_page :: "nat \<Rightarrow> nat \<Rightarrow> entry list \<Rightarrow> entry list" where
  "fill_page n b [] = []"
| "fill_page n b (e # es) =
     (if n = 0 \<or> b < entry_bytes e then [] else e # fill_page (n - 1) (b - entry_bytes e) es)"

definition page_of :: "scan_page_request \<Rightarrow> entry list \<Rightarrow> storage_error + scan_page" where
  "page_of r es =
     (if es \<noteq> [] \<and> max_bytes r < entry_bytes (hd es)
      then Inl (ResourceExhausted ''scan_page_bytes'' (max_bytes r) (entry_bytes (hd es)))
      else let page = fill_page (max_entries r) (max_bytes r) es in
           Inr \<lparr>page_entries = page,
                continuation = (if length page < length es then Some (entry_key (last page)) else None)\<rparr>)"

definition scan_fits :: "entry list \<Rightarrow> bool" where
  "scan_fits es \<longleftrightarrow> length es \<le> LEGACY_SCAN_MAX_ENTRIES \<and> entries_bytes es \<le> LEGACY_SCAN_MAX_BYTES
     \<and> (\<forall>e \<in> set es. entry_bytes e \<le> LEGACY_SCAN_PAGE_BYTES)"

text \<open>A listing of the part of a table below a prefix.\<close>

definition listing :: "(bytes \<Rightarrow> bytes option) \<Rightarrow> bytes \<Rightarrow> entry list \<Rightarrow> bool" where
  "listing table prefix es \<longleftrightarrow> strictly_sorted (map entry_key es)
     \<and> (\<forall>k v. Entry k v \<in> set es \<longleftrightarrow> table k = Some v \<and> starts_with k prefix)"

lemma listing_unique:
  assumes "listing table prefix es" and "listing table prefix fs"
  shows "es = fs"
proof -
  have "set es = set fs"
    using assms by (auto simp: listing_def) (metis entry.exhaust)+
  moreover have "strictly_sorted (map entry_key es)" "strictly_sorted (map entry_key fs)"
    using assms by (simp_all add: listing_def)
  moreover from this have "inj_on entry_key (set es)" by (simp add: strict_sorted_iff distinct_map)
  ultimately show ?thesis
    by (intro map_sorted_distinct_set_unique [of entry_key]) (simp_all add: strict_sorted_iff)
qed

lemma listing_entry:
  assumes "listing table prefix es"
  shows "e \<in> set es \<longleftrightarrow> table (entry_key e) = Some (entry_value e) \<and> starts_with (entry_key e) prefix"
proof -
  obtain k v where "e = Entry k v" by (cases e)
  then show ?thesis using assms by (simp add: listing_def)
qed

lemma entries_bytes_simps [simp]:
  "entries_bytes [] = 0"
  "entries_bytes (e # es) = entry_bytes e + entries_bytes es"
  "entries_bytes (es @ fs) = entries_bytes es + entries_bytes fs"
  by (simp_all add: entries_bytes_def)

lemma fill_page_prefix: "\<exists>rest. es = fill_page n b es @ rest"
  by (induction n b es rule: fill_page.induct) auto

lemma fill_page_take: "fill_page n b es = take (length (fill_page n b es)) es"
  by (metis append_eq_conv_conj fill_page_prefix)

lemma fill_page_length: "length (fill_page n b es) \<le> n"
  by (induction n b es rule: fill_page.induct) auto

lemma fill_page_bytes: "entries_bytes (fill_page n b es) \<le> b"
  by (induction n b es rule: fill_page.induct) auto

lemma fill_page_length_le: "length (fill_page n b es) \<le> length es"
  by (metis fill_page_take length_take min.bounded_iff order_refl)

lemma fill_page_not_Nil: "0 < n \<Longrightarrow> entry_bytes e \<le> b \<Longrightarrow> fill_page n b (e # es) \<noteq> []"
  by simp

lemma fill_page_maximal:
  assumes "length (fill_page n b es) < length es"
  shows "length (fill_page n b es) = n
    \<or> b < entries_bytes (fill_page n b es) + entry_bytes (es ! length (fill_page n b es))"
  using assms
proof (induction n b es rule: fill_page.induct)
  case (2 n b e es)
  show ?case
  proof (cases "n = 0 \<or> b < entry_bytes e")
    case False
    with 2 show ?thesis by auto
  qed auto
qed simp

lemma fill_page_Nil_iff: "fill_page n b es = [] \<longleftrightarrow> es = [] \<or> n = 0 \<or> b < entry_bytes (hd es)"
  by (cases es) auto

text \<open>
  The loop, started in the middle of a page, completes it as the reference describes, unless it
  meets a matching entry whose size is no machine integer.
\<close>

definition page_rest :: "scan_page_request \<Rightarrow> entry list \<Rightarrow> nat \<Rightarrow> entry list \<Rightarrow> storage_error + scan_page" where
  "page_rest r page used m =
     (let more = fill_page (max_entries r - length page) (max_bytes r - used) m in
      if page = [] \<and> m \<noteq> [] \<and> max_bytes r < entry_bytes (hd m)
      then Inl (ResourceExhausted ''scan_page_bytes'' (max_bytes r) (entry_bytes (hd m)))
      else Inr \<lparr>page_entries = page @ more,
                continuation = (if length more < length m then Some (entry_key (last (page @ more)))
                                else None)\<rparr>)"

definition oversized :: "scan_page_request \<Rightarrow> entry list \<Rightarrow> storage_error + scan_page \<Rightarrow> bool" where
  "oversized r es result \<longleftrightarrow> (\<exists>e \<in> set es. page_matches r e \<and> usize_max < entry_bytes e)
     \<and> result = Inl (ResourceExhausted ''scan_page_bytes'' (max_bytes r) usize_max)"

lemma page_rest_append:
  assumes "length page < max_entries r" and "used + entry_bytes e \<le> max_bytes r"
  shows "page_rest r (page @ [e]) (used + entry_bytes e) m = page_rest r page used (e # m)"
proof -
  have "\<not> max_bytes r - used < entry_bytes e" and "\<not> max_bytes r < entry_bytes e"
    using assms(2) by linarith+
  then show ?thesis using assms(1) by (simp add: page_rest_def Let_def diff_diff_add)
qed

lemma page_rest_full:
  assumes "length page = max_entries r \<or> max_bytes r < used + entry_bytes e"
    and "page \<noteq> []" and "used \<le> max_bytes r"
  shows "page_rest r page used (e # m) =
    Inr \<lparr>page_entries = page, continuation = Some (entry_key (last page))\<rparr>"
proof (cases "length page = max_entries r")
  case False
  then have "max_bytes r - used < entry_bytes e" using assms by linarith
  then show ?thesis using assms(2) by (simp add: page_rest_def Let_def)
qed (use assms(2) in \<open>simp add: page_rest_def Let_def\<close>)

lemma page_rest_start: "page_rest r [] 0 m = page_of r m"
  by (simp add: page_rest_def page_of_def Let_def)

lemma collect_scan_loop_spec:
  assumes "strictly_sorted (map entry_key es)"
    and "\<forall>p. previous = Some p \<longrightarrow> (\<forall>e \<in> set es. p < entry_key e)"
    and "used \<le> max_bytes r" and "max_bytes r \<le> usize_max"
    and "length page \<le> max_entries r" and "0 < max_entries r"
    and "page = [] \<longrightarrow> used = 0"
  shows "oversized r es (collect_scan_loop r (map Inr es) page used previous)
    \<or> collect_scan_loop r (map Inr es) page used previous
        = page_rest r page used (filter (page_matches r) es)"
  using assms
proof (induction es arbitrary: page used previous)
  case (Cons e es)
  note prems = Cons.prems
  let ?k = "entry_key e"
  have sorted: "strictly_sorted (map entry_key es)" and above: "\<forall>x \<in> set es. ?k < entry_key x"
    using prems(1) by auto
  have order: "\<not> (case previous of None \<Rightarrow> False | Some p \<Rightarrow> ?k \<le> p)"
    using prems(2) by (auto split: option.splits simp: not_le)
  have IH: "oversized r (e # es) (collect_scan_loop r (map Inr es) page' used' (Some ?k))
      \<or> collect_scan_loop r (map Inr es) page' used' (Some ?k)
          = page_rest r page' used' (filter (page_matches r) es)"
    if "used' \<le> max_bytes r" "length page' \<le> max_entries r" "page' = [] \<longrightarrow> used' = 0"
    for page' used'
    using Cons.IH [of "Some ?k" used' page'] that prems above sorted by (auto simp: oversized_def)
  consider (outside) "\<not> starts_with ?k (req_prefix r)"
    | (before) "starts_with ?k (req_prefix r)" "\<not> page_matches r e"
    | (inside) "page_matches r e"
    by blast
  then show ?case
  proof cases
    case outside
    then have m: "\<not> page_matches r e" by (simp add: page_matches_def)
    show ?thesis
    proof (cases "?k < req_prefix r")
      case True
      then show ?thesis using outside m order IH [of used page] prems by simp
    next
      case False
      have "req_prefix r \<noteq> ?k"
        using outside starts_with_append [of "req_prefix r" "[]"] by auto
      with False have lt: "req_prefix r < ?k" by simp
      have "\<not> page_matches r x" if "x \<in> set es" for x
        using starts_with_above [OF lt outside, of "entry_key x"] that above
        by (auto simp: page_matches_def)
      then have "filter (page_matches r) (e # es) = []" using m by (simp add: filter_empty_conv)
      then show ?thesis using outside order False by (simp add: page_rest_def)
    qed
  next
    case before
    then have "case start_after r of None \<Rightarrow> False | Some s \<Rightarrow> ?k \<le> s"
      by (auto simp: page_matches_def split: option.splits)
    then show ?thesis using before order IH [of used page] prems by simp
  next
    case inside
    then have st: "starts_with ?k (req_prefix r)"
      and after: "\<not> (case start_after r of None \<Rightarrow> False | Some s \<Rightarrow> ?k \<le> s)"
      by (auto simp: page_matches_def split: option.splits)
    show ?thesis
    proof (cases "entry_bytes e \<le> usize_max")
      case False
      then have "checked_add_usize (length ?k) (length (entry_value e)) = None"
        by (simp add: entry_bytes_def checked_add_usize_def)
      then show ?thesis using inside st after order False by (auto simp: oversized_def)
    next
      case True
      then have bytes: "checked_add_usize (length ?k) (length (entry_value e)) = Some (entry_bytes e)"
        by (simp add: entry_bytes_def checked_add_usize_def)
      consider (big) "page = []" "max_bytes r < entry_bytes e"
        | (full) "page \<noteq> []" "length page = max_entries r \<or> max_bytes r < used + entry_bytes e"
        | (room) "length page < max_entries r" "used + entry_bytes e \<le> max_bytes r"
        using prems by fastforce
      then show ?thesis
      proof cases
        case big
        then show ?thesis using inside st after order bytes by (simp add: page_rest_def)
      next
        case full
        then show ?thesis using inside st after order bytes prems page_rest_full [of page r used e]
          by (auto simp: checked_add_usize_def)
      next
        case room
        then have "checked_add_usize used (entry_bytes e) = Some (used + entry_bytes e)"
          using prems(4) by (simp add: checked_add_usize_def)
        then show ?thesis
          using IH [of "used + entry_bytes e" "page @ [e]"] inside st after order bytes room
            page_rest_append [OF room]
          by (auto simp: not_less)
      qed
    qed
  qed
qed (simp add: page_rest_def)

lemma collect_scan_page_spec:
  assumes "strictly_sorted (map entry_key es)" and "scan_request_validate r = Inr ()"
  shows "oversized r es (collect_scan_page r (map Inr es))
    \<or> collect_scan_page r (map Inr es) = page_of r (filter (page_matches r) es)"
proof -
  have limits: "0 < max_entries r" "max_bytes r \<le> usize_max"
    using assms(2)
    by (auto simp: scan_request_validate_def MAX_SCAN_PAGE_BYTES_def usize_max_def split: if_splits)
  show ?thesis
    using collect_scan_loop_spec [of es None 0 r "[]"] assms limits
    by (simp add: collect_scan_page_def page_rest_start)
qed

lemma collect_scan_page_sound:
  assumes "strictly_sorted (map entry_key es)" and "collect_scan_page r (map Inr es) = Inr page"
  shows "page_of r (filter (page_matches r) es) = Inr page"
  using collect_scan_page_spec [OF assms(1), of r] assms(2)
  by (auto simp: oversized_def collect_scan_page_def)

lemma collect_scan_page_complete:
  assumes "strictly_sorted (map entry_key es)" and "scan_request_validate r = Inr ()"
    and "\<forall>e \<in> set es. page_matches r e \<longrightarrow> entry_bytes e \<le> usize_max"
  shows "collect_scan_page r (map Inr es) = page_of r (filter (page_matches r) es)"
  using collect_scan_page_spec [OF assms(1,2)] assms(3) by (auto simp: oversized_def)

section \<open>Draining the pages of a lawful reader\<close>

text \<open>
  The interface between a paged reader and the loop that drains it: every valid request is
  answered with the page that the reference describes over one fixed, strictly sorted table.
\<close>

locale page_reader =
  fixes page_fn :: "'s \<Rightarrow> keyspace \<Rightarrow> scan_page_request \<Rightarrow> storage_error + scan_page"
    and table :: "'s \<Rightarrow> keyspace \<Rightarrow> entry list"
    and valid :: "'s \<Rightarrow> bool"
  assumes table_sorted: "valid s \<Longrightarrow> strictly_sorted (map entry_key (table s ks))"
    and page_sound: "valid s \<Longrightarrow> scan_request_validate r = Inr () \<Longrightarrow> page_fn s ks r = Inr page \<Longrightarrow>
      page_of r (filter (page_matches r) (table s ks)) = Inr page"
    and page_complete: "valid s \<Longrightarrow> scan_request_validate r = Inr () \<Longrightarrow>
      \<forall>e \<in> set (table s ks). page_matches r e \<longrightarrow> entry_bytes e \<le> usize_max \<Longrightarrow>
      page_fn s ks r = page_of r (filter (page_matches r) (table s ks))"

definition legacy_request :: "bytes \<Rightarrow> bytes option \<Rightarrow> scan_page_request" where
  "legacy_request prefix cursor = \<lparr>req_prefix = prefix, start_after = cursor,
     max_entries = LEGACY_SCAN_PAGE_ENTRIES, max_bytes = LEGACY_SCAN_PAGE_BYTES\<rparr>"

lemma legacy_request_valid: "scan_request_validate (legacy_request prefix cursor) = Inr ()"
  by (simp add: scan_request_validate_def legacy_request_def LEGACY_SCAN_PAGE_ENTRIES_def
      LEGACY_SCAN_PAGE_BYTES_def MAX_SCAN_PAGE_ENTRIES_def MAX_SCAN_PAGE_BYTES_def)

lemma legacy_request_fields [simp]:
  "req_prefix (legacy_request prefix cursor) = prefix"
  "start_after (legacy_request prefix cursor) = cursor"
  "max_entries (legacy_request prefix cursor) = LEGACY_SCAN_PAGE_ENTRIES"
  "max_bytes (legacy_request prefix cursor) = LEGACY_SCAN_PAGE_BYTES"
  by (simp_all add: legacy_request_def)

lemma count_entry_bytes_sound: "count_entry_bytes e t = Inr u \<Longrightarrow> u = t + entry_bytes e"
  by (auto simp: count_entry_bytes_def entry_bytes_def checked_add_usize_Some_iff)

lemma count_entry_bytes_complete:
  "t + entry_bytes e \<le> LEGACY_SCAN_MAX_BYTES \<Longrightarrow> count_entry_bytes e t = Inr (t + entry_bytes e)"
  by (auto simp: count_entry_bytes_def entry_bytes_def checked_add_usize_def usize_max_def
      LEGACY_SCAN_MAX_BYTES_def)

lemma rfold_count_sound: "rfold count_entry_bytes es t = Inr u \<Longrightarrow> u = t + entries_bytes es"
proof (induction es arbitrary: t)
  case (Cons e es)
  then obtain v where "count_entry_bytes e t = Inr v" and "rfold count_entry_bytes es v = Inr u"
    by auto
  then show ?case using Cons.IH count_entry_bytes_sound by fastforce
qed simp

lemma rfold_count_complete:
  "t + entries_bytes es \<le> LEGACY_SCAN_MAX_BYTES \<Longrightarrow>
   rfold count_entry_bytes es t = Inr (t + entries_bytes es)"
  by (induction es arbitrary: t) (simp_all add: count_entry_bytes_complete)

text \<open>One successful iteration of the loop.\<close>

lemma collect_pages_InrE:
  assumes "collect_pages f prefix entries cursor t = Inr es"
  obtains (more) page t' where
    "f \<lparr>req_prefix = prefix, start_after = cursor, max_entries = LEGACY_SCAN_PAGE_ENTRIES,
        max_bytes = LEGACY_SCAN_PAGE_BYTES\<rparr> = Inr page"
    "\<not> (continuation page \<noteq> None \<and> page_entries page = [])"
    "\<not> (case cursor of None \<Rightarrow> False | Some previous \<Rightarrow>
          (case continuation page of None \<Rightarrow> False | Some nxt \<Rightarrow> nxt \<le> previous))"
    "rfold count_entry_bytes (page_entries page) t = Inr t'"
    "\<not> saturating_add_usize (length entries) (length (page_entries page)) > LEGACY_SCAN_MAX_ENTRIES"
    "\<not> t' > LEGACY_SCAN_MAX_BYTES"
    "case continuation page of None \<Rightarrow> es = entries @ page_entries page
     | Some k \<Rightarrow> collect_pages f prefix (entries @ page_entries page) (Some k) t' = Inr es"
proof -
  note run = assms [unfolded collect_pages.simps [of f prefix entries cursor t]]
  obtain page where page: "f \<lparr>req_prefix = prefix, start_after = cursor,
      max_entries = LEGACY_SCAN_PAGE_ENTRIES, max_bytes = LEGACY_SCAN_PAGE_BYTES\<rparr> = Inr page"
    using run by (cases "f \<lparr>req_prefix = prefix, start_after = cursor,
      max_entries = LEGACY_SCAN_PAGE_ENTRIES, max_bytes = LEGACY_SCAN_PAGE_BYTES\<rparr>") simp_all
  note run = run [unfolded page sum.case prod.case Let_def]
  have progress: "\<not> (continuation page \<noteq> None \<and> page_entries page = [])"
    using run by (rule contrapos_pn) simp
  note run = run [unfolded if_not_P [OF progress]]
  have adv: "\<not> (case cursor of None \<Rightarrow> False | Some previous \<Rightarrow>
          (case continuation page of None \<Rightarrow> False | Some nxt \<Rightarrow> nxt \<le> previous))"
    using run by (rule contrapos_pn) simp
  note run = run [unfolded if_not_P [OF adv]]
  obtain t' where t': "rfold count_entry_bytes (page_entries page) t = Inr t'"
    using run by (cases "rfold count_entry_bytes (page_entries page) t") simp_all
  note run = run [unfolded t' sum.case]
  have small: "\<not> saturating_add_usize (length entries) (length (page_entries page)) > LEGACY_SCAN_MAX_ENTRIES"
    "\<not> t' > LEGACY_SCAN_MAX_BYTES"
    using run by (auto split: if_splits)
  note run = run [unfolded if_not_P [OF small(1)] if_not_P [OF small(2)]]
  show ?thesis
    by (rule that [OF page progress adv t' small]) (use run in \<open>cases "continuation page"; simp\<close>)
qed

text \<open>Above the last key of an initial part of a strictly sorted list lies the rest of it.\<close>

lemma filter_above_last:
  assumes "strictly_sorted (map entry_key (xs @ ys))" and "xs \<noteq> []"
  shows "filter (\<lambda>e. entry_key (last xs) < entry_key e) (xs @ ys) = ys"
proof -
  have "\<not> entry_key (last xs) < entry_key x" if "x \<in> set xs" for x
  proof -
    from assms(2) obtain zs z where xs: "xs = zs @ [z]" by (metis rev_exhaust)
    with assms(1) that show ?thesis by (auto simp: sorted_wrt_append)
  qed
  moreover have "entry_key (last xs) < entry_key y" if "y \<in> set ys" for y
    using assms that by (auto simp: sorted_wrt_append)
  ultimately show ?thesis by (simp add: filter_empty_conv filter_id_conv)
qed

context page_reader
begin

abbreviation below :: "'s \<Rightarrow> keyspace \<Rightarrow> bytes \<Rightarrow> entry list" where
  "below s ks prefix \<equiv> filter (\<lambda>e. starts_with (entry_key e) prefix) (table s ks)"

abbreviation remaining :: "'s \<Rightarrow> keyspace \<Rightarrow> bytes \<Rightarrow> bytes option \<Rightarrow> entry list" where
  "remaining s ks prefix cursor \<equiv> filter (page_matches (legacy_request prefix cursor)) (table s ks)"

lemma filter_table_sorted: "valid s \<Longrightarrow> strictly_sorted (map entry_key (filter P (table s ks)))"
  using table_sorted [of s ks] by (induction "table s ks") (auto simp: sorted_wrt_map sorted_wrt_filter)

lemma remaining_None: "remaining s ks prefix None = below s ks prefix"
  by (simp add: page_matches_def [abs_def])

lemma remaining_after:
  assumes "valid s" and "remaining s ks prefix cursor = xs @ ys" and "xs \<noteq> []"
  shows "remaining s ks prefix (Some (entry_key (last xs))) = ys"
proof -
  have m: "last xs \<in> set (remaining s ks prefix cursor)" using assms by simp
  have "remaining s ks prefix (Some (entry_key (last xs)))
      = filter (\<lambda>e. entry_key (last xs) < entry_key e) (remaining s ks prefix cursor)"
    using m by (auto simp: page_matches_def intro!: filter_cong split: option.splits)
  also have "\<dots> = ys"
    unfolding assms(2)
  proof (rule filter_above_last)
    show "strictly_sorted (map entry_key (xs @ ys))"
      using filter_table_sorted [OF assms(1)] by (simp only: assms(2) [symmetric])
  qed (rule assms(3))
  finally show ?thesis .
qed

lemma page_split:
  assumes "valid s" and "page_fn s ks (legacy_request prefix cursor) = Inr page"
  obtains rest where "remaining s ks prefix cursor = page_entries page @ rest"
    and "continuation page = (if rest = [] then None else Some (entry_key (last (page_entries page))))"
    and "rest \<noteq> [] \<longrightarrow> page_entries page \<noteq> []"
proof -
  let ?m = "remaining s ks prefix cursor"
  let ?f = "fill_page LEGACY_SCAN_PAGE_ENTRIES LEGACY_SCAN_PAGE_BYTES ?m"
  have nb: "\<not> (?m \<noteq> [] \<and> LEGACY_SCAN_PAGE_BYTES < entry_bytes (hd ?m))"
    and page: "page = \<lparr>page_entries = ?f,
      continuation = (if length ?f < length ?m then Some (entry_key (last ?f)) else None)\<rparr>"
    using page_sound [OF assms(1) legacy_request_valid assms(2)]
    by (auto simp: page_of_def Let_def split: if_splits)
  obtain rest where rest: "?m = ?f @ rest" using fill_page_prefix by blast
  have len: "length ?f < length ?m \<longleftrightarrow> rest \<noteq> []"
    using arg_cong [OF rest, of length] by simp
  have "?f \<noteq> []" if "rest \<noteq> []"
    using nb that rest
    by (auto simp: fill_page_Nil_iff LEGACY_SCAN_PAGE_ENTRIES_def)
  with rest len page show ?thesis by (intro that [of rest]) auto
qed

text \<open>What the loop returns is never wrong, wherever it is entered.\<close>

lemma collect_pages_sound:
  "collect_pages f prefix entries cursor t = Inr es \<Longrightarrow> f = page_fn s ks \<Longrightarrow> valid s \<Longrightarrow>
   es = entries @ remaining s ks prefix cursor"
proof (induction f prefix entries cursor t rule: collect_pages.induct)
  case (1 f prefix entries cursor t)
  have f: "f = page_fn s ks" and valid: "valid s" by (rule 1)+
  from 1(2) show ?case
  proof (cases rule: collect_pages_InrE)
    case (more page t')
    then have page: "page_fn s ks (legacy_request prefix cursor) = Inr page"
      using f by (simp add: legacy_request_def)
    obtain rest where rest: "remaining s ks prefix cursor = page_entries page @ rest"
        and cont: "continuation page = (if rest = [] then None else Some (entry_key (last (page_entries page))))"
        and ne: "rest \<noteq> [] \<longrightarrow> page_entries page \<noteq> []"
      using page_split [OF valid page] by metis
    show ?thesis
    proof (cases "rest = []")
      case True
      with more(7) cont rest show ?thesis by simp
    next
      case False
      let ?k = "entry_key (last (page_entries page))"
      have k: "continuation page = Some ?k" using cont False by simp
      then have step: "collect_pages f prefix (entries @ page_entries page) (Some ?k) t' = Inr es"
        using more(7) by simp
      have "es = (entries @ page_entries page) @ remaining s ks prefix (Some ?k)"
        by (rule 1(1) [OF more(1-4) refl more(5,6) k step f valid])
      with remaining_after [OF valid rest] ne False rest show ?thesis by simp
    qed
  qed
qed

lemma page_exists:
  assumes "valid s" and "\<forall>e \<in> set (remaining s ks prefix cursor). entry_bytes e \<le> LEGACY_SCAN_PAGE_BYTES"
  shows "\<exists>page. page_fn s ks (legacy_request prefix cursor) = Inr page"
proof -
  let ?m = "remaining s ks prefix cursor"
  have "\<not> (?m \<noteq> [] \<and> LEGACY_SCAN_PAGE_BYTES < entry_bytes (hd ?m))"
    using assms(2) by (metis hd_in_set not_less)
  moreover have "page_fn s ks (legacy_request prefix cursor) = page_of (legacy_request prefix cursor) ?m"
    using assms by (intro page_complete legacy_request_valid)
      (auto simp: LEGACY_SCAN_PAGE_BYTES_def usize_max_def)
  ultimately show ?thesis by (auto simp: page_of_def Let_def)
qed

lemma collect_pages_complete:
  "entries @ remaining s ks prefix cursor = es \<Longrightarrow> scan_fits es \<Longrightarrow> t = entries_bytes entries \<Longrightarrow>
   f = page_fn s ks \<Longrightarrow> valid s \<Longrightarrow> collect_pages f prefix entries cursor t = Inr es"
proof (induction f prefix entries cursor t rule: collect_pages.induct)
  case (1 f prefix entries cursor t)
  let ?m = "remaining s ks prefix cursor"
  have es: "entries @ ?m = es" and fits: "scan_fits es" and t: "t = entries_bytes entries"
    and f: "f = page_fn s ks" and valid: "valid s"
    by (rule 1)+
  have "\<forall>e \<in> set ?m. entry_bytes e \<le> LEGACY_SCAN_PAGE_BYTES"
    using fits unfolding es [symmetric] scan_fits_def by auto
  then obtain page where page: "f (legacy_request prefix cursor) = Inr page"
    using page_exists [OF valid] f by blast
  note page' = page [unfolded legacy_request_def]
  obtain rest where rest: "?m = page_entries page @ rest"
      and cont: "continuation page = (if rest = [] then None else Some (entry_key (last (page_entries page))))"
      and ne: "rest \<noteq> [] \<longrightarrow> page_entries page \<noteq> []"
    using page f valid by (metis page_split)
  have bytes: "t + entries_bytes (page_entries page) \<le> LEGACY_SCAN_MAX_BYTES"
    and count: "length entries + length (page_entries page) \<le> LEGACY_SCAN_MAX_ENTRIES"
    using fits rest t by (auto simp: es [symmetric] scan_fits_def)
  let ?t = "t + entries_bytes (page_entries page)"
  have total: "rfold count_entry_bytes (page_entries page) t = Inr ?t"
    using bytes by (rule rfold_count_complete)
  have small: "\<not> saturating_add_usize (length entries) (length (page_entries page)) > LEGACY_SCAN_MAX_ENTRIES"
      "\<not> ?t > LEGACY_SCAN_MAX_BYTES"
    using bytes count by (auto simp: saturating_add_usize_def)
  have adv: "\<not> (case cursor of None \<Rightarrow> False | Some previous \<Rightarrow>
            (case continuation page of None \<Rightarrow> False | Some nxt \<Rightarrow> nxt \<le> previous))"
  proof (cases "rest = []")
    case False
    then have "last (page_entries page) \<in> set ?m" using rest ne by simp
    then have "page_matches (legacy_request prefix cursor) (last (page_entries page))" by simp
    then show ?thesis using cont by (auto simp: page_matches_def split: option.splits)
  qed (use cont in \<open>auto split: option.splits\<close>)
  show ?case
  proof (cases "rest = []")
    case True
    then have "continuation page = None" and "es = entries @ page_entries page"
      using cont rest es by auto
    with page' total small adv show ?thesis
      by (subst collect_pages.simps) (simp add: Let_def split: option.splits)
  next
    case False
    let ?k = "entry_key (last (page_entries page))"
    have k: "continuation page = Some ?k" using cont False by simp
    have "collect_pages f prefix (entries @ page_entries page) (Some ?k) ?t = Inr es"
      using ne False fits f valid remaining_after [OF valid rest] rest es t
      by (intro 1(1) [OF page' _ adv total refl small k]) auto
    with page' total small adv k ne False show ?thesis
      by (subst collect_pages.simps) (simp add: Let_def split: option.splits)
  qed
qed

text \<open>What the loop returns is within its limits: the limits decide which listings it returns.\<close>

lemma page_fits:
  assumes "valid s" and "page_fn s ks (legacy_request prefix cursor) = Inr page" and "e \<in> set (page_entries page)"
  shows "entry_bytes e \<le> LEGACY_SCAN_PAGE_BYTES"
proof -
  have "page_entries page = fill_page LEGACY_SCAN_PAGE_ENTRIES LEGACY_SCAN_PAGE_BYTES (remaining s ks prefix cursor)"
    using page_sound [OF assms(1) legacy_request_valid assms(2)]
    by (auto simp: page_of_def Let_def split: if_splits)
  then have "entries_bytes (page_entries page) \<le> LEGACY_SCAN_PAGE_BYTES" by (simp add: fill_page_bytes)
  moreover have "entry_bytes e \<le> entries_bytes (page_entries page)"
    using assms(3) by (simp add: entries_bytes_def member_le_sum_list)
  ultimately show ?thesis by simp
qed

lemma collect_pages_fits:
  "collect_pages f prefix entries cursor t = Inr es \<Longrightarrow> t = entries_bytes entries \<Longrightarrow>
   \<forall>e \<in> set entries. entry_bytes e \<le> LEGACY_SCAN_PAGE_BYTES \<Longrightarrow>
   f = page_fn s ks \<Longrightarrow> valid s \<Longrightarrow> scan_fits es"
proof (induction f prefix entries cursor t rule: collect_pages.induct)
  case (1 f prefix entries cursor t)
  have f: "f = page_fn s ks" and valid: "valid s" and t: "t = entries_bytes entries" by (rule 1)+
  from 1(2) show ?case
  proof (cases rule: collect_pages_InrE)
    case (more page t')
    have bytes: "t' = entries_bytes (entries @ page_entries page)"
      using rfold_count_sound [OF more(4)] t by simp
    have each: "\<forall>e \<in> set (entries @ page_entries page). entry_bytes e \<le> LEGACY_SCAN_PAGE_BYTES"
      using 1(4) page_fits [OF valid] more(1) f by (auto simp: legacy_request_def)
    show ?thesis
    proof (cases "continuation page")
      case None
      then have "es = entries @ page_entries page" using more(7) by simp
      then show ?thesis
        using each bytes more(5,6)
        by (auto simp: scan_fits_def saturating_add_usize_def LEGACY_SCAN_MAX_ENTRIES_def usize_max_def)
    next
      case (Some k)
      then have step: "collect_pages f prefix (entries @ page_entries page) (Some k) t' = Inr es"
        using more(7) by simp
      show ?thesis by (rule 1(1) [OF more(1-4) refl more(5,6) Some step bytes each f valid])
    qed
  qed
qed

lemma collect_prefix_pages_sound:
  "valid s \<Longrightarrow> collect_prefix_pages (page_fn s ks) prefix = Inr es \<Longrightarrow> es = below s ks prefix"
  using collect_pages_sound [where entries = "[]" and cursor = None and t = 0 and f = "page_fn s ks"]
  by (simp add: collect_prefix_pages_def remaining_None)

lemma collect_prefix_pages_complete:
  "valid s \<Longrightarrow> scan_fits (below s ks prefix) \<Longrightarrow>
   collect_prefix_pages (page_fn s ks) prefix = Inr (below s ks prefix)"
  using collect_pages_complete [where entries = "[]" and cursor = None and t = 0 and f = "page_fn s ks"
      and es = "below s ks prefix"]
  by (simp add: collect_prefix_pages_def remaining_None)

lemma collect_prefix_pages_iff:
  assumes "valid s"
  shows "collect_prefix_pages (page_fn s ks) prefix = Inr es \<longleftrightarrow> es = below s ks prefix \<and> scan_fits es"
proof (intro iffI conjI)
  assume run: "collect_prefix_pages (page_fn s ks) prefix = Inr es"
  then show "es = below s ks prefix" by (rule collect_prefix_pages_sound [OF assms])
  from run show "scan_fits es"
    unfolding collect_prefix_pages_def by (rule collect_pages_fits [OF _ _ _ refl assms]) simp_all
qed (use collect_prefix_pages_complete [OF assms] in blast)

end

section \<open>The contracts of the traits\<close>

text \<open>
  A read view shows one fixed table per keyspace: \<open>get\<close> reads it, and \<open>scan_prefix\<close> lists the
  part below a prefix in key order or refuses because the listing is too big.
\<close>

locale read_snapshot =
  fixes ops :: "('s, 'x) read_snapshot_ops_scheme"
    and view :: "'s \<Rightarrow> keyspace \<Rightarrow> bytes \<Rightarrow> bytes option"
    and valid :: "'s \<Rightarrow> bool"
  assumes get_view: "valid s \<Longrightarrow> snap_get ops s ks k = Inr (view s ks k)"
    and scan_sound: "valid s \<Longrightarrow> snap_scan_prefix ops s ks p = Inr es \<Longrightarrow> listing (view s ks) p es"
    and scan_complete: "valid s \<Longrightarrow> listing (view s ks) p es \<Longrightarrow> scan_fits es \<Longrightarrow>
      snap_scan_prefix ops s ks p = Inr es"

text \<open>
  An engine: a read at the latest snapshot shows the committed content; a transaction starts from
  it, \<open>put\<close> and \<open>delete\<close> change its own view only, and \<open>commit\<close> is atomic: whatever it
  reports, the content afterwards is the content before or the transaction's view, and it is the
  view when it reports success. An engine that is \<open>available\<close> commits and reports the durability
  that was asked for.
\<close>

locale storage_engine =
  snap: read_snapshot "eng_snapshot ops" sview svalid +
  tx: read_snapshot "eng_transaction ops" tview tvalid
  for ops :: "('e, 's, 't) storage_engine_ops"
    and sview :: "'s \<Rightarrow> keyspace \<Rightarrow> bytes \<Rightarrow> bytes option" and svalid :: "'s \<Rightarrow> bool"
    and tview :: "'t \<Rightarrow> keyspace \<Rightarrow> bytes \<Rightarrow> bytes option" and tvalid :: "'t \<Rightarrow> bool" +
  fixes content :: "'e \<Rightarrow> keyspace \<Rightarrow> bytes \<Rightarrow> bytes option"
    and evalid :: "'e \<Rightarrow> bool"
    and based :: "'t \<Rightarrow> 'e \<Rightarrow> bool"
    and available :: "'e \<Rightarrow> bool"
  assumes begin_read_latest: "evalid e \<Longrightarrow>
      \<exists>s. eng_begin_read ops Latest e = Inr s \<and> svalid s \<and> sview s = content e"
    and begin_write_latest: "evalid e \<Longrightarrow>
      \<exists>t. eng_begin_write ops e = Inr t \<and> tvalid t \<and> tview t = content e \<and> based t e"
    and put_view: "tvalid t \<Longrightarrow>
      \<exists>t'. tx_put (eng_transaction ops) ks k v t = Inr t' \<and> tvalid t'
         \<and> tview t' = (tview t)(ks := (tview t ks)(k \<mapsto> v)) \<and> (\<forall>e. based t e \<longrightarrow> based t' e)"
    and delete_view: "tvalid t \<Longrightarrow>
      \<exists>t'. tx_delete (eng_transaction ops) ks k t = Inr t' \<and> tvalid t'
         \<and> tview t' = (tview t)(ks := (tview t ks)(k := None)) \<and> (\<forall>e. based t e \<longrightarrow> based t' e)"
    and commit_atomic: "evalid e \<Longrightarrow> tvalid t \<Longrightarrow> based t e \<Longrightarrow>
      tx_commit (eng_transaction ops) d t e = (e', r) \<Longrightarrow>
      evalid e' \<and> (content e' = content e \<or> content e' = tview t)
        \<and> (\<forall>c. r = Inr c \<longrightarrow> content e' = tview t)"
    and commit_available: "evalid e \<Longrightarrow> tvalid t \<Longrightarrow> based t e \<Longrightarrow> available e \<Longrightarrow>
      \<exists>e' c. tx_commit (eng_transaction ops) d t e = (e', Inr c) \<and> receipt_durability c = d"
    and rollback_ok: "tx_rollback (eng_transaction ops) t = Inr ()"

end
