(* ===== verification/Core_Errors.thy ===== *)
theory Core_Errors
  imports ContextDB_Prelude
begin

text \<open>
  The validation error of \<open>crates/contextdb-core/src/error.rs\<close>, the stable identifiers of
  \<open>id.rs\<close> as the 128 bits of their UUIDs, and the text check that the validators share.
\<close>

datatype validation_error =
    NilIdentifier string
  | InvalidIdentifierOf string
  | EmptyCollection string
  | BlankText string
  | InvalidTimeRange int int
  | InvalidCommitRange u64 u64
  | InvalidRevisionSequence
  | OverlappingTransactionIntervals
  | DuplicateIdentifier string
  | MissingEvidence string
  | InvalidAssertionDerivation
  | PolicyWeakening string
  | CardinalityConflictWithoutConflictSet
  | PredicateTypeMismatch
  | LineageCycle
  | SelfSupportingLineage
  | HierarchyCycle
  | InvalidNumber string
  | InvalidEvidenceSelector string
  | MissingObservationContent
  | InvalidConflictSet
  | InvalidCandidatePayload
  | InvalidState string

type_synonym uuid = "128 word"
definition validate_non_blank :: "string \<Rightarrow> string \<Rightarrow> validation_error + unit" where
  "validate_non_blank v field = rguard (\<not> is_blank v) (BlankText field)"

end
