(* ===== verification/Journal_Model.thy ===== *)
theory Journal_Model
  imports Storage_Contract Record_Frame Core_Errors
begin

text \<open>
  Keys, errors, data and framing of the logical journal, \<open>crates/contextdb-journal/src\<close>
  (\<open>key.rs\<close>, \<open>error.rs\<close>, \<open>model.rs\<close> and the payloads and framing functions at the end of
  \<open>coordinator.rs\<close>). BLAKE3 and the JSON codecs of the payloads are parameters, gathered in the
  record \<open>journal_env\<close>; so are the logical values of \<open>contextdb-core\<close>, of which the journal uses
  an identity, a validator, and for mutations a base sequence, references and derived work.
\<close>

section \<open>Errors\<close>

type_synonym digest = bytes

datatype commit_stage = AfterValidation | AfterStaging | AfterCommitBeforeAck

datatype journal_error =
    JStorage storage_error
  | JFormat format_error
  | JSerialization
  | JInvalidBackup string
  | JRestoreTargetNotEmpty
  | JValidation validation_error
  | JInvalidIdempotencyKey
  | JIdempotencyConflict
  | JBaseSnapshotMismatch u64 u64
  | JMissingObservation uuid
  | JDuplicateObservation
  | JEmbeddedObservationAppend
  | JCommitSequenceExhausted
  | JDurabilityNotAchieved u64 durability durability
  | JInjectedFailure commit_stage
  | JLostResponse u64
  | JCorruption string
  | JSnapshotUnavailable u64 u64
  | JCoordinatorPoisoned

section \<open>Keys\<close>

definition ascii :: "string \<Rightarrow> bytes" where
  "ascii s = map of_char s"

definition HEAD_KEY :: bytes where "HEAD_KEY = ascii ''head''"
definition EVENT_PREFIX :: bytes where "EVENT_PREFIX = ascii ''e''"
definition OUTBOX_PREFIX :: bytes where "OUTBOX_PREFIX = ascii ''o''"
definition IDEMPOTENCY_PREFIX :: bytes where "IDEMPOTENCY_PREFIX = ascii ''i''"
definition OBSERVATION_PREFIX :: bytes where "OBSERVATION_PREFIX = ascii ''b''"
definition MUTATION_PREFIX :: bytes where "MUTATION_PREFIX = ascii ''m''"

definition ks_meta :: keyspace where "ks_meta = Keyspace ''journal_meta''"
definition ks_events :: keyspace where "ks_events = Keyspace ''semantic_journal''"
definition ks_outbox :: keyspace where "ks_outbox = Keyspace ''journal_outbox''"
definition ks_idempotency :: keyspace where "ks_idempotency = Keyspace ''journal_idempotency''"
definition ks_observations :: keyspace where "ks_observations = Keyspace ''journal_observation''"
definition ks_mutations :: keyspace where "ks_mutations = Keyspace ''journal_mutation''"

definition sequence_key :: "bytes \<Rightarrow> u64 \<Rightarrow> bytes" where
  "sequence_key prefix sequence = prefix @ to_be_bytes sequence"

definition uuid_key :: "bytes \<Rightarrow> uuid \<Rightarrow> bytes" where
  "uuid_key prefix uuid = prefix @ to_be_bytes uuid"

definition event_key :: "u64 \<Rightarrow> bytes" where
  "event_key sequence = sequence_key EVENT_PREFIX sequence"

definition outbox_key :: "u64 \<Rightarrow> u32 \<Rightarrow> bytes" where
  "outbox_key sequence index = OUTBOX_PREFIX @ to_be_bytes sequence @ to_be_bytes index"

definition outbox_sequence_prefix :: "u64 \<Rightarrow> bytes" where
  "outbox_sequence_prefix sequence = sequence_key OUTBOX_PREFIX sequence"

definition idempotency_key :: "digest \<Rightarrow> bytes" where
  "idempotency_key digest = IDEMPOTENCY_PREFIX @ digest"

definition observation_key :: "uuid \<Rightarrow> bytes" where
  "observation_key uuid = uuid_key OBSERVATION_PREFIX uuid"

definition mutation_key :: "uuid \<Rightarrow> bytes" where
  "mutation_key uuid = uuid_key MUTATION_PREFIX uuid"

definition sequence_from_key :: "bytes \<Rightarrow> bytes \<Rightarrow> nat \<Rightarrow> u64 option" where
  "sequence_from_key key pre suffix_len =
     (case checked_add_usize (length pre) 8 of
        None \<Rightarrow> None
      | Some n \<Rightarrow>
          (case checked_add_usize n suffix_len of
             None \<Rightarrow> None
           | Some m \<Rightarrow>
               if length key \<noteq> m \<or> \<not> starts_with key pre then None
               else map_option from_be_bytes (slice_get key (length pre) (length pre + 8))))"

section \<open>Values, receipts and events\<close>

text \<open>\<open>CommitSeq::checked_next\<close>.\<close>

definition checked_next :: "u64 \<Rightarrow> u64 option" where
  "checked_next n = checked_add_word n 1"

definition saturating_inc :: "u64 \<Rightarrow> u64" where
  "saturating_inc n = (if n = -1 then n else n + 1)"

record commit_options =
  opt_durability :: durability
  fail_at :: "commit_stage option"

definition commit_options_default :: commit_options where
  "commit_options_default = \<lparr>opt_durability = Sync, fail_at = None\<rparr>"

record 'o validated_observation =
  vo_bytes :: bytes
  vo_observation :: 'o
  vo_digest :: digest

record 'm validated_mutation =
  vm_bytes :: bytes
  vm_mutation :: 'm
  vm_digest :: digest

record 'x validated_maintenance =
  vx_bytes :: bytes
  vx_mutation :: 'x
  vx_digest :: digest

record observation_receipt =
  or_observation_id :: uuid
  or_commit_seq :: u64
  or_durability :: durability
  or_replayed :: bool
  or_request_digest :: digest

record publication_receipt =
  pr_mutation_id :: uuid
  pr_publication_id :: uuid
  pr_commit_seq :: u64
  pr_durability :: durability
  pr_outbox_count :: u32
  pr_replayed :: bool
  pr_mutation_digest :: digest

record maintenance_receipt =
  mr_mutation_id :: uuid
  mr_publication_id :: uuid
  mr_commit_seq :: u64
  mr_durability :: durability
  mr_outbox_count :: u32
  mr_replayed :: bool
  mr_mutation_digest :: digest

datatype 'w journal_event =
    ObservationAccepted (oa_seq: u64) (oa_id: uuid) (oa_bytes: bytes) (oa_digest: digest)
  | SemanticPublished (sp_seq: u64) (sp_mutation: uuid) (sp_publication: uuid) (sp_bytes: bytes)
      (sp_digest: digest) (sp_outbox: "'w list")
  | MaintenancePublished (mp_seq: u64) (mp_mutation: uuid) (mp_publication: uuid) (mp_bytes: bytes)
      (mp_digest: digest) (mp_outbox: "'w list")

fun journal_event_seq :: "'w journal_event \<Rightarrow> u64" where
  "journal_event_seq (ObservationAccepted seq i b d) = seq"
| "journal_event_seq (SemanticPublished seq m p b d ws) = seq"
| "journal_event_seq (MaintenancePublished seq m p b d ws) = seq"

datatype journal_snapshot_selector = JLatest | JAt u64

record 'w journal_snapshot =
  js_commit_seq :: u64
  js_storage_sequence :: u64
  js_events :: "'w journal_event list"

record replay_mutation =
  rm_commit_seq :: u64
  rm_mutation_id :: uuid
  rm_digest :: digest
  rm_bytes :: bytes

record recovery_report =
  rr_commit_seq :: u64
  rr_storage_sequence :: u64
  rr_removed :: u64
  rr_warnings :: "string list"

record journal_verify_report =
  jv_mode :: verify_mode
  jv_commit_seq :: u64
  jv_storage_sequence :: u64
  jv_events :: u64
  jv_outbox :: u64
  jv_idempotency :: u64
  jv_warnings :: "string list"

record portable_backup =
  pb_schema :: u16
  pb_commit_seq :: u64
  pb_records :: u64
  pb_digest :: digest
  pb_payload :: bytes

record restore_report =
  rs_commit_seq :: u64
  rs_records :: u64
  rs_digest :: digest
  rs_storage_sequence :: u64

section \<open>Payloads\<close>

datatype head_payload = HeadPayload (hp_commit_seq: u64)

record identity_index =
  ii_commit_seq :: u64
  ii_digest :: digest

record observation_frame =
  of_observation_id :: uuid
  of_digest :: digest
  of_bytes :: bytes

record mutation_frame =
  mf_mutation_id :: uuid
  mf_digest :: digest
  mf_bytes :: bytes

record publication_frame =
  pf_mutation_id :: uuid
  pf_publication_id :: uuid
  pf_digest :: digest
  pf_outbox_count :: u32

record 'w outbox_frame =
  ob_mutation_id :: uuid
  ob_index :: u32
  ob_work :: 'w

datatype stored_receipt =
    StoredObservation observation_receipt
  | StoredPublication publication_receipt
  | StoredMaintenance maintenance_receipt

record idempotency_payload =
  ip_key_digest :: digest
  ip_request_digest :: digest
  ip_receipt :: stored_receipt

record backup_section =
  bs_name :: string
  bs_entries :: "entry list"

record backup_payload =
  bp_schema :: u16
  bp_commit_seq :: u64
  bp_records :: u64
  bp_sections :: "backup_section list"

record 'a decoded_payload =
  dp_sequence :: u64
  dp_value :: 'a

section \<open>The environment\<close>

text \<open>
  \<open>serde_json::to_vec\<close> and \<open>serde_json::from_slice\<close> at one type. What the journal relies on is
  that a value that was serialised is read back.
\<close>

record 'a json_codec =
  to_vec :: "'a \<Rightarrow> bytes option"
  from_slice :: "bytes \<Rightarrow> 'a option"

definition codec_ok :: "'a json_codec \<Rightarrow> bool" where
  "codec_ok c \<longleftrightarrow> (\<forall>x bs. to_vec c x = Some bs \<longrightarrow> from_slice c bs = Some x)"

record 'o observation_class =
  obs_codec :: "'o json_codec"
  obs_validate :: "'o \<Rightarrow> validation_error + unit"
  obs_id :: "'o \<Rightarrow> uuid"

record ('m, 'w) mutation_class =
  mut_codec :: "'m json_codec"
  mut_validate :: "'m \<Rightarrow> validation_error + unit"
  mut_id :: "'m \<Rightarrow> uuid"
  mut_base :: "'m \<Rightarrow> u64"
  mut_refs :: "'m \<Rightarrow> uuid list"
  mut_appends_empty :: "'m \<Rightarrow> bool"
  mut_work :: "'m \<Rightarrow> 'w list"

record ('x, 'w) maintenance_class =
  mnt_codec :: "'x json_codec"
  mnt_validate :: "'x \<Rightarrow> validation_error + unit"
  mnt_id :: "'x \<Rightarrow> uuid"
  mnt_base :: "'x \<Rightarrow> u64"
  mnt_work :: "'x \<Rightarrow> 'w list"

record ('o, 'm, 'x, 'w) journal_env =
  blake3 :: "bytes \<Rightarrow> bytes"
  head_codec :: "head_payload json_codec"
  index_codec :: "identity_index json_codec"
  observation_codec :: "observation_frame json_codec"
  mutation_codec :: "mutation_frame json_codec"
  publication_codec :: "publication_frame json_codec"
  outbox_codec :: "'w outbox_frame json_codec"
  idempotency_codec :: "idempotency_payload json_codec"
  backup_codec :: "backup_payload json_codec"
  observations :: "'o observation_class"
  semantic :: "('m, 'w) mutation_class"
  maintenance :: "('x, 'w) maintenance_class"

definition codecs_ok :: "('o, 'm, 'x, 'w) journal_env \<Rightarrow> bool" where
  "codecs_ok env \<longleftrightarrow> codec_ok (head_codec env) \<and> codec_ok (index_codec env)
     \<and> codec_ok (observation_codec env) \<and> codec_ok (mutation_codec env)
     \<and> codec_ok (publication_codec env) \<and> codec_ok (outbox_codec env)
     \<and> codec_ok (idempotency_codec env) \<and> codec_ok (backup_codec env)"

section \<open>Requests\<close>

definition idempotency_key_new :: "string \<Rightarrow> journal_error + string" where
  "idempotency_key_new value =
     (if is_blank value \<or> length value > 256 then Inl JInvalidIdempotencyKey else Inr value)"

definition idempotency_digest :: "('o, 'm, 'x, 'w) journal_env \<Rightarrow> string \<Rightarrow> digest" where
  "idempotency_digest env key = blake3 env (ascii key)"

text \<open>The incremental hasher hashes the concatenation of its updates.\<close>

definition operation_digest :: "('o, 'm, 'x, 'w) journal_env \<Rightarrow> string \<Rightarrow> bytes \<Rightarrow> digest" where
  "operation_digest env domain bs = blake3 env (ascii domain @ [0] @ bs)"

definition observation_from_json ::
  "('o, 'm, 'x, 'w) journal_env \<Rightarrow> bytes \<Rightarrow> journal_error + 'o validated_observation" where
  "observation_from_json env bs =
     rbind (ok_or JSerialization (from_slice (obs_codec (observations env)) bs)) (\<lambda>observation.
     rbind (map_err JValidation (obs_validate (observations env) observation)) (\<lambda>_.
     Inr \<lparr>vo_bytes = bs, vo_observation = observation,
          vo_digest = operation_digest env ''observation-accepted-v1'' bs\<rparr>))"

definition from_observation ::
  "('o, 'm, 'x, 'w) journal_env \<Rightarrow> 'o \<Rightarrow> journal_error + 'o validated_observation" where
  "from_observation env observation =
     rbind (ok_or JSerialization (to_vec (obs_codec (observations env)) observation))
       (observation_from_json env)"

definition vo_id :: "('o, 'm, 'x, 'w) journal_env \<Rightarrow> 'o validated_observation \<Rightarrow> uuid" where
  "vo_id env v = obs_id (observations env) (vo_observation v)"

definition mutation_from_json ::
  "('o, 'm, 'x, 'w) journal_env \<Rightarrow> bytes \<Rightarrow> journal_error + 'm validated_mutation" where
  "mutation_from_json env bs =
     rbind (ok_or JSerialization (from_slice (mut_codec (semantic env)) bs)) (\<lambda>mutation.
     rbind (map_err JValidation (mut_validate (semantic env) mutation)) (\<lambda>_.
     if \<not> mut_appends_empty (semantic env) mutation then Inl JEmbeddedObservationAppend
     else Inr \<lparr>vm_bytes = bs, vm_mutation = mutation,
               vm_digest = operation_digest env ''semantic-publication-v1'' bs\<rparr>))"

definition from_mutation ::
  "('o, 'm, 'x, 'w) journal_env \<Rightarrow> 'm \<Rightarrow> journal_error + 'm validated_mutation" where
  "from_mutation env mutation =
     rbind (ok_or JSerialization (to_vec (mut_codec (semantic env)) mutation)) (mutation_from_json env)"

definition vm_id :: "('o, 'm, 'x, 'w) journal_env \<Rightarrow> 'm validated_mutation \<Rightarrow> uuid" where
  "vm_id env v = mut_id (semantic env) (vm_mutation v)"

definition maintenance_from_json ::
  "('o, 'm, 'x, 'w) journal_env \<Rightarrow> bytes \<Rightarrow> journal_error + 'x validated_maintenance" where
  "maintenance_from_json env bs =
     rbind (ok_or JSerialization (from_slice (mnt_codec (maintenance env)) bs)) (\<lambda>mutation.
     rbind (map_err JValidation (mnt_validate (maintenance env) mutation)) (\<lambda>_.
     Inr \<lparr>vx_bytes = bs, vx_mutation = mutation,
          vx_digest = operation_digest env ''maintenance-publication-v1'' bs\<rparr>))"

definition from_maintenance ::
  "('o, 'm, 'x, 'w) journal_env \<Rightarrow> 'x \<Rightarrow> journal_error + 'x validated_maintenance" where
  "from_maintenance env mutation =
     rbind (ok_or JSerialization (to_vec (mnt_codec (maintenance env)) mutation)) (maintenance_from_json env)"

definition vx_id :: "('o, 'm, 'x, 'w) journal_env \<Rightarrow> 'x validated_maintenance \<Rightarrow> uuid" where
  "vx_id env v = mnt_id (maintenance env) (vx_mutation v)"

section \<open>Framing\<close>

definition SCHEMA_VERSION :: u16 where "SCHEMA_VERSION = 1"
definition BACKUP_SCHEMA_VERSION :: u16 where "BACKUP_SCHEMA_VERSION = 1"

definition encode ::
  "('o, 'm, 'x, 'w) journal_env \<Rightarrow> 'a json_codec \<Rightarrow> record_kind \<Rightarrow> u64 \<Rightarrow> 'a \<Rightarrow> journal_error + bytes" where
  "encode env codec kind sequence value =
     rbind (ok_or JSerialization (to_vec codec value)) (\<lambda>payload.
     map_err JFormat (envelope_encode (blake3 env) (record_kind_u16 kind) SCHEMA_VERSION 0 sequence payload))"

definition decode_any ::
  "('o, 'm, 'x, 'w) journal_env \<Rightarrow> 'a json_codec \<Rightarrow> record_kind \<Rightarrow> bytes \<Rightarrow> journal_error + 'a decoded_payload" where
  "decode_any env codec kind bs =
     rbind (map_err JFormat (envelope_decode (blake3 env) bs)) (\<lambda>record.
     let envelope = dec_envelope record in
     if env_kind envelope \<noteq> record_kind_u16 kind \<or> env_schema envelope \<noteq> SCHEMA_VERSION
        \<or> env_flags envelope \<noteq> 0
     then Inl (JCorruption ''record envelope kind, schema, or flags are invalid'')
     else rbind (ok_or JSerialization (from_slice codec (dec_payload record))) (\<lambda>value.
          Inr \<lparr>dp_sequence = env_seq envelope, dp_value = value\<rparr>))"

definition decode ::
  "('o, 'm, 'x, 'w) journal_env \<Rightarrow> 'a json_codec \<Rightarrow> record_kind \<Rightarrow> u64 \<Rightarrow> bytes \<Rightarrow> journal_error + 'a" where
  "decode env codec kind sequence bs =
     rbind (decode_any env codec kind bs) (\<lambda>decoded.
     if dp_sequence decoded \<noteq> sequence
     then Inl (JCorruption (''frame sequence '' @ decimal (unat (dp_sequence decoded))
                @ '' differs from expected '' @ decimal (unat sequence)))
     else Inr (dp_value decoded))"

definition journal_fail_if :: "commit_stage option \<Rightarrow> commit_stage \<Rightarrow> journal_error + unit" where
  "journal_fail_if selected stage = (if selected = Some stage then Inl (JInjectedFailure stage) else Inr ())"

definition ensure_durability :: "u64 \<Rightarrow> durability \<Rightarrow> durability \<Rightarrow> journal_error + unit" where
  "ensure_durability commit_seq requested achieved =
     (if requested = Sync \<and> achieved \<noteq> Sync
      then Inl (JDurabilityNotAchieved commit_seq requested achieved) else Inr ())"

end
