(* ===== verification/Journal_Coordinator.thy ===== *)
theory Journal_Coordinator
  imports Journal_Model
begin

text \<open>
  The commit coordinator, \<open>crates/contextdb-journal/src/coordinator.rs\<close>: acceptance of
  observations, semantic and maintenance publications, snapshots, replay, verification, recovery
  and portable backups, generic in the storage engine. The engine is threaded explicitly; the
  commit mutex makes each operation one step, and a poisoned lock is not modelled. The fresh
  identifier \<open>PublicationId::new()\<close> is an argument.
\<close>

section \<open>Reading\<close>

definition logical_head ::
  "('o, 'm, 'x, 'w) journal_env \<Rightarrow> ('r, 'z) read_snapshot_ops_scheme \<Rightarrow> 'r \<Rightarrow> journal_error + u64" where
  "logical_head env rd r =
     rbind (map_err JStorage (snap_get rd r ks_meta HEAD_KEY)) (\<lambda>found.
     case found of
       None \<Rightarrow> Inr 0
     | Some bs \<Rightarrow>
         rbind (decode_any env (head_codec env) KSnapshot bs) (\<lambda>record.
         if hp_commit_seq (dp_value record) \<noteq> dp_sequence record
         then Inl (JCorruption ''head payload and envelope sequence differ'')
         else Inr (dp_sequence record)))"

definition observation_index ::
  "('o, 'm, 'x, 'w) journal_env \<Rightarrow> ('r, 'z) read_snapshot_ops_scheme \<Rightarrow> 'r \<Rightarrow> uuid \<Rightarrow> u64 \<Rightarrow>
   journal_error + identity_index decoded_payload" where
  "observation_index env rd r observation_id head =
     rbind (map_err JStorage (snap_get rd r ks_observations (observation_key observation_id))) (\<lambda>found.
     case found of
       None \<Rightarrow> Inl (JMissingObservation observation_id)
     | Some bs \<Rightarrow>
         rbind (decode_any env (index_codec env) KSnapshot bs) (\<lambda>record.
         if dp_sequence record \<noteq> ii_commit_seq (dp_value record) \<or> dp_sequence record > head
         then Inl (JCorruption ''observation index points outside the published prefix'')
         else Inr record))"

definition validate_observation_reference ::
  "('o, 'm, 'x, 'w) journal_env \<Rightarrow> ('r, 'z) read_snapshot_ops_scheme \<Rightarrow> 'r \<Rightarrow> u64 \<Rightarrow> uuid \<Rightarrow>
   journal_error + unit" where
  "validate_observation_reference env rd r head observation_id =
     rbind (observation_index env rd r observation_id head) (\<lambda>_. Inr ())"

definition read_idempotency ::
  "('o, 'm, 'x, 'w) journal_env \<Rightarrow> ('e, 's, 't) storage_engine_ops \<Rightarrow> digest \<Rightarrow> 'e \<Rightarrow>
   journal_error + idempotency_payload option" where
  "read_idempotency env ops key_digest e =
     rbind (map_err JStorage (eng_begin_read ops Latest e)) (\<lambda>snapshot.
     rbind (map_err JStorage (snap_get (eng_snapshot ops) snapshot ks_idempotency (idempotency_key key_digest)))
       (\<lambda>found.
     case found of
       None \<Rightarrow> Inr None
     | Some bs \<Rightarrow>
         rbind (decode_any env (idempotency_codec env) KSnapshot bs) (\<lambda>record. Inr (Some (dp_value record)))))"

definition synchronize_retry_if_required ::
  "('e, 's, 't) storage_engine_ops \<Rightarrow> u64 \<Rightarrow> durability \<Rightarrow> 'e \<Rightarrow> 'e \<times> (journal_error + unit)" where
  "synchronize_retry_if_required ops commit_seq requested e =
     (if requested = Sync
      then (case eng_begin_write ops e of
              Inl err \<Rightarrow> (e, Inl (JStorage err))
            | Inr transaction \<Rightarrow>
                (case tx_commit (eng_transaction ops) Sync transaction e of
                   (e', Inl err) \<Rightarrow> (e', Inl (JStorage err))
                 | (e', Inr receipt) \<Rightarrow> (e', ensure_durability commit_seq Sync (receipt_durability receipt))))
      else (e, Inr ()))"

text \<open>
  The three \<open>read_..._retry\<close> functions: the stored record must be for the same key and request and
  hold a receipt of the right kind.
\<close>

definition read_observation_retry ::
  "('o, 'm, 'x, 'w) journal_env \<Rightarrow> ('e, 's, 't) storage_engine_ops \<Rightarrow> digest \<Rightarrow> digest \<Rightarrow> durability \<Rightarrow> 'e \<Rightarrow>
   'e \<times> (journal_error + observation_receipt option)" where
  "read_observation_retry env ops key_digest request_digest requested e =
     (case read_idempotency env ops key_digest e of
        Inl err \<Rightarrow> (e, Inl err)
      | Inr None \<Rightarrow> (e, Inr None)
      | Inr (Some stored) \<Rightarrow>
          if ip_key_digest stored \<noteq> key_digest \<or> ip_request_digest stored \<noteq> request_digest
          then (e, Inl JIdempotencyConflict)
          else case ip_receipt stored of
                 StoredObservation receipt \<Rightarrow>
                   (case ensure_durability (or_commit_seq receipt) requested (or_durability receipt) of
                      Inl err \<Rightarrow> (e, Inl err)
                    | Inr _ \<Rightarrow>
                        (case synchronize_retry_if_required ops (or_commit_seq receipt) requested e of
                           (e', Inl err) \<Rightarrow> (e', Inl err)
                         | (e', Inr _) \<Rightarrow> (e', Inr (Some (receipt\<lparr>or_replayed := True\<rparr>)))))
               | _ \<Rightarrow> (e, Inl JIdempotencyConflict))"

definition read_publication_retry ::
  "('o, 'm, 'x, 'w) journal_env \<Rightarrow> ('e, 's, 't) storage_engine_ops \<Rightarrow> digest \<Rightarrow> digest \<Rightarrow> durability \<Rightarrow> 'e \<Rightarrow>
   'e \<times> (journal_error + publication_receipt option)" where
  "read_publication_retry env ops key_digest request_digest requested e =
     (case read_idempotency env ops key_digest e of
        Inl err \<Rightarrow> (e, Inl err)
      | Inr None \<Rightarrow> (e, Inr None)
      | Inr (Some stored) \<Rightarrow>
          if ip_key_digest stored \<noteq> key_digest \<or> ip_request_digest stored \<noteq> request_digest
          then (e, Inl JIdempotencyConflict)
          else case ip_receipt stored of
                 StoredPublication receipt \<Rightarrow>
                   (case ensure_durability (pr_commit_seq receipt) requested (pr_durability receipt) of
                      Inl err \<Rightarrow> (e, Inl err)
                    | Inr _ \<Rightarrow>
                        (case synchronize_retry_if_required ops (pr_commit_seq receipt) requested e of
                           (e', Inl err) \<Rightarrow> (e', Inl err)
                         | (e', Inr _) \<Rightarrow> (e', Inr (Some (receipt\<lparr>pr_replayed := True\<rparr>)))))
               | _ \<Rightarrow> (e, Inl JIdempotencyConflict))"

definition read_maintenance_retry ::
  "('o, 'm, 'x, 'w) journal_env \<Rightarrow> ('e, 's, 't) storage_engine_ops \<Rightarrow> digest \<Rightarrow> digest \<Rightarrow> durability \<Rightarrow> 'e \<Rightarrow>
   'e \<times> (journal_error + maintenance_receipt option)" where
  "read_maintenance_retry env ops key_digest request_digest requested e =
     (case read_idempotency env ops key_digest e of
        Inl err \<Rightarrow> (e, Inl err)
      | Inr None \<Rightarrow> (e, Inr None)
      | Inr (Some stored) \<Rightarrow>
          if ip_key_digest stored \<noteq> key_digest \<or> ip_request_digest stored \<noteq> request_digest
          then (e, Inl JIdempotencyConflict)
          else case ip_receipt stored of
                 StoredMaintenance receipt \<Rightarrow>
                   (case ensure_durability (mr_commit_seq receipt) requested (mr_durability receipt) of
                      Inl err \<Rightarrow> (e, Inl err)
                    | Inr _ \<Rightarrow>
                        (case synchronize_retry_if_required ops (mr_commit_seq receipt) requested e of
                           (e', Inl err) \<Rightarrow> (e', Inl err)
                         | (e', Inr _) \<Rightarrow> (e', Inr (Some (receipt\<lparr>mr_replayed := True\<rparr>)))))
               | _ \<Rightarrow> (e, Inl JIdempotencyConflict))"

section \<open>Staging\<close>

text \<open>\<open>transaction.put(keyspace, key, encode(kind, sequence, payload)?)?\<close>.\<close>

definition put_frame ::
  "('o, 'm, 'x, 'w) journal_env \<Rightarrow> ('e, 's, 't) storage_engine_ops \<Rightarrow> 'a json_codec \<Rightarrow> record_kind \<Rightarrow> u64 \<Rightarrow>
   keyspace \<Rightarrow> bytes \<Rightarrow> 'a \<Rightarrow> 't \<Rightarrow> journal_error + 't" where
  "put_frame env ops codec kind sequence ks key payload transaction =
     rbind (encode env codec kind sequence payload) (\<lambda>frame.
     map_err JStorage (tx_put (eng_transaction ops) ks key frame transaction))"

definition stage_head ::
  "('o, 'm, 'x, 'w) journal_env \<Rightarrow> ('e, 's, 't) storage_engine_ops \<Rightarrow> u64 \<Rightarrow> 't \<Rightarrow> journal_error + 't" where
  "stage_head env ops head transaction =
     put_frame env ops (head_codec env) KSnapshot head ks_meta HEAD_KEY (HeadPayload head) transaction"

fun stage_outbox ::
  "('o, 'm, 'x, 'w) journal_env \<Rightarrow> ('e, 's, 't) storage_engine_ops \<Rightarrow> u64 \<Rightarrow> uuid \<Rightarrow> nat \<Rightarrow> 'w list \<Rightarrow> 't \<Rightarrow>
   journal_error + 't" where
  "stage_outbox env ops sequence mutation_id index [] transaction = Inr transaction"
| "stage_outbox env ops sequence mutation_id index (work # works) transaction =
     (if index < 2 ^ 32
      then rbind (put_frame env ops (outbox_codec env) KOutbox sequence ks_outbox
                    (outbox_key sequence (of_nat index))
                    \<lparr>ob_mutation_id = mutation_id, ob_index = of_nat index, ob_work = work\<rparr> transaction)
             (stage_outbox env ops sequence mutation_id (Suc index) works)
      else Inl (JCorruption ''derived-work index exceeds portable u32 range''))"

text \<open>The steps from the first failpoint up to the staged head record.\<close>

definition stage_observation ::
  "('o, 'm, 'x, 'w) journal_env \<Rightarrow> ('e, 's, 't) storage_engine_ops \<Rightarrow> digest \<Rightarrow> 'o validated_observation \<Rightarrow>
   commit_options \<Rightarrow> 'e \<Rightarrow> journal_error + 't \<times> u64 \<times> observation_receipt" where
  "stage_observation env ops key_digest v options e =
     rbind (journal_fail_if (fail_at options) AfterValidation) (\<lambda>_.
     rbind (map_err JStorage (eng_begin_write ops e)) (\<lambda>t0.
     rbind (logical_head env (eng_transaction ops) t0) (\<lambda>head.
     rbind (ok_or JCommitSequenceExhausted (checked_next head)) (\<lambda>next_seq.
     rbind (map_err JStorage (snap_get (eng_transaction ops) t0 ks_observations (observation_key (vo_id env v))))
       (\<lambda>existing.
     if existing \<noteq> None then Inl JDuplicateObservation
     else
     rbind (put_frame env ops (observation_codec env) KObservation next_seq ks_events (event_key next_seq)
              \<lparr>of_observation_id = vo_id env v, of_digest = vo_digest v, of_bytes = vo_bytes v\<rparr> t0) (\<lambda>t1.
     rbind (put_frame env ops (index_codec env) KSnapshot next_seq ks_observations (observation_key (vo_id env v))
              \<lparr>ii_commit_seq = next_seq, ii_digest = vo_digest v\<rparr> t1) (\<lambda>t2.
     let receipt = \<lparr>or_observation_id = vo_id env v, or_commit_seq = next_seq,
           or_durability = opt_durability options, or_replayed = False, or_request_digest = vo_digest v\<rparr> in
     rbind (put_frame env ops (idempotency_codec env) KSnapshot next_seq ks_idempotency (idempotency_key key_digest)
              \<lparr>ip_key_digest = key_digest, ip_request_digest = vo_digest v, ip_receipt = StoredObservation receipt\<rparr> t2)
       (\<lambda>t3.
     rbind (stage_head env ops next_seq t3) (\<lambda>t4. Inr (t4, next_seq, receipt))))))))))"

definition stage_semantic ::
  "('o, 'm, 'x, 'w) journal_env \<Rightarrow> ('e, 's, 't) storage_engine_ops \<Rightarrow> digest \<Rightarrow> 'm validated_mutation \<Rightarrow> uuid \<Rightarrow>
   commit_options \<Rightarrow> 'e \<Rightarrow> journal_error + 't \<times> u64 \<times> publication_receipt" where
  "stage_semantic env ops key_digest v publication_id options e =
     rbind (journal_fail_if (fail_at options) AfterValidation) (\<lambda>_.
     rbind (map_err JStorage (eng_begin_write ops e)) (\<lambda>t0.
     rbind (logical_head env (eng_transaction ops) t0) (\<lambda>head.
     let mutation = vm_mutation v in
     if mut_base (semantic env) mutation \<noteq> head
     then Inl (JBaseSnapshotMismatch (mut_base (semantic env) mutation) head)
     else
     rbind (rall (validate_observation_reference env (eng_transaction ops) t0 head)
              (mut_refs (semantic env) mutation)) (\<lambda>_.
     rbind (map_err JStorage (snap_get (eng_transaction ops) t0 ks_mutations (mutation_key (vm_id env v))))
       (\<lambda>existing.
     if existing \<noteq> None then Inl JIdempotencyConflict
     else
     rbind (ok_or JCommitSequenceExhausted (checked_next head)) (\<lambda>next_seq.
     if \<not> length (mut_work (semantic env) mutation) < 2 ^ 32
     then Inl (JCorruption ''derived-work count exceeds portable u32 range'')
     else let outbox_count = of_nat (length (mut_work (semantic env) mutation)) in
     rbind (put_frame env ops (mutation_codec env) KSemanticMutation next_seq ks_mutations (mutation_key (vm_id env v))
              \<lparr>mf_mutation_id = vm_id env v, mf_digest = vm_digest v, mf_bytes = vm_bytes v\<rparr> t0) (\<lambda>t1.
     rbind (put_frame env ops (publication_codec env) KSemanticPublication next_seq ks_events (event_key next_seq)
              \<lparr>pf_mutation_id = vm_id env v, pf_publication_id = publication_id, pf_digest = vm_digest v,
               pf_outbox_count = outbox_count\<rparr> t1) (\<lambda>t2.
     rbind (stage_outbox env ops next_seq (vm_id env v) 0 (mut_work (semantic env) mutation) t2) (\<lambda>t3.
     let receipt = \<lparr>pr_mutation_id = vm_id env v, pr_publication_id = publication_id, pr_commit_seq = next_seq,
           pr_durability = opt_durability options, pr_outbox_count = outbox_count, pr_replayed = False,
           pr_mutation_digest = vm_digest v\<rparr> in
     rbind (put_frame env ops (idempotency_codec env) KSnapshot next_seq ks_idempotency (idempotency_key key_digest)
              \<lparr>ip_key_digest = key_digest, ip_request_digest = vm_digest v, ip_receipt = StoredPublication receipt\<rparr> t3)
       (\<lambda>t4.
     rbind (stage_head env ops next_seq t4) (\<lambda>t5. Inr (t5, next_seq, receipt))))))))))))"

definition stage_maintenance ::
  "('o, 'm, 'x, 'w) journal_env \<Rightarrow> ('e, 's, 't) storage_engine_ops \<Rightarrow> digest \<Rightarrow> 'x validated_maintenance \<Rightarrow> uuid \<Rightarrow>
   commit_options \<Rightarrow> 'e \<Rightarrow> journal_error + 't \<times> u64 \<times> maintenance_receipt" where
  "stage_maintenance env ops key_digest v publication_id options e =
     rbind (journal_fail_if (fail_at options) AfterValidation) (\<lambda>_.
     rbind (map_err JStorage (eng_begin_write ops e)) (\<lambda>t0.
     rbind (logical_head env (eng_transaction ops) t0) (\<lambda>head.
     let mutation = vx_mutation v in
     if mnt_base (maintenance env) mutation \<noteq> head
     then Inl (JBaseSnapshotMismatch (mnt_base (maintenance env) mutation) head)
     else
     rbind (map_err JStorage (snap_get (eng_transaction ops) t0 ks_mutations (mutation_key (vx_id env v))))
       (\<lambda>existing.
     if existing \<noteq> None then Inl JIdempotencyConflict
     else
     rbind (ok_or JCommitSequenceExhausted (checked_next head)) (\<lambda>next_seq.
     if \<not> length (mnt_work (maintenance env) mutation) < 2 ^ 32
     then Inl (JCorruption ''derived-work count exceeds portable u32 range'')
     else let outbox_count = of_nat (length (mnt_work (maintenance env) mutation)) in
     rbind (put_frame env ops (mutation_codec env) KMaintenanceMutation next_seq ks_mutations (mutation_key (vx_id env v))
              \<lparr>mf_mutation_id = vx_id env v, mf_digest = vx_digest v, mf_bytes = vx_bytes v\<rparr> t0) (\<lambda>t1.
     rbind (put_frame env ops (publication_codec env) KMaintenancePublication next_seq ks_events (event_key next_seq)
              \<lparr>pf_mutation_id = vx_id env v, pf_publication_id = publication_id, pf_digest = vx_digest v,
               pf_outbox_count = outbox_count\<rparr> t1) (\<lambda>t2.
     rbind (stage_outbox env ops next_seq (vx_id env v) 0 (mnt_work (maintenance env) mutation) t2) (\<lambda>t3.
     let receipt = \<lparr>mr_mutation_id = vx_id env v, mr_publication_id = publication_id, mr_commit_seq = next_seq,
           mr_durability = opt_durability options, mr_outbox_count = outbox_count, mr_replayed = False,
           mr_mutation_digest = vx_digest v\<rparr> in
     rbind (put_frame env ops (idempotency_codec env) KSnapshot next_seq ks_idempotency (idempotency_key key_digest)
              \<lparr>ip_key_digest = key_digest, ip_request_digest = vx_digest v, ip_receipt = StoredMaintenance receipt\<rparr> t3)
       (\<lambda>t4.
     rbind (stage_head env ops next_seq t4) (\<lambda>t5. Inr (t5, next_seq, receipt)))))))))))"

section \<open>Commits\<close>

text \<open>The common end of the three commit operations.\<close>

definition finish_commit ::
  "('e, 's, 't) storage_engine_ops \<Rightarrow> commit_options \<Rightarrow> 't \<times> u64 \<times> 'p \<Rightarrow> 'e \<Rightarrow> 'e \<times> (journal_error + 'p)" where
  "finish_commit ops options staged e =
     (case staged of (transaction, next_seq, receipt) \<Rightarrow>
      if fail_at options = Some AfterStaging
      then (e, rbind (map_err JStorage (tx_rollback (eng_transaction ops) transaction))
                 (\<lambda>_. Inl (JInjectedFailure AfterStaging)))
      else case tx_commit (eng_transaction ops) (opt_durability options) transaction e of
             (e', Inl err) \<Rightarrow> (e', Inl (JStorage err))
           | (e', Inr physical) \<Rightarrow>
               (e', rbind (ensure_durability next_seq (opt_durability options) (receipt_durability physical))
                      (\<lambda>_. if fail_at options = Some AfterCommitBeforeAck then Inl (JLostResponse next_seq)
                           else Inr receipt)))"

definition accept_observation ::
  "('o, 'm, 'x, 'w) journal_env \<Rightarrow> ('e, 's, 't) storage_engine_ops \<Rightarrow> string \<Rightarrow> 'o validated_observation \<Rightarrow>
   commit_options \<Rightarrow> 'e \<Rightarrow> 'e \<times> (journal_error + observation_receipt)" where
  "accept_observation env ops idempotency v options e =
     (let key_digest = idempotency_digest env idempotency in
      case read_observation_retry env ops key_digest (vo_digest v) (opt_durability options) e of
        (e', Inl err) \<Rightarrow> (e', Inl err)
      | (e', Inr (Some receipt)) \<Rightarrow> (e', Inr receipt)
      | (e', Inr None) \<Rightarrow>
          (case stage_observation env ops key_digest v options e' of
             Inl err \<Rightarrow> (e', Inl err)
           | Inr staged \<Rightarrow> finish_commit ops options staged e'))"

definition publish_semantic ::
  "('o, 'm, 'x, 'w) journal_env \<Rightarrow> ('e, 's, 't) storage_engine_ops \<Rightarrow> string \<Rightarrow> 'm validated_mutation \<Rightarrow> uuid \<Rightarrow>
   commit_options \<Rightarrow> 'e \<Rightarrow> 'e \<times> (journal_error + publication_receipt)" where
  "publish_semantic env ops idempotency v publication_id options e =
     (let key_digest = idempotency_digest env idempotency in
      case read_publication_retry env ops key_digest (vm_digest v) (opt_durability options) e of
        (e', Inl err) \<Rightarrow> (e', Inl err)
      | (e', Inr (Some receipt)) \<Rightarrow> (e', Inr receipt)
      | (e', Inr None) \<Rightarrow>
          (case stage_semantic env ops key_digest v publication_id options e' of
             Inl err \<Rightarrow> (e', Inl err)
           | Inr staged \<Rightarrow> finish_commit ops options staged e'))"

definition publish_maintenance ::
  "('o, 'm, 'x, 'w) journal_env \<Rightarrow> ('e, 's, 't) storage_engine_ops \<Rightarrow> string \<Rightarrow> 'x validated_maintenance \<Rightarrow> uuid \<Rightarrow>
   commit_options \<Rightarrow> 'e \<Rightarrow> 'e \<times> (journal_error + maintenance_receipt)" where
  "publish_maintenance env ops idempotency v publication_id options e =
     (let key_digest = idempotency_digest env idempotency in
      case read_maintenance_retry env ops key_digest (vx_digest v) (opt_durability options) e of
        (e', Inl err) \<Rightarrow> (e', Inl err)
      | (e', Inr (Some receipt)) \<Rightarrow> (e', Inr receipt)
      | (e', Inr None) \<Rightarrow>
          (case stage_maintenance env ops key_digest v publication_id options e' of
             Inl err \<Rightarrow> (e', Inl err)
           | Inr staged \<Rightarrow> finish_commit ops options staged e'))"

section \<open>Materialising events\<close>

definition at_sequence :: "string \<Rightarrow> u64 \<Rightarrow> journal_error" where
  "at_sequence reason sequence = JCorruption (reason @ '' at sequence '' @ decimal (unat sequence))"

definition materialize_observation ::
  "('o, 'm, 'x, 'w) journal_env \<Rightarrow> ('r, 'z) read_snapshot_ops_scheme \<Rightarrow> 'r \<Rightarrow> u64 \<Rightarrow> bytes \<Rightarrow>
   journal_error + 'w journal_event" where
  "materialize_observation env rd r sequence bs =
     rbind (ok_or JSerialization (from_slice (observation_codec env) bs)) (\<lambda>payload.
     rbind (observation_from_json env (of_bytes payload)) (\<lambda>validated.
     if vo_id env validated \<noteq> of_observation_id payload \<or> vo_digest validated \<noteq> of_digest payload
     then Inl (at_sequence ''observation exact bytes or digest mismatch'' sequence)
     else
     rbind (observation_index env rd r (of_observation_id payload) sequence) (\<lambda>index.
     if dp_sequence index \<noteq> sequence \<or> ii_digest (dp_value index) \<noteq> of_digest payload
     then Inl (at_sequence ''observation index mismatch'' sequence)
     else Inr (ObservationAccepted sequence (of_observation_id payload) (of_bytes payload) (of_digest payload)))))"

text \<open>The loop that reads the outbox entries of one publication back, in index order.\<close>

fun materialize_outbox ::
  "('o, 'm, 'x, 'w) journal_env \<Rightarrow> journal_error \<Rightarrow> u64 \<Rightarrow> uuid \<Rightarrow> nat \<Rightarrow> entry list \<Rightarrow> journal_error + 'w list" where
  "materialize_outbox env mismatch sequence mutation_id expected_index [] = Inr []"
| "materialize_outbox env mismatch sequence mutation_id expected_index (entry # entries) =
     rbind (decode env (outbox_codec env) KOutbox sequence (entry_value entry)) (\<lambda>payload.
     if ob_mutation_id payload \<noteq> mutation_id \<or> unat (ob_index payload) \<noteq> expected_index
        \<or> entry_key entry \<noteq> outbox_key sequence (ob_index payload)
     then Inl mismatch
     else rbind (materialize_outbox env mismatch sequence mutation_id (Suc expected_index) entries)
            (\<lambda>works. Inr (ob_work payload # works)))"

definition materialize_semantic ::
  "('o, 'm, 'x, 'w) journal_env \<Rightarrow> ('r, 'z) read_snapshot_ops_scheme \<Rightarrow> 'r \<Rightarrow> u64 \<Rightarrow> bytes \<Rightarrow>
   journal_error + 'w journal_event" where
  "materialize_semantic env rd r sequence bs =
     rbind (ok_or JSerialization (from_slice (publication_codec env) bs)) (\<lambda>publication.
     rbind (map_err JStorage (snap_get rd r ks_mutations (mutation_key (pf_mutation_id publication)))) (\<lambda>found.
     rbind (ok_or (JCorruption (''publication at sequence '' @ decimal (unat sequence) @ '' has no exact mutation frame''))
              found) (\<lambda>mutation_bytes.
     rbind (decode env (mutation_codec env) KSemanticMutation sequence mutation_bytes) (\<lambda>mutation.
     rbind (mutation_from_json env (mf_bytes mutation)) (\<lambda>validated.
     if mf_mutation_id mutation \<noteq> pf_mutation_id publication \<or> mf_digest mutation \<noteq> pf_digest publication
        \<or> vm_id env validated \<noteq> pf_mutation_id publication \<or> vm_digest validated \<noteq> pf_digest publication
     then Inl (at_sequence ''publication mutation bytes or digest mismatch'' sequence)
     else if sequence = 0 then Inl (JCorruption ''semantic publication cannot occur at genesis'')
     else let expected_base = sequence - 1 in
     if mut_base (semantic env) (vm_mutation validated) \<noteq> expected_base
     then Inl (at_sequence ''semantic publication base mismatch'' sequence)
     else
     rbind (rall (validate_observation_reference env rd r expected_base)
              (mut_refs (semantic env) (vm_mutation validated))) (\<lambda>_.
     rbind (map_err JStorage (snap_scan_prefix rd r ks_outbox (outbox_sequence_prefix sequence))) (\<lambda>entries.
     if length entries \<noteq> unat (pf_outbox_count publication)
     then Inl (at_sequence ''publication outbox is incomplete'' sequence)
     else
     rbind (materialize_outbox env (at_sequence ''publication outbox ordering mismatch'' sequence) sequence
              (pf_mutation_id publication) 0 entries) (\<lambda>outbox.
     if outbox \<noteq> mut_work (semantic env) (vm_mutation validated)
     then Inl (at_sequence ''publication outbox content mismatch'' sequence)
     else Inr (SemanticPublished sequence (pf_mutation_id publication) (pf_publication_id publication)
                 (mf_bytes mutation) (pf_digest publication) outbox)))))))))"

definition materialize_maintenance ::
  "('o, 'm, 'x, 'w) journal_env \<Rightarrow> ('r, 'z) read_snapshot_ops_scheme \<Rightarrow> 'r \<Rightarrow> u64 \<Rightarrow> bytes \<Rightarrow>
   journal_error + 'w journal_event" where
  "materialize_maintenance env rd r sequence bs =
     rbind (ok_or JSerialization (from_slice (publication_codec env) bs)) (\<lambda>publication.
     rbind (map_err JStorage (snap_get rd r ks_mutations (mutation_key (pf_mutation_id publication)))) (\<lambda>found.
     rbind (ok_or (JCorruption (''maintenance publication at sequence '' @ decimal (unat sequence) @ '' has no exact frame''))
              found) (\<lambda>mutation_bytes.
     rbind (decode env (mutation_codec env) KMaintenanceMutation sequence mutation_bytes) (\<lambda>mutation.
     rbind (maintenance_from_json env (mf_bytes mutation)) (\<lambda>validated.
     if mf_mutation_id mutation \<noteq> pf_mutation_id publication \<or> mf_digest mutation \<noteq> pf_digest publication
        \<or> vx_id env validated \<noteq> pf_mutation_id publication \<or> vx_digest validated \<noteq> pf_digest publication
     then Inl (at_sequence ''maintenance mutation bytes or digest mismatch'' sequence)
     else if sequence = 0 then Inl (JCorruption ''maintenance publication cannot occur at genesis'')
     else let expected_base = sequence - 1 in
     if mnt_base (maintenance env) (vx_mutation validated) \<noteq> expected_base
     then Inl (at_sequence ''maintenance publication base mismatch'' sequence)
     else
     rbind (map_err JStorage (snap_scan_prefix rd r ks_outbox (outbox_sequence_prefix sequence))) (\<lambda>entries.
     if length entries \<noteq> unat (pf_outbox_count publication)
     then Inl (at_sequence ''maintenance publication outbox is incomplete'' sequence)
     else
     rbind (materialize_outbox env (at_sequence ''maintenance outbox ordering mismatch'' sequence) sequence
              (pf_mutation_id publication) 0 entries) (\<lambda>outbox.
     if outbox \<noteq> mnt_work (maintenance env) (vx_mutation validated)
     then Inl (at_sequence ''maintenance outbox content mismatch'' sequence)
     else Inr (MaintenancePublished sequence (pf_mutation_id publication) (pf_publication_id publication)
                 (mf_bytes mutation) (pf_digest publication) outbox))))))))"

definition materialize_event ::
  "('o, 'm, 'x, 'w) journal_env \<Rightarrow> ('r, 'z) read_snapshot_ops_scheme \<Rightarrow> 'r \<Rightarrow> u64 \<Rightarrow> bytes \<Rightarrow>
   journal_error + 'w journal_event" where
  "materialize_event env rd r sequence bs =
     rbind (map_err JFormat (envelope_decode (blake3 env) bs)) (\<lambda>record.
     let envelope = dec_envelope record in
     if env_schema envelope \<noteq> SCHEMA_VERSION \<or> env_flags envelope \<noteq> 0 \<or> env_seq envelope \<noteq> sequence
     then Inl (at_sequence ''event envelope metadata is invalid'' sequence)
     else if env_kind envelope = record_kind_u16 KObservation
     then materialize_observation env rd r sequence (dec_payload record)
     else if env_kind envelope = record_kind_u16 KSemanticPublication
     then materialize_semantic env rd r sequence (dec_payload record)
     else if env_kind envelope = record_kind_u16 KMaintenancePublication
     then materialize_maintenance env rd r sequence (dec_payload record)
     else Inl (at_sequence (''unsupported logical event kind '' @ decimal (unat (env_kind envelope))) sequence))"

section \<open>Snapshots and replay\<close>

fun snapshot_events ::
  "('o, 'm, 'x, 'w) journal_env \<Rightarrow> ('r, 'z) read_snapshot_ops_scheme \<Rightarrow> 'r \<Rightarrow> u64 \<Rightarrow> u64 \<Rightarrow> entry list \<Rightarrow>
   journal_error + 'w journal_event list" where
  "snapshot_events env rd r requested expected [] = Inr []"
| "snapshot_events env rd r requested expected (entry # entries) =
     rbind (ok_or (JCorruption ''journal event has a malformed ordered key'')
              (sequence_from_key (entry_key entry) EVENT_PREFIX 0)) (\<lambda>sequence.
     if sequence > requested then snapshot_events env rd r requested expected entries
     else if sequence \<noteq> expected
     then Inl (JCorruption (''logical journal is not contiguous: expected '' @ decimal (unat expected)
                @ '', found '' @ decimal (unat sequence)))
     else rbind (materialize_event env rd r sequence (entry_value entry)) (\<lambda>event.
          rbind (snapshot_events env rd r requested (saturating_inc expected) entries) (\<lambda>events.
          Inr (event # events))))"

definition snapshot ::
  "('o, 'm, 'x, 'w) journal_env \<Rightarrow> ('e, 's, 't) storage_engine_ops \<Rightarrow> journal_snapshot_selector \<Rightarrow> 'e \<Rightarrow>
   journal_error + 'w journal_snapshot" where
  "snapshot env ops selector e =
     rbind (map_err JStorage (eng_begin_read ops Latest e)) (\<lambda>r.
     rbind (logical_head env (eng_snapshot ops) r) (\<lambda>head.
     rbind (case selector of
              JLatest \<Rightarrow> Inr head
            | JAt sequence \<Rightarrow> if sequence > head then Inl (JSnapshotUnavailable sequence head) else Inr sequence)
       (\<lambda>requested.
     rbind (map_err JStorage (snap_scan_prefix (eng_snapshot ops) r ks_events EVENT_PREFIX)) (\<lambda>entries.
     rbind (snapshot_events env (eng_snapshot ops) r requested 1 entries) (\<lambda>events.
     if length events \<noteq> unat requested
     then Inl (JCorruption (''logical head '' @ decimal (unat requested) @ '' names '' @ decimal (unat requested)
                @ '' events but '' @ decimal (length events) @ '' were materialized''))
     else Inr \<lparr>js_commit_seq = requested, js_storage_sequence = snap_sequence (eng_snapshot ops) r,
               js_events = events\<rparr>)))))"

definition replay_mutations ::
  "('o, 'm, 'x, 'w) journal_env \<Rightarrow> ('e, 's, 't) storage_engine_ops \<Rightarrow> journal_snapshot_selector \<Rightarrow> 'e \<Rightarrow>
   journal_error + replay_mutation list" where
  "replay_mutations env ops selector e =
     rbind (snapshot env ops selector e) (\<lambda>snap.
     Inr (List.map_filter (\<lambda>event. case event of
            SemanticPublished seq m p bs d ws \<Rightarrow>
              Some \<lparr>rm_commit_seq = seq, rm_mutation_id = m, rm_digest = d, rm_bytes = bs\<rparr>
          | _ \<Rightarrow> None) (js_events snap)))"

definition replay_maintenance ::
  "('o, 'm, 'x, 'w) journal_env \<Rightarrow> ('e, 's, 't) storage_engine_ops \<Rightarrow> journal_snapshot_selector \<Rightarrow> 'e \<Rightarrow>
   journal_error + replay_mutation list" where
  "replay_maintenance env ops selector e =
     rbind (snapshot env ops selector e) (\<lambda>snap.
     Inr (List.map_filter (\<lambda>event. case event of
            MaintenancePublished seq m p bs d ws \<Rightarrow>
              Some \<lparr>rm_commit_seq = seq, rm_mutation_id = m, rm_digest = d, rm_bytes = bs\<rparr>
          | _ \<Rightarrow> None) (js_events snap)))"

section \<open>Recovery\<close>

fun collect_keyed_tail ::
  "keyspace \<Rightarrow> bytes \<Rightarrow> nat \<Rightarrow> u64 \<Rightarrow> entry list \<Rightarrow> journal_error + (keyspace \<times> bytes) list" where
  "collect_keyed_tail ks prefix suffix_len head [] = Inr []"
| "collect_keyed_tail ks prefix suffix_len head (entry # entries) =
     rbind (ok_or (JCorruption ''ordered journal key has invalid shape'')
              (sequence_from_key (entry_key entry) prefix suffix_len)) (\<lambda>sequence.
     rbind (collect_keyed_tail ks prefix suffix_len head entries) (\<lambda>rest.
     Inr (if sequence > head then (ks, entry_key entry) # rest else rest)))"

fun collect_framed_tail ::
  "('o, 'm, 'x, 'w) journal_env \<Rightarrow> keyspace \<Rightarrow> u64 \<Rightarrow> entry list \<Rightarrow> journal_error + (keyspace \<times> bytes) list" where
  "collect_framed_tail env ks head [] = Inr []"
| "collect_framed_tail env ks head (entry # entries) =
     rbind (map_err JFormat (envelope_decode (blake3 env) (entry_value entry))) (\<lambda>record.
     rbind (collect_framed_tail env ks head entries) (\<lambda>rest.
     Inr (if env_seq (dec_envelope record) > head then (ks, entry_key entry) # rest else rest)))"

text \<open>The five scans of \<open>recover\<close>, in order.\<close>

definition collect_tails ::
  "('o, 'm, 'x, 'w) journal_env \<Rightarrow> ('r, 'z) read_snapshot_ops_scheme \<Rightarrow> 'r \<Rightarrow> u64 \<Rightarrow>
   journal_error + (keyspace \<times> bytes) list" where
  "collect_tails env rd r head =
     rbind (rbind (map_err JStorage (snap_scan_prefix rd r ks_events EVENT_PREFIX))
              (collect_keyed_tail ks_events EVENT_PREFIX 0 head)) (\<lambda>d1.
     rbind (rbind (map_err JStorage (snap_scan_prefix rd r ks_outbox OUTBOX_PREFIX))
              (collect_keyed_tail ks_outbox OUTBOX_PREFIX 4 head)) (\<lambda>d2.
     rbind (rbind (map_err JStorage (snap_scan_prefix rd r ks_mutations MUTATION_PREFIX))
              (collect_framed_tail env ks_mutations head)) (\<lambda>d3.
     rbind (rbind (map_err JStorage (snap_scan_prefix rd r ks_observations OBSERVATION_PREFIX))
              (collect_framed_tail env ks_observations head)) (\<lambda>d4.
     rbind (rbind (map_err JStorage (snap_scan_prefix rd r ks_idempotency IDEMPOTENCY_PREFIX))
              (collect_framed_tail env ks_idempotency head)) (\<lambda>d5.
     Inr (d1 @ d2 @ d3 @ d4 @ d5))))))"

fun delete_all ::
  "('e, 's, 't) storage_engine_ops \<Rightarrow> (keyspace \<times> bytes) list \<Rightarrow> 't \<Rightarrow> journal_error + 't" where
  "delete_all ops [] transaction = Inr transaction"
| "delete_all ops ((ks, key) # deletions) transaction =
     rbind (map_err JStorage (tx_delete (eng_transaction ops) ks key transaction)) (delete_all ops deletions)"

text \<open>The cleanup transaction: nothing to do, or one synchronized commit.\<close>

definition remove_tail ::
  "('e, 's, 't) storage_engine_ops \<Rightarrow> u64 \<Rightarrow> (keyspace \<times> bytes) list \<Rightarrow> 'e \<Rightarrow> 'e \<times> (journal_error + unit)" where
  "remove_tail ops head deletions e =
     (if deletions = [] then (e, Inr ())
      else case rbind (map_err JStorage (eng_begin_write ops e)) (delete_all ops deletions) of
             Inl err \<Rightarrow> (e, Inl err)
           | Inr transaction \<Rightarrow>
               (case tx_commit (eng_transaction ops) Sync transaction e of
                  (e', Inl err) \<Rightarrow> (e', Inl (JStorage err))
                | (e', Inr receipt) \<Rightarrow>
                    (e', if receipt_durability receipt \<noteq> Sync
                         then Inl (JDurabilityNotAchieved head Sync (receipt_durability receipt)) else Inr ())))"

definition u64_len :: "nat \<Rightarrow> u64" where
  "u64_len n = (if n < 2 ^ 64 then of_nat n else -1)"

definition recover ::
  "('o, 'm, 'x, 'w) journal_env \<Rightarrow> ('e, 's, 't) storage_engine_ops \<Rightarrow> 'e \<Rightarrow> 'e \<times> (journal_error + recovery_report)" where
  "recover env ops e =
     (case rbind (map_err JStorage (eng_begin_read ops Latest e)) (\<lambda>r.
           rbind (logical_head env (eng_snapshot ops) r) (\<lambda>head.
           rbind (collect_tails env (eng_snapshot ops) r head) (\<lambda>deletions. Inr (head, deletions)))) of
        Inl err \<Rightarrow> (e, Inl err)
      | Inr (head, deletions) \<Rightarrow>
          (case remove_tail ops head deletions e of
             (e', Inl err) \<Rightarrow> (e', Inl err)
           | (e', Inr _) \<Rightarrow>
               let removed = u64_len (length deletions) in
               (e', rbind (snapshot env ops JLatest e') (\<lambda>validated.
                    Inr \<lparr>rr_commit_seq = js_commit_seq validated,
                         rr_storage_sequence = js_storage_sequence validated, rr_removed = removed,
                         rr_warnings = (if deletions = [] then []
                           else [''removed '' @ decimal (unat removed) @ '' unpublished tail records''])\<rparr>))))"

text \<open>\<open>JournalCoordinator::new\<close> opens an engine by recovering it.\<close>

definition coordinator_new ::
  "('o, 'm, 'x, 'w) journal_env \<Rightarrow> ('e, 's, 't) storage_engine_ops \<Rightarrow> 'e \<Rightarrow> 'e \<times> (journal_error + unit)" where
  "coordinator_new env ops e = (case recover env ops e of (e', r) \<Rightarrow> (e', rbind r (\<lambda>_. Inr ())))"

section \<open>Verification\<close>

definition verify_idempotency_entry ::
  "('o, 'm, 'x, 'w) journal_env \<Rightarrow> u64 \<Rightarrow> entry \<Rightarrow> journal_error + unit" where
  "verify_idempotency_entry env head entry =
     rbind (decode_any env (idempotency_codec env) KSnapshot (entry_value entry)) (\<lambda>record.
     if dp_sequence record > head
     then Inl (JCorruption ''idempotency record exists beyond logical head'')
     else if idempotency_key (ip_key_digest (dp_value record)) \<noteq> entry_key entry
     then Inl (JCorruption ''idempotency record key digest mismatch'')
     else Inr ())"

definition verify_outbox_entry ::
  "('o, 'm, 'x, 'w) journal_env \<Rightarrow> entry \<Rightarrow> journal_error + unit" where
  "verify_outbox_entry env entry =
     rbind (ok_or (JCorruption ''outbox record has malformed ordered key'')
              (sequence_from_key (entry_key entry) OUTBOX_PREFIX 4)) (\<lambda>sequence.
     rbind (decode env (outbox_codec env) KOutbox sequence (entry_value entry)) (\<lambda>_. Inr ()))"

fun event_outbox_len :: "'w journal_event \<Rightarrow> nat" where
  "event_outbox_len (ObservationAccepted seq i b d) = 0"
| "event_outbox_len (SemanticPublished seq m p b d ws) = length ws"
| "event_outbox_len (MaintenancePublished seq m p b d ws) = length ws"

fun expected_outbox :: "'w journal_event list \<Rightarrow> u64 \<Rightarrow> journal_error + u64" where
  "expected_outbox [] count = Inr count"
| "expected_outbox (event # events) count =
     (if event_outbox_len event < 2 ^ 64
      then rbind (ok_or (JCorruption ''outbox count overflow'')
                   (checked_add_word count (of_nat (event_outbox_len event)))) (expected_outbox events)
      else Inl (JCorruption ''outbox length exceeds u64''))"

definition verify_journal ::
  "('o, 'm, 'x, 'w) journal_env \<Rightarrow> ('e, 's, 't) storage_engine_ops \<Rightarrow> verify_mode \<Rightarrow> 'e \<Rightarrow>
   journal_error + journal_verify_report" where
  "verify_journal env ops mode e =
     rbind (map_err JStorage (eng_verify ops mode e)) (\<lambda>physical.
     rbind (snapshot env ops JLatest e) (\<lambda>logical.
     rbind (map_err JStorage (eng_begin_read ops Latest e)) (\<lambda>r.
     rbind (map_err JStorage (snap_scan_prefix (eng_snapshot ops) r ks_idempotency IDEMPOTENCY_PREFIX)) (\<lambda>idempotency.
     rbind (rall (verify_idempotency_entry env (js_commit_seq logical)) idempotency) (\<lambda>_.
     rbind (map_err JStorage (snap_scan_prefix (eng_snapshot ops) r ks_outbox OUTBOX_PREFIX)) (\<lambda>outbox.
     rbind (rall (verify_outbox_entry env) outbox) (\<lambda>_.
     rbind (expected_outbox (js_events logical) 0) (\<lambda>expected.
     if expected \<noteq> u64_len (length outbox)
     then Inl (JCorruption ''materialized outbox count does not match durable frames'')
     else if length (js_events logical) \<noteq> length idempotency
     then Inl (JCorruption ''logical event and idempotency receipt counts differ'')
     else Inr \<lparr>jv_mode = mode, jv_commit_seq = js_commit_seq logical,
               jv_storage_sequence = report_sequence physical,
               jv_events = u64_len (length (js_events logical)), jv_outbox = u64_len (length outbox),
               jv_idempotency = u64_len (length idempotency), jv_warnings = report_warnings physical\<rparr>))))))))"

section \<open>Portable backups\<close>

definition portable_keyspaces :: "(string \<times> keyspace) list" where
  "portable_keyspaces =
     [(''journal_meta'', ks_meta), (''semantic_journal'', ks_events), (''journal_outbox'', ks_outbox),
      (''journal_idempotency'', ks_idempotency), (''journal_observation'', ks_observations),
      (''journal_mutation'', ks_mutations)]"

definition portable_keyspace :: "string \<Rightarrow> keyspace option" where
  "portable_keyspace name = map_of portable_keyspaces name"

definition count_records :: "nat \<Rightarrow> u64 \<Rightarrow> journal_error + u64" where
  "count_records n records =
     (if n < 2 ^ 64
      then ok_or (JInvalidBackup ''record count overflow'') (checked_add_word records (of_nat n))
      else Inl (JInvalidBackup ''record count exceeds portable u64 range''))"

fun backup_sections ::
  "('r, 'z) read_snapshot_ops_scheme \<Rightarrow> 'r \<Rightarrow> (string \<times> keyspace) list \<Rightarrow> u64 \<Rightarrow>
   journal_error + backup_section list \<times> u64" where
  "backup_sections rd r [] records = Inr ([], records)"
| "backup_sections rd r ((name, ks) # rest) records =
     rbind (map_err JStorage (snap_scan_prefix rd r ks [])) (\<lambda>entries.
     rbind (count_records (length entries) records) (\<lambda>records'.
     rbind (backup_sections rd r rest records') (\<lambda>(sections, total_records).
     Inr (\<lparr>bs_name = name, bs_entries = entries\<rparr> # sections, total_records))))"

definition create_backup ::
  "('o, 'm, 'x, 'w) journal_env \<Rightarrow> ('e, 's, 't) storage_engine_ops \<Rightarrow> 'e \<Rightarrow> journal_error + portable_backup" where
  "create_backup env ops e =
     rbind (verify_journal env ops Deep e) (\<lambda>verified.
     rbind (map_err JStorage (eng_begin_read ops Latest e)) (\<lambda>r.
     rbind (backup_sections (eng_snapshot ops) r portable_keyspaces 0) (\<lambda>(sections, records).
     rbind (ok_or JSerialization (to_vec (backup_codec env)
              \<lparr>bp_schema = BACKUP_SCHEMA_VERSION, bp_commit_seq = jv_commit_seq verified, bp_records = records,
               bp_sections = sections\<rparr>)) (\<lambda>payload.
     Inr \<lparr>pb_schema = BACKUP_SCHEMA_VERSION, pb_commit_seq = jv_commit_seq verified, pb_records = records,
          pb_digest = blake3 env payload, pb_payload = payload\<rparr>))))"

text \<open>\<open>windows(2).any(|pair| pair[0].key >= pair[1].key)\<close>, negated.\<close>

fun keys_increase :: "entry list \<Rightarrow> bool" where
  "keys_increase (a # b # entries) = (entry_key a < entry_key b \<and> keys_increase (b # entries))"
| "keys_increase entries = True"

definition backup_entry_sequence ::
  "('o, 'm, 'x, 'w) journal_env \<Rightarrow> string \<Rightarrow> entry \<Rightarrow> journal_error + u64 option" where
  "backup_entry_sequence env name entry =
     (if name = ''semantic_journal'' then Inr (sequence_from_key (entry_key entry) EVENT_PREFIX 0)
      else if name = ''journal_outbox'' then Inr (sequence_from_key (entry_key entry) OUTBOX_PREFIX 4)
      else if name = ''journal_mutation'' \<or> name = ''journal_observation'' \<or> name = ''journal_idempotency''
      then (case envelope_decode (blake3 env) (entry_value entry) of
              Inl e \<Rightarrow> Inl (JInvalidBackup (''backup '' @ name @ '' entry is not a valid framed record''))
            | Inr record \<Rightarrow> Inr (Some (env_seq (dec_envelope record))))
      else Inr None)"

definition validate_backup_entry ::
  "('o, 'm, 'x, 'w) journal_env \<Rightarrow> string \<Rightarrow> u64 \<Rightarrow> entry \<Rightarrow> journal_error + unit" where
  "validate_backup_entry env name commit_seq entry =
     rbind (backup_entry_sequence env name entry) (\<lambda>sequence.
     if (name = ''semantic_journal'' \<or> name = ''journal_outbox'') \<and> sequence = None
     then Inl (JInvalidBackup (''backup '' @ name @ '' entry key has invalid ordered shape''))
     else if (case sequence of None \<Rightarrow> False | Some value \<Rightarrow> value > commit_seq)
     then Inl (JInvalidBackup (''backup '' @ name @ '' contains an unpublished tail record''))
     else Inr ())"

fun validate_sections ::
  "('o, 'm, 'x, 'w) journal_env \<Rightarrow> u64 \<Rightarrow> backup_section list \<Rightarrow> u64 \<Rightarrow> journal_error + u64" where
  "validate_sections env commit_seq [] records = Inr records"
| "validate_sections env commit_seq (section # sections) records =
     (if \<not> keys_increase (bs_entries section) \<or> list_ex (\<lambda>entry. entry_key entry = []) (bs_entries section)
      then Inl (JInvalidBackup ''backup keys are empty, duplicated, or not bytewise ordered'')
      else rbind (count_records (length (bs_entries section)) records) (\<lambda>records'.
           rbind (rall (validate_backup_entry env (bs_name section) commit_seq) (bs_entries section)) (\<lambda>_.
           validate_sections env commit_seq sections records')))"

definition validate_backup_payload ::
  "('o, 'm, 'x, 'w) journal_env \<Rightarrow> backup_payload \<Rightarrow> portable_backup \<Rightarrow> journal_error + unit" where
  "validate_backup_payload env payload container =
     (if bp_schema payload \<noteq> BACKUP_SCHEMA_VERSION \<or> bp_commit_seq payload \<noteq> pb_commit_seq container
         \<or> bp_records payload \<noteq> pb_records container
      then Inl (JInvalidBackup ''payload metadata differs from container manifest'')
      else if map bs_name (bp_sections payload) \<noteq> map fst portable_keyspaces
      then Inl (JInvalidBackup ''portable keyspace manifest is missing, duplicated, or reordered'')
      else rbind (validate_sections env (bp_commit_seq payload) (bp_sections payload) 0) (\<lambda>records.
           if records \<noteq> bp_records payload then Inl (JInvalidBackup ''payload record count mismatch'')
           else Inr ()))"

definition target_is_empty ::
  "('r, 'z) read_snapshot_ops_scheme \<Rightarrow> 'r \<Rightarrow> journal_error + unit" where
  "target_is_empty rd r =
     rall (\<lambda>(name, ks). rbind (map_err JStorage (snap_scan_prefix rd r ks []))
             (\<lambda>entries. if entries \<noteq> [] then Inl JRestoreTargetNotEmpty else Inr ())) portable_keyspaces"

fun put_entries ::
  "('e, 's, 't) storage_engine_ops \<Rightarrow> keyspace \<Rightarrow> entry list \<Rightarrow> 't \<Rightarrow> journal_error + 't" where
  "put_entries ops ks [] transaction = Inr transaction"
| "put_entries ops ks (entry # entries) transaction =
     rbind (map_err JStorage (tx_put (eng_transaction ops) ks (entry_key entry) (entry_value entry) transaction))
       (put_entries ops ks entries)"

fun install_sections ::
  "('e, 's, 't) storage_engine_ops \<Rightarrow> backup_section list \<Rightarrow> 't \<Rightarrow> journal_error + 't" where
  "install_sections ops [] transaction = Inr transaction"
| "install_sections ops (section # sections) transaction =
     rbind (ok_or (JInvalidBackup ''backup contains an unknown keyspace'') (portable_keyspace (bs_name section)))
       (\<lambda>ks. rbind (put_entries ops ks (bs_entries section) transaction) (install_sections ops sections))"

text \<open>The checks and the staged transaction of \<open>restore_backup\<close>, up to its commit.\<close>

definition stage_restore ::
  "('o, 'm, 'x, 'w) journal_env \<Rightarrow> ('e, 's, 't) storage_engine_ops \<Rightarrow> portable_backup \<Rightarrow> 'e \<Rightarrow>
   journal_error + 't \<times> u64" where
  "stage_restore env ops backup e =
     (if pb_schema backup \<noteq> BACKUP_SCHEMA_VERSION \<or> pb_digest backup \<noteq> blake3 env (pb_payload backup)
      then Inl (JInvalidBackup ''container schema or payload digest mismatch'')
      else
      rbind (ok_or JSerialization (from_slice (backup_codec env) (pb_payload backup))) (\<lambda>payload.
      rbind (validate_backup_payload env payload backup) (\<lambda>_.
      rbind (map_err JStorage (eng_begin_read ops Latest e)) (\<lambda>target.
      rbind (target_is_empty (eng_snapshot ops) target) (\<lambda>_.
      rbind (map_err JStorage (eng_begin_write ops e)) (\<lambda>t0.
      rbind (install_sections ops (bp_sections payload) t0) (\<lambda>t1. Inr (t1, bp_commit_seq payload))))))))"

text \<open>The checks of the installed journal after the restore has been committed.\<close>

definition check_restored ::
  "('o, 'm, 'x, 'w) journal_env \<Rightarrow> ('e, 's, 't) storage_engine_ops \<Rightarrow> portable_backup \<Rightarrow> u64 \<Rightarrow> u64 \<Rightarrow> 'e \<Rightarrow>
   'e \<times> (journal_error + restore_report)" where
  "check_restored env ops backup commit_seq storage_sequence e =
     (case recover env ops e of
        (e', Inl err) \<Rightarrow> (e', Inl err)
      | (e', Inr recovery) \<Rightarrow>
          (e', if rr_removed recovery \<noteq> 0
               then Inl (JInvalidBackup ''restore input required unpublished-tail recovery'')
               else rbind (verify_journal env ops Deep e') (\<lambda>verified.
                    if rr_commit_seq recovery \<noteq> commit_seq \<or> jv_commit_seq verified \<noteq> commit_seq
                    then Inl (JInvalidBackup ''restored logical head differs from backup manifest'')
                    else rbind (create_backup env ops e') (\<lambda>installed.
                         if installed \<noteq> backup
                         then Inl (JInvalidBackup ''installed journal differs from the exact backup manifest'')
                         else Inr \<lparr>rs_commit_seq = pb_commit_seq installed, rs_records = pb_records installed,
                                   rs_digest = pb_digest installed, rs_storage_sequence = storage_sequence\<rparr>))))"

definition restore_backup ::
  "('o, 'm, 'x, 'w) journal_env \<Rightarrow> ('e, 's, 't) storage_engine_ops \<Rightarrow> portable_backup \<Rightarrow> 'e \<Rightarrow>
   'e \<times> (journal_error + restore_report)" where
  "restore_backup env ops backup e =
     (case coordinator_new env ops e of
        (e1, Inl err) \<Rightarrow> (e1, Inl err)
      | (e1, Inr _) \<Rightarrow>
          (case stage_restore env ops backup e1 of
             Inl err \<Rightarrow> (e1, Inl err)
           | Inr (transaction, commit_seq) \<Rightarrow>
               (case tx_commit (eng_transaction ops) Sync transaction e1 of
                  (e2, Inl err) \<Rightarrow> (e2, Inl (JStorage err))
                | (e2, Inr receipt) \<Rightarrow>
                    (case ensure_durability commit_seq Sync (receipt_durability receipt) of
                       Inl err \<Rightarrow> (e2, Inl err)
                     | Inr _ \<Rightarrow> check_restored env ops backup commit_seq (receipt_sequence receipt) e2))))"

end
