(* ===== verification/Memory_Storage.thy ===== *)
theory Memory_Storage
  imports Storage_Contract
begin

text \<open>
  The in-memory multi-version backend, \<open>crates/contextdb-storage-memory/src/lib.rs\<close>. The state
  behind the lock is a record of the head sequence and of every retained version of the tables; a
  snapshot is one retained version, a transaction a base snapshot and a map of staged changes.
  The theory shows that the backend meets the contract of \<open>Storage_Contract\<close>, that a scan inside
  a transaction sees exactly what a commit would publish, that retained snapshots never change,
  and that of two transactions with one base at most one commits.
\<close>

section \<open>Model\<close>

type_synonym table = "(bytes, bytes) btree_map"
type_synonym tables = "(string, table) btree_map"

record mem_state =
  mem_head :: u64
  mem_retained :: "(u64, tables) btree_map"

definition memory_new :: mem_state where
  "memory_new = \<lparr>mem_head = 0, mem_retained = bt_insert 0 [] []\<rparr>"

record mem_snapshot =
  ms_sequence :: u64
  ms_tables :: tables

definition mem_get :: "mem_snapshot \<Rightarrow> keyspace \<Rightarrow> bytes \<Rightarrow> storage_error + bytes option" where
  "mem_get s ks key =
     Inr (case bt_get (ms_tables s) (as_str ks) of None \<Rightarrow> None | Some table \<Rightarrow> bt_get table key)"

text \<open>\<open>BTreeMap::range\<close> from the cursor (excluded) or the prefix (included), as entries.\<close>

definition table_range :: "scan_page_request \<Rightarrow> table \<Rightarrow> (storage_error + entry) list" where
  "table_range r table =
     map (\<lambda>(k, v). Inr (Entry k v))
       (filter (\<lambda>(k, v). case start_after r of Some s \<Rightarrow> s < k | None \<Rightarrow> req_prefix r \<le> k) table)"

definition mem_scan_prefix_page ::
  "mem_snapshot \<Rightarrow> keyspace \<Rightarrow> scan_page_request \<Rightarrow> storage_error + scan_page" where
  "mem_scan_prefix_page s ks r =
     (case bt_get (ms_tables s) (as_str ks) of
        None \<Rightarrow> rbind (scan_request_validate r)
                  (\<lambda>_. Inr \<lparr>page_entries = [], continuation = None\<rparr>)
      | Some table \<Rightarrow> collect_scan_page r (table_range r table))"

definition mem_scan_prefix :: "mem_snapshot \<Rightarrow> keyspace \<Rightarrow> bytes \<Rightarrow> storage_error + entry list" where
  "mem_scan_prefix s ks prefix = collect_prefix_pages (mem_scan_prefix_page s ks) prefix"

datatype change = ChangePut bytes | ChangeDelete

record mem_transaction =
  mt_base :: mem_snapshot
  mt_changes :: "((string \<times> bytes) \<times> change) list"

definition mem_tx_get ::
  "mem_transaction \<Rightarrow> keyspace \<Rightarrow> bytes \<Rightarrow> storage_error + bytes option" where
  "mem_tx_get t ks key =
     (case map_of (mt_changes t) (as_str ks, key) of
        Some (ChangePut value) \<Rightarrow> Inr (Some value)
      | Some ChangeDelete \<Rightarrow> Inr None
      | None \<Rightarrow> mem_get (mt_base t) ks key)"

text \<open>
  The iterator of \<open>merge_staged\<close>: the entries of the base table and the staged changes, both in
  key order, with a staged change replacing or hiding the base entry of its key.
\<close>

fun merge_staged ::
  "(storage_error + entry) list \<Rightarrow> (bytes \<times> change) list \<Rightarrow> (storage_error + entry) list" where
  "merge_staged [] [] = []"
| "merge_staged (Inl e # base) staged = Inl e # merge_staged base staged"
| "merge_staged (Inr entry # base) [] = Inr entry # merge_staged base []"
| "merge_staged [] ((key, change) # staged) =
     (case change of
        ChangePut value \<Rightarrow> Inr (Entry key value) # merge_staged [] staged
      | ChangeDelete \<Rightarrow> merge_staged [] staged)"
| "merge_staged (Inr entry # base) ((key, change) # staged) =
     (if entry_key entry < key then Inr entry # merge_staged base ((key, change) # staged)
      else if entry_key entry = key
      then (case change of
              ChangePut value \<Rightarrow> Inr (Entry key value) # merge_staged base staged
            | ChangeDelete \<Rightarrow> merge_staged base staged)
      else (case change of
              ChangePut value \<Rightarrow> Inr (Entry key value) # merge_staged (Inr entry # base) staged
            | ChangeDelete \<Rightarrow> merge_staged (Inr entry # base) staged))"

definition staged_changes ::
  "mem_transaction \<Rightarrow> keyspace \<Rightarrow> scan_page_request \<Rightarrow> (bytes \<times> change) list" where
  "staged_changes t ks r =
     sort_key fst
       (map (\<lambda>((space, key), change). (key, change))
         (filter (\<lambda>((space, key), change). space = as_str ks \<and> starts_with key (req_prefix r)
              \<and> (case start_after r of None \<Rightarrow> True | Some s \<Rightarrow> s < key))
            (mt_changes t)))"

definition mem_tx_scan_prefix_page ::
  "mem_transaction \<Rightarrow> keyspace \<Rightarrow> scan_page_request \<Rightarrow> storage_error + scan_page" where
  "mem_tx_scan_prefix_page t ks r =
     rbind (scan_request_validate r)
       (\<lambda>_. let base = (case bt_get (ms_tables (mt_base t)) (as_str ks) of
                          None \<Rightarrow> [] | Some table \<Rightarrow> table_range r table)
            in collect_scan_page r (merge_staged base (staged_changes t ks r)))"

definition mem_tx_scan_prefix ::
  "mem_transaction \<Rightarrow> keyspace \<Rightarrow> bytes \<Rightarrow> storage_error + entry list" where
  "mem_tx_scan_prefix t ks prefix = collect_prefix_pages (mem_tx_scan_prefix_page t ks) prefix"

definition mem_tx_put ::
  "keyspace \<Rightarrow> bytes \<Rightarrow> bytes \<Rightarrow> mem_transaction \<Rightarrow> storage_error + mem_transaction" where
  "mem_tx_put ks key value t =
     Inr (t\<lparr>mt_changes := hm_insert (as_str ks, key) (ChangePut value) (mt_changes t)\<rparr>)"

definition mem_tx_delete ::
  "keyspace \<Rightarrow> bytes \<Rightarrow> mem_transaction \<Rightarrow> storage_error + mem_transaction" where
  "mem_tx_delete ks key t =
     Inr (t\<lparr>mt_changes := hm_insert (as_str ks, key) ChangeDelete (mt_changes t)\<rparr>)"

text \<open>One iteration of the loop over the changes in \<open>commit\<close>.\<close>

fun apply_change :: "(string \<times> bytes) \<times> change \<Rightarrow> tables \<Rightarrow> tables" where
  "apply_change ((space, key), change) tabs =
     bt_upsert space []
       (\<lambda>table. case change of
                  ChangePut value \<Rightarrow> bt_insert key value table
                | ChangeDelete \<Rightarrow> bt_remove key table) tabs"

definition mem_tx_commit ::
  "durability \<Rightarrow> mem_transaction \<Rightarrow> mem_state \<Rightarrow> mem_state \<times> (storage_error + commit_receipt)" where
  "mem_tx_commit durability t state =
     (if mem_head state \<noteq> ms_sequence (mt_base t)
      then (state, Inl (WriteConflict (ms_sequence (mt_base t)) (mem_head state)))
      else let tabs = fold apply_change (mt_changes t) (ms_tables (mt_base t)) in
           case checked_add_word (mem_head state) 1 of
             None \<Rightarrow> (state, Inl (Backend ''memory'' ''commit sequence exhausted''))
           | Some sequence \<Rightarrow>
               (state\<lparr>mem_head := sequence, mem_retained := bt_insert sequence tabs (mem_retained state)\<rparr>,
                Inr \<lparr>receipt_sequence = sequence, receipt_durability = durability\<rparr>))"

definition mem_tx_rollback :: "mem_transaction \<Rightarrow> storage_error + unit" where
  "mem_tx_rollback t = Inr ()"

definition mem_head_sequence :: "mem_state \<Rightarrow> storage_error + u64" where
  "mem_head_sequence state = Inr (mem_head state)"

definition mem_begin_read :: "snapshot_selector \<Rightarrow> mem_state \<Rightarrow> storage_error + mem_snapshot" where
  "mem_begin_read selector state =
     (let requested = (case selector of Latest \<Rightarrow> mem_head state | At sequence \<Rightarrow> sequence) in
      rbind (ok_or (SnapshotUnavailable requested (mem_head state))
               (bt_get (mem_retained state) requested))
        (\<lambda>tabs. Inr \<lparr>ms_sequence = requested, ms_tables = tabs\<rparr>))"

definition mem_begin_write :: "mem_state \<Rightarrow> storage_error + mem_transaction" where
  "mem_begin_write state =
     rbind (mem_begin_read Latest state) (\<lambda>base. Inr \<lparr>mt_base = base, mt_changes = []\<rparr>)"

definition mem_checkpoint :: "string \<Rightarrow> mem_state \<Rightarrow> storage_error + checkpoint_manifest" where
  "mem_checkpoint target state =
     Inl (Unsupported ''memory'' ''physical checkpoint; use journal portable backup'')"

definition mem_compact :: "u64 option \<Rightarrow> mem_state \<Rightarrow> storage_error + compact_report" where
  "mem_compact request state =
     rbind (mem_head_sequence state)
       (\<lambda>sequence. Inr \<lparr>compact_sequence = sequence, bytes_reclaimed = 0\<rparr>)"

text \<open>\<open>u64::try_from(n).unwrap_or(u64::MAX)\<close>.\<close>

definition u64_of_len :: "nat \<Rightarrow> u64" where
  "u64_of_len n = (if n < 2 ^ 64 then of_nat n else -1)"

fun sum_lens :: "nat list \<Rightarrow> u64 \<Rightarrow> u64 option" where
  "sum_lens [] acc = Some acc"
| "sum_lens (n # ns) acc =
     (case checked_add_word acc (u64_of_len n) of None \<Rightarrow> None | Some acc' \<Rightarrow> sum_lens ns acc')"

definition mem_verify :: "verify_mode \<Rightarrow> mem_state \<Rightarrow> storage_error + verify_report" where
  "mem_verify mode state =
     rbind (mem_begin_read Latest state)
       (\<lambda>snapshot. Inr \<lparr>report_sequence = ms_sequence snapshot,
            report_keyspaces = u64_of_len (length (ms_tables snapshot)),
            report_records =
              (case sum_lens (map (length \<circ> snd) (ms_tables snapshot)) 0 of None \<Rightarrow> -1 | Some n \<Rightarrow> n),
            report_warnings = []\<rparr>)"

text \<open>The three trait implementations.\<close>

definition mem_snapshot_ops :: "mem_snapshot read_snapshot_ops" where
  "mem_snapshot_ops = \<lparr>snap_sequence = ms_sequence, snap_get = mem_get,
     snap_scan_prefix = mem_scan_prefix, snap_scan_prefix_page = mem_scan_prefix_page\<rparr>"

definition mem_transaction_ops :: "(mem_transaction, mem_state) write_transaction_ops" where
  "mem_transaction_ops = \<lparr>snap_sequence = (\<lambda>t. ms_sequence (mt_base t)), snap_get = mem_tx_get,
     snap_scan_prefix = mem_tx_scan_prefix, snap_scan_prefix_page = mem_tx_scan_prefix_page,
     tx_put = mem_tx_put, tx_delete = mem_tx_delete, tx_commit = mem_tx_commit,
     tx_rollback = mem_tx_rollback\<rparr>"

definition memory_ops :: "(mem_state, mem_snapshot, mem_transaction) storage_engine_ops" where
  "memory_ops = \<lparr>eng_snapshot = mem_snapshot_ops, eng_transaction = mem_transaction_ops,
     eng_head_sequence = mem_head_sequence, eng_begin_read = mem_begin_read,
     eng_begin_write = mem_begin_write, eng_checkpoint = mem_checkpoint,
     eng_compact = mem_compact, eng_verify = mem_verify\<rparr>"

section \<open>Tables and their views\<close>

definition tables_ok :: "tables \<Rightarrow> bool" where
  "tables_ok tabs \<longleftrightarrow> bt_ok tabs \<and> (\<forall>(space, table) \<in> set tabs. bt_ok table)"

definition tables_get :: "tables \<Rightarrow> string \<Rightarrow> bytes \<Rightarrow> bytes option" where
  "tables_get tabs space key =
     (case bt_get tabs space of None \<Rightarrow> None | Some table \<Rightarrow> bt_get table key)"

definition the_table :: "tables \<Rightarrow> string \<Rightarrow> table" where
  "the_table tabs space = (case bt_get tabs space of None \<Rightarrow> [] | Some table \<Rightarrow> table)"

definition table_entries :: "table \<Rightarrow> entry list" where
  "table_entries table = map (\<lambda>(k, v). Entry k v) table"

text \<open>What a map of staged changes makes of the lookups of a table.\<close>

definition overlay :: "(bytes \<Rightarrow> change option) \<Rightarrow> (bytes \<Rightarrow> bytes option) \<Rightarrow> bytes \<Rightarrow> bytes option" where
  "overlay changes base key =
     (case changes key of
        Some (ChangePut value) \<Rightarrow> Some value | Some ChangeDelete \<Rightarrow> None | None \<Rightarrow> base key)"

lemma tables_get_the_table: "tables_get tabs space = bt_get (the_table tabs space)"
  by (auto simp: tables_get_def the_table_def fun_eq_iff split: option.splits)

lemma the_table_ok: "tables_ok tabs \<Longrightarrow> bt_ok (the_table tabs space)"
  by (auto simp: tables_ok_def the_table_def split: option.splits dest: map_of_SomeD)

lemma tables_ok_Nil [simp]: "tables_ok []"
  by (simp add: tables_ok_def)

lemma tables_ok_insert:
  assumes "tables_ok tabs" and "bt_ok table"
  shows "tables_ok (bt_insert space table tabs)"
proof -
  have ok: "bt_ok (bt_insert space table tabs)" using assms by (simp add: tables_ok_def bt_ok_insert)
  have "bt_ok t" if "(s, t) \<in> set (bt_insert space table tabs)" for s t
    using that assms ok
    by (auto simp: bt_mem_iff tables_ok_def split: if_splits dest: map_of_SomeD)
  with ok show ?thesis by (auto simp: tables_ok_def)
qed

lemma apply_change_eq:
  "apply_change ((space, key), c) tabs =
     bt_insert space (case c of ChangePut v \<Rightarrow> bt_insert key v (the_table tabs space)
                              | ChangeDelete \<Rightarrow> bt_remove key (the_table tabs space)) tabs"
  by (cases c) (simp_all add: bt_upsert_def the_table_def)

lemma the_table_insert: "the_table (bt_insert sp t tabs) space = (if space = sp then t else the_table tabs space)"
  by (simp add: the_table_def)

lemma tables_ok_apply_change: "tables_ok tabs \<Longrightarrow> tables_ok (apply_change c tabs)"
  by (cases c rule: prod.exhaust, rule prod.exhaust [of "fst c"])
    (auto simp: apply_change_eq simp del: apply_change.simps
      intro!: tables_ok_insert the_table_ok bt_ok_insert bt_ok_remove split: change.splits)

lemma tables_ok_fold: "tables_ok tabs \<Longrightarrow> tables_ok (fold apply_change cs tabs)"
  by (induction cs arbitrary: tabs) (auto intro: tables_ok_apply_change)

lemma tables_get_apply_change:
  "tables_get (apply_change ((space, key), c) tabs) sp =
     (if sp = space
      then (tables_get tabs sp)(key := (case c of ChangePut v \<Rightarrow> Some v | ChangeDelete \<Rightarrow> None))
      else tables_get tabs sp)"
  by (auto simp: tables_get_the_table apply_change_eq the_table_insert simp del: apply_change.simps
      split: change.splits)

text \<open>The loop of \<open>commit\<close> publishes the overlay, in whatever order the changes come.\<close>

lemma tables_get_fold:
  assumes "distinct (map fst cs)"
  shows "tables_get (fold apply_change cs tabs) space =
    overlay (\<lambda>key. map_of cs (space, key)) (tables_get tabs space)"
  using assms
proof (induction cs arbitrary: tabs)
  case Nil
  then show ?case by (simp add: overlay_def fun_eq_iff)
next
  case (Cons c cs)
  obtain sp key ch where c: "c = ((sp, key), ch)" by (metis surj_pair)
  have "map_of cs (sp, key) = None" using Cons.prems c by (auto simp: map_of_eq_None_iff)
  with Cons c show ?case
    by (auto simp del: apply_change.simps simp: tables_get_apply_change overlay_def fun_eq_iff split: option.splits change.splits)
qed

lemma bt_get_filter_key: "bt_get (filter (\<lambda>(k, v). P k) m) = (\<lambda>k. if P k then bt_get m k else None)"
  by (induction m) (auto simp: fun_eq_iff)

lemma table_entries_sorted: "bt_ok table \<Longrightarrow> strictly_sorted (map entry_key (table_entries table))"
  by (simp add: table_entries_def bt_ok_def comp_def case_prod_beta)

lemma Entry_mem_table_entries [simp]: "Entry k v \<in> set (table_entries table) \<longleftrightarrow> (k, v) \<in> set table"
  by (auto simp: table_entries_def)

lemma filter_table_entries:
  "filter (\<lambda>e. P (entry_key e)) (table_entries table) = table_entries (filter (\<lambda>(k, v). P k) table)"
  by (induction table) (auto simp: table_entries_def)

lemma listing_table_entries:
  assumes "bt_ok table"
  shows "listing (bt_get table) prefix (filter (\<lambda>e. starts_with (entry_key e) prefix) (table_entries table))"
proof -
  have "bt_ok (filter (\<lambda>(k, v). starts_with k prefix) table)" using assms by (rule bt_ok_filter)
  then show ?thesis
    using assms
    by (simp add: listing_def filter_table_entries [of "\<lambda>k. starts_with k prefix"] table_entries_sorted
        bt_mem_iff bt_get_filter_key)
qed

section \<open>Merging staged changes\<close>

fun merge_tables :: "table \<Rightarrow> (bytes, change) btree_map \<Rightarrow> table" where
  "merge_tables [] [] = []"
| "merge_tables ((k, v) # base) [] = (k, v) # base"
| "merge_tables [] ((key, change) # staged) =
     (case change of ChangePut value \<Rightarrow> (key, value) # merge_tables [] staged
                   | ChangeDelete \<Rightarrow> merge_tables [] staged)"
| "merge_tables ((k, v) # base) ((key, change) # staged) =
     (if k < key then (k, v) # merge_tables base ((key, change) # staged)
      else let rest = (if k = key then base else (k, v) # base) in
           (case change of ChangePut value \<Rightarrow> (key, value) # merge_tables rest staged
                         | ChangeDelete \<Rightarrow> merge_tables rest staged))"

lemma merge_staged_Inr: "merge_staged (map Inr (table_entries base)) [] = map Inr (table_entries base)"
  by (induction base) (auto simp: table_entries_def)

lemma merge_staged_eq:
  "merge_staged (map Inr (table_entries base)) staged = map Inr (table_entries (merge_tables base staged))"
proof (induction base staged rule: merge_tables.induct)
  case (2 k v base)
  show ?case using merge_staged_Inr [of "(k, v) # base"] by simp
qed (auto simp: table_entries_def Let_def split: change.splits)

lemma merge_tables_keys: "fst ` set (merge_tables base staged) \<subseteq> fst ` set base \<union> fst ` set staged"
proof (induction base staged rule: merge_tables.induct)
  case (4 k v base key change staged)
  show ?case
  proof (cases "k < key")
    case True
    with 4 show ?thesis by auto
  next
    case False
    define rest where "rest = (if k = key then base else (k, v) # base)"
    have "fst ` set (merge_tables rest staged) \<subseteq> fst ` set rest \<union> fst ` set staged"
      using "4.IH"(2,3) [OF False rest_def] by (cases change) blast+
    moreover have "fst ` set rest \<subseteq> fst ` set ((k, v) # base)" by (auto simp: rest_def)
    ultimately have "fst ` set (merge_tables rest staged) \<subseteq> fst ` set ((k, v) # base) \<union> fst ` set staged"
      by blast
    then show ?thesis using False
      by (cases change) (simp_all add: Let_def rest_def [symmetric] subset_insertI2)
  qed
qed (auto split: change.splits)

lemma merge_tables_ok: "bt_ok base \<Longrightarrow> bt_ok staged \<Longrightarrow> bt_ok (merge_tables base staged)"
proof (induction base staged rule: merge_tables.induct)
  case (3 key change staged)
  then show ?case using merge_tables_keys [of "[]" staged]
    by (fastforce simp: bt_ok_Cons split: change.splits)
next
  case (4 k v base key change staged)
  show ?case
  proof (cases "k < key")
    case True
    then have "bt_ok (merge_tables base ((key, change) # staged))" using 4 by (simp add: bt_ok_Cons)
    moreover have "\<forall>a \<in> fst ` set (merge_tables base ((key, change) # staged)). k < a"
      using merge_tables_keys [of base "(key, change) # staged"] 4 True
      by (fastforce simp: bt_ok_Cons)
    ultimately show ?thesis using True by (simp add: bt_ok_Cons)
  next
    case False
    define rest where "rest = (if k = key then base else (k, v) # base)"
    have rest: "bt_ok rest" "\<forall>a \<in> fst ` set rest. key < a"
      using 4 False by (auto simp: bt_ok_Cons rest_def)
    have "bt_ok (merge_tables rest staged)"
      using "4.IH"(2,3) [OF False rest_def] rest(1) "4.prems" by (cases change) (auto simp: bt_ok_Cons)
    moreover have "\<forall>a \<in> fst ` set (merge_tables rest staged). key < a"
      using merge_tables_keys [of rest staged] rest(2) 4 by (fastforce simp: bt_ok_Cons)
    ultimately show ?thesis
      using False by (simp add: bt_ok_Cons Let_def rest_def [symmetric] split: change.splits)
  qed
qed (auto simp: bt_ok_Cons)

lemma bt_ok_notin: "bt_ok ((k, v) # m) \<Longrightarrow> a \<le> k \<Longrightarrow> bt_get m a = None"
  by (fastforce simp: bt_ok_Cons map_of_eq_None_iff)

lemma merge_tables_get:
  "bt_ok base \<Longrightarrow> bt_ok staged \<Longrightarrow> bt_get (merge_tables base staged) = overlay (bt_get staged) (bt_get base)"
proof (induction base staged rule: merge_tables.induct)
  case (3 key change staged)
  then show ?case
    using bt_ok_notin [OF "3.prems"(2), of key]
    by (auto simp: bt_ok_Cons overlay_def fun_eq_iff split: change.splits option.splits)
next
  case (4 k v base key change staged)
  show ?case
  proof (cases "k < key")
    case True
    then have "bt_get ((key, change) # staged) k = None"
      using 4 bt_ok_notin [OF "4.prems"(2), of k] by simp
    then show ?thesis using 4 True by (auto simp: bt_ok_Cons overlay_def fun_eq_iff)
  next
    case False
    define rest where "rest = (if k = key then base else (k, v) # base)"
    have ok: "bt_ok rest" using 4 by (auto simp: bt_ok_Cons rest_def)
    have key: "bt_get rest key = None" "bt_get staged key = None"
      using False 4 bt_ok_notin [OF "4.prems"(1), of key] bt_ok_notin [OF "4.prems"(2), of key]
      by (auto simp: bt_ok_Cons rest_def)
    have same: "bt_get ((k, v) # base) a = bt_get rest a" if "a \<noteq> key" for a
      using that by (auto simp: rest_def)
    have "bt_get (merge_tables rest staged) = overlay (bt_get staged) (bt_get rest)"
      using "4.IH"(2,3) [OF False rest_def] ok "4.prems" by (cases change) (auto simp: bt_ok_Cons)
    then have "bt_get (merge_tables ((k, v) # base) ((key, change) # staged)) a =
        overlay (bt_get ((key, change) # staged)) (bt_get ((k, v) # base)) a" for a
      using False key same [of a]
      by (cases "a = key")
        (auto simp: Let_def rest_def [symmetric] overlay_def simp del: map_of.simps(2)
          simp: map_of.simps(2) [of "(key, _)"] split: change.splits option.splits)
    then show ?thesis by blast
  qed
qed (auto simp: overlay_def fun_eq_iff)

section \<open>Pages of snapshots and transactions\<close>

definition mem_snapshot_ok :: "mem_snapshot \<Rightarrow> bool" where
  "mem_snapshot_ok s \<longleftrightarrow> tables_ok (ms_tables s)"

definition mem_view :: "mem_snapshot \<Rightarrow> keyspace \<Rightarrow> bytes \<Rightarrow> bytes option" where
  "mem_view s ks = tables_get (ms_tables s) (as_str ks)"

definition mem_tx_ok :: "mem_transaction \<Rightarrow> bool" where
  "mem_tx_ok t \<longleftrightarrow> mem_snapshot_ok (mt_base t) \<and> distinct (map fst (mt_changes t))"

text \<open>The tables a commit of the transaction would publish.\<close>

definition tx_result :: "mem_transaction \<Rightarrow> tables" where
  "tx_result t = fold apply_change (mt_changes t) (ms_tables (mt_base t))"

definition mem_tx_view :: "mem_transaction \<Rightarrow> keyspace \<Rightarrow> bytes \<Rightarrow> bytes option" where
  "mem_tx_view t ks = tables_get (tx_result t) (as_str ks)"

abbreviation mem_table :: "mem_snapshot \<Rightarrow> keyspace \<Rightarrow> entry list" where
  "mem_table s ks \<equiv> table_entries (the_table (ms_tables s) (as_str ks))"

abbreviation mem_tx_table :: "mem_transaction \<Rightarrow> keyspace \<Rightarrow> entry list" where
  "mem_tx_table t ks \<equiv> table_entries (the_table (tx_result t) (as_str ks))"

lemma tx_result_ok: "mem_tx_ok t \<Longrightarrow> tables_ok (tx_result t)"
  by (simp add: mem_tx_ok_def mem_snapshot_ok_def tx_result_def tables_ok_fold)

text \<open>The keys a request looks at.\<close>

definition in_range :: "scan_page_request \<Rightarrow> bytes \<Rightarrow> bool" where
  "in_range r k \<longleftrightarrow> (case start_after r of Some s \<Rightarrow> s < k | None \<Rightarrow> req_prefix r \<le> k)"

definition requested :: "scan_page_request \<Rightarrow> bytes \<Rightarrow> bool" where
  "requested r k \<longleftrightarrow> starts_with k (req_prefix r) \<and> (case start_after r of None \<Rightarrow> True | Some s \<Rightarrow> s < k)"

lemma page_matches_requested: "page_matches r = (\<lambda>e. requested r (entry_key e))"
  by (simp add: page_matches_def requested_def fun_eq_iff)

lemma requested_in_range: "requested r k \<Longrightarrow> in_range r k"
  by (auto simp: requested_def in_range_def starts_with_le split: option.splits)

lemma filter_page_matches:
  "filter (page_matches r) (table_entries table) = table_entries (filter (\<lambda>(k, v). requested r k) table)"
  by (simp add: page_matches_requested filter_table_entries)

lemma table_range_eq: "table_range r table = map Inr (table_entries (filter (\<lambda>(k, v). in_range r k) table))"
  by (simp add: table_range_def table_entries_def in_range_def comp_def case_prod_beta)

lemma range_requested:
  "filter (\<lambda>(k, v). requested r k) (filter (\<lambda>(k, v). in_range r k) table) = filter (\<lambda>(k, v). requested r k) table"
  by (auto simp: requested_in_range intro!: filter_cong)

text \<open>A reader that hands \<open>collect_scan_page\<close> a sorted list with the right requested part.\<close>

definition pages_of :: "scan_page_request \<Rightarrow> table \<Rightarrow> storage_error + scan_page \<Rightarrow> bool" where
  "pages_of r table result \<longleftrightarrow>
     (\<exists>rows. bt_ok rows \<and> result = collect_scan_page r (map Inr (table_entries rows))
        \<and> filter (\<lambda>(k, v). requested r k) rows = filter (\<lambda>(k, v). requested r k) table)"

lemma pages_of_sound:
  assumes "pages_of r table (Inr page)"
  shows "page_of r (filter (page_matches r) (table_entries table)) = Inr page"
proof -
  obtain rows where "bt_ok rows" and "collect_scan_page r (map Inr (table_entries rows)) = Inr page"
    and same: "filter (\<lambda>(k, v). requested r k) rows = filter (\<lambda>(k, v). requested r k) table"
    using assms by (auto simp: pages_of_def)
  then have "page_of r (filter (page_matches r) (table_entries rows)) = Inr page"
    by (intro collect_scan_page_sound table_entries_sorted)
  with same show ?thesis by (simp add: filter_page_matches)
qed

lemma pages_of_complete:
  assumes "pages_of r table result" and "scan_request_validate r = Inr ()"
    and "\<forall>e \<in> set (table_entries table). page_matches r e \<longrightarrow> entry_bytes e \<le> usize_max"
  shows "result = page_of r (filter (page_matches r) (table_entries table))"
proof -
  obtain rows where rows: "bt_ok rows" "result = collect_scan_page r (map Inr (table_entries rows))"
    and same: "filter (page_matches r) (table_entries rows) = filter (page_matches r) (table_entries table)"
    using assms(1) by (auto simp: pages_of_def filter_page_matches)
  have "\<forall>e \<in> set (table_entries rows). page_matches r e \<longrightarrow> entry_bytes e \<le> usize_max"
    using assms(3) arg_cong [OF same, of set] by auto
  from collect_scan_page_complete [OF table_entries_sorted [OF rows(1)] assms(2) this]
  show ?thesis using rows(2) same by simp
qed

lemma mem_page:
  assumes "mem_snapshot_ok s" and "scan_request_validate r = Inr ()"
  shows "pages_of r (the_table (ms_tables s) (as_str ks)) (mem_scan_prefix_page s ks r)"
proof (cases "bt_get (ms_tables s) (as_str ks)")
  case None
  then show ?thesis
    using assms(2)
    by (auto simp: mem_scan_prefix_page_def the_table_def pages_of_def collect_scan_page_def
        table_entries_def intro!: exI [of _ "[]"])
next
  case (Some table)
  have "bt_ok table"
    using assms(1) Some by (metis mem_snapshot_ok_def the_table_ok the_table_def option.simps(5))
  then show ?thesis
    using Some range_requested [of r table]
    unfolding mem_scan_prefix_page_def the_table_def pages_of_def table_range_eq option.simps
    by (intro exI [of _ "filter (\<lambda>(k, v). in_range r k) table"] conjI bt_ok_filter) simp_all
qed

text \<open>The staged changes that a page merges in: sorted, and those of the map of changes.\<close>

lemma distinct_keys_of_space:
  assumes "distinct (map fst cs)"
  shows "distinct (map fst (map (\<lambda>((space, key), change). (key, change))
    (filter (\<lambda>((space, key), change). space = sp \<and> P key) cs)))"
  using assms
proof (induction cs)
  case (Cons c cs)
  obtain space key ch where c: "c = ((space, key), ch)" by (metis surj_pair)
  have "key \<notin> (\<lambda>x. snd (fst x)) ` {x \<in> set cs. fst (fst x) = sp \<and> P (snd (fst x))}" if "space = sp"
    using Cons.prems that by (force simp: c)
  with Cons show ?case by (simp add: c case_prod_beta)
qed simp

lemma staged_changes_ok:
  assumes "mem_tx_ok t"
  shows "bt_ok (staged_changes t ks r)"
    and "bt_get (staged_changes t ks r) k =
      (if requested r k then map_of (mt_changes t) (as_str ks, k) else None)"
proof -
  let ?cs = "filter (\<lambda>((space, key), change). space = as_str ks \<and> requested r key) (mt_changes t)"
  let ?ms = "map (\<lambda>((space, key), change). (key, change)) ?cs"
  have eq: "staged_changes t ks r = sort_key fst ?ms"
    by (simp add: staged_changes_def requested_def conj_assoc)
  have dist: "distinct (map fst (mt_changes t))" using assms by (simp add: mem_tx_ok_def)
  then have "distinct (map fst ?ms)" by (rule distinct_keys_of_space)
  then have d: "distinct (map fst (staged_changes t ks r))"
    by (simp add: eq distinct_map inj_on_def)
  moreover have "sorted (map fst (staged_changes t ks r))" by (simp add: eq)
  ultimately show ok: "bt_ok (staged_changes t ks r)" by (simp add: bt_ok_def strict_sorted_iff)
  have "bt_get (staged_changes t ks r) k = Some c \<longleftrightarrow>
      requested r k \<and> map_of (mt_changes t) (as_str ks, k) = Some c" for c
    unfolding map_of_eq_Some_iff [OF d] map_of_eq_Some_iff [OF dist] unfolding eq set_sort by force
  then show "bt_get (staged_changes t ks r) k =
      (if requested r k then map_of (mt_changes t) (as_str ks, k) else None)"
    by (metis not_Some_eq)
qed

lemma mem_tx_page:
  assumes ok: "mem_tx_ok t" and "scan_request_validate r = Inr ()"
  shows "pages_of r (the_table (tx_result t) (as_str ks)) (mem_tx_scan_prefix_page t ks r)"
proof -
  let ?base = "filter (\<lambda>(k, v). in_range r k) (the_table (ms_tables (mt_base t)) (as_str ks))"
  let ?staged = "staged_changes t ks r"
  have base: "bt_ok ?base"
    using ok by (simp add: mem_tx_ok_def mem_snapshot_ok_def bt_ok_filter the_table_ok)
  have "mem_tx_scan_prefix_page t ks r = collect_scan_page r (merge_staged (map Inr (table_entries ?base)) ?staged)"
    using assms(2)
    by (auto simp: mem_tx_scan_prefix_page_def the_table_def table_range_eq table_entries_def split: option.splits)
  moreover have "filter (\<lambda>(k, v). requested r k) (merge_tables ?base ?staged) =
      filter (\<lambda>(k, v). requested r k) (the_table (tx_result t) (as_str ks))"
  proof (rule bt_ext)
    note merged = merge_tables_ok [OF base staged_changes_ok(1) [OF ok]]
    show "bt_ok (filter (\<lambda>(k, v). requested r k) (merge_tables ?base ?staged))"
      using merged by (rule bt_ok_filter)
    show "bt_ok (filter (\<lambda>(k, v). requested r k) (the_table (tx_result t) (as_str ks)))"
      using ok by (simp add: bt_ok_filter the_table_ok tx_result_ok)
    have "bt_get (merge_tables ?base ?staged) k = bt_get (the_table (tx_result t) (as_str ks)) k"
      if "requested r k" for k
    proof -
      have "bt_get (merge_tables ?base ?staged) k =
          overlay (bt_get ?staged) (bt_get ?base) k"
        using merge_tables_get [OF base staged_changes_ok(1) [OF ok]] by simp
      also have "\<dots> = overlay (\<lambda>key. map_of (mt_changes t) (as_str ks, key))
          (tables_get (ms_tables (mt_base t)) (as_str ks)) k"
        using that staged_changes_ok(2) [OF ok, of ks r k]
        by (simp add: overlay_def bt_get_filter_key requested_in_range tables_get_the_table)
      also have "\<dots> = tables_get (tx_result t) (as_str ks) k"
        using ok by (simp add: tx_result_def tables_get_fold mem_tx_ok_def)
      finally show ?thesis by (simp add: tables_get_the_table)
    qed
    then show "bt_get (filter (\<lambda>(k, v). requested r k) (merge_tables ?base ?staged)) =
      bt_get (filter (\<lambda>(k, v). requested r k) (the_table (tx_result t) (as_str ks)))"
      unfolding bt_get_filter_key by auto
  qed
  ultimately show ?thesis
    using merge_tables_ok [OF base staged_changes_ok(1) [OF ok]]
    by (auto simp: pages_of_def merge_staged_eq)
qed

interpretation mem_snapshot_pages: page_reader mem_scan_prefix_page mem_table mem_snapshot_ok
proof unfold_locales
  fix s ks r page
  assume s: "mem_snapshot_ok s"
  then show "strictly_sorted (map entry_key (mem_table s ks))"
    by (simp add: mem_snapshot_ok_def table_entries_sorted the_table_ok)
  assume r: "scan_request_validate r = Inr ()"
  note page = mem_page [OF s r, of ks]
  show "page_of r (filter (page_matches r) (mem_table s ks)) = Inr page"
    if "mem_scan_prefix_page s ks r = Inr page"
    using page that by (simp add: pages_of_sound)
  show "mem_scan_prefix_page s ks r = page_of r (filter (page_matches r) (mem_table s ks))"
    if "\<forall>e \<in> set (mem_table s ks). page_matches r e \<longrightarrow> entry_bytes e \<le> usize_max"
    using pages_of_complete [OF page r that] .
qed

interpretation mem_transaction_pages: page_reader mem_tx_scan_prefix_page mem_tx_table mem_tx_ok
proof unfold_locales
  fix t ks r page
  assume t: "mem_tx_ok t"
  then show "strictly_sorted (map entry_key (mem_tx_table t ks))"
    by (simp add: table_entries_sorted the_table_ok tx_result_ok)
  assume r: "scan_request_validate r = Inr ()"
  note page = mem_tx_page [OF t r, of ks]
  show "page_of r (filter (page_matches r) (mem_tx_table t ks)) = Inr page"
    if "mem_tx_scan_prefix_page t ks r = Inr page"
    using page that by (simp add: pages_of_sound)
  show "mem_tx_scan_prefix_page t ks r = page_of r (filter (page_matches r) (mem_tx_table t ks))"
    if "\<forall>e \<in> set (mem_tx_table t ks). page_matches r e \<longrightarrow> entry_bytes e \<le> usize_max"
    using pages_of_complete [OF page r that] .
qed

section \<open>The backend meets the contract\<close>

definition mem_ok :: "mem_state \<Rightarrow> bool" where
  "mem_ok st \<longleftrightarrow> bt_ok (mem_retained st)
     \<and> (\<forall>n. bt_contains (mem_retained st) n \<longleftrightarrow> n \<le> mem_head st)
     \<and> (\<forall>(n, tabs) \<in> set (mem_retained st). tables_ok tabs)"

definition mem_content :: "mem_state \<Rightarrow> keyspace \<Rightarrow> bytes \<Rightarrow> bytes option" where
  "mem_content st ks = tables_get (the (bt_get (mem_retained st) (mem_head st))) (as_str ks)"

definition mem_based :: "mem_transaction \<Rightarrow> mem_state \<Rightarrow> bool" where
  "mem_based t st \<longleftrightarrow> ms_sequence (mt_base t) = mem_head st
     \<and> bt_get (mem_retained st) (mem_head st) = Some (ms_tables (mt_base t))"

definition mem_available :: "mem_state \<Rightarrow> bool" where
  "mem_available st \<longleftrightarrow> checked_add_word (mem_head st) 1 \<noteq> None"

lemma mem_ok_new: "mem_ok memory_new"
  by (auto simp: mem_ok_def memory_new_def bt_ok_def)

lemma mem_ok_retained: "mem_ok st \<Longrightarrow> bt_get (mem_retained st) n = Some tabs \<Longrightarrow> tables_ok tabs"
  by (auto simp: mem_ok_def dest: map_of_SomeD)

lemma mem_ok_get: "mem_ok st \<Longrightarrow> n \<le> mem_head st \<Longrightarrow> \<exists>tabs. bt_get (mem_retained st) n = Some tabs"
  by (auto simp: mem_ok_def)

lemma checked_add_word_le_iff:
  fixes a b n :: u64
  assumes "checked_add_word a 1 = Some b"
  shows "n \<le> b \<longleftrightarrow> n \<le> a \<or> n = b"
  using unat_checked_add [OF assms] by (auto simp: word_le_nat_alt word_unat_eq_iff)

lemma mem_ok_commit:
  assumes "mem_ok st" and "mem_tx_ok t" and "mem_tx_commit d t st = (st', r)"
  shows "mem_ok st'"
proof (cases "st' = st")
  case False
  then obtain n where n: "checked_add_word (mem_head st) 1 = Some n" and "mem_head st = ms_sequence (mt_base t)"
    and st': "st' = st\<lparr>mem_head := n, mem_retained := bt_insert n (tx_result t) (mem_retained st)\<rparr>"
    using assms(3) by (auto simp: mem_tx_commit_def Let_def tx_result_def split: if_splits option.splits)
  have ok: "bt_ok (bt_insert n (tx_result t) (mem_retained st))"
    using assms(1) by (simp add: mem_ok_def bt_ok_insert)
  moreover have "tables_ok tabs" if "(m, tabs) \<in> set (bt_insert n (tx_result t) (mem_retained st))" for m tabs
    using that mem_ok_retained [OF assms(1)] tx_result_ok [OF assms(2)]
    by (auto simp: bt_mem_iff [OF ok] split: if_splits)
  moreover have "bt_contains (bt_insert n (tx_result t) (mem_retained st)) m \<longleftrightarrow> m \<le> n" for m
    using assms(1) checked_add_word_le_iff [OF n, of m] by (auto simp: mem_ok_def)
  ultimately show ?thesis by (auto simp: mem_ok_def st')
qed (use assms in simp)

lemma mem_tx_put_ok: "mem_tx_ok t \<Longrightarrow> mem_tx_put ks k v t = Inr t' \<Longrightarrow> mem_tx_ok t'"
  and mem_tx_delete_ok: "mem_tx_ok t \<Longrightarrow> mem_tx_delete ks k t = Inr t' \<Longrightarrow> mem_tx_ok t'"
  by (auto simp: mem_tx_ok_def mem_tx_put_def mem_tx_delete_def distinct_hm_insert)

lemma as_str_eq_iff: "as_str a = as_str b \<longleftrightarrow> a = b"
  by (cases a; cases b) simp

lemma mem_tx_view_eq:
  "mem_tx_ok t \<Longrightarrow> mem_tx_view t ks = overlay (\<lambda>k. map_of (mt_changes t) (as_str ks, k)) (mem_view (mt_base t) ks)"
  by (simp add: mem_tx_view_def tx_result_def tables_get_fold mem_tx_ok_def mem_view_def)

lemma mem_tx_put_view:
  assumes "mem_tx_ok t" and "mem_tx_put ks k v t = Inr t'"
  shows "mem_tx_view t' = (mem_tx_view t)(ks := (mem_tx_view t ks)(k \<mapsto> v))"
  using assms mem_tx_put_ok [OF assms]
  by (auto simp: fun_eq_iff mem_tx_view_eq overlay_def mem_tx_put_def as_str_eq_iff split: option.splits)

lemma mem_tx_delete_view:
  assumes "mem_tx_ok t" and "mem_tx_delete ks k t = Inr t'"
  shows "mem_tx_view t' = (mem_tx_view t)(ks := (mem_tx_view t ks)(k := None))"
  using assms mem_tx_delete_ok [OF assms]
  by (auto simp: fun_eq_iff mem_tx_view_eq overlay_def mem_tx_delete_def as_str_eq_iff split: option.splits)

lemma mem_begin_read_eq:
  "mem_begin_read selector st = Inr s \<longleftrightarrow>
     (let n = (case selector of Latest \<Rightarrow> mem_head st | At m \<Rightarrow> m) in
      ms_sequence s = n \<and> bt_get (mem_retained st) n = Some (ms_tables s))"
  by (cases s) (auto simp: mem_begin_read_def Let_def)

lemma mem_begin_read_ok: "mem_ok st \<Longrightarrow> mem_begin_read selector st = Inr s \<Longrightarrow> mem_snapshot_ok s"
  by (auto simp: mem_begin_read_eq mem_snapshot_ok_def Let_def intro: mem_ok_retained)

lemma mem_begin_write_eq:
  "mem_begin_write st = Inr t \<longleftrightarrow> mem_begin_read Latest st = Inr (mt_base t) \<and> mt_changes t = []"
  by (cases t) (auto simp: mem_begin_write_def)

interpretation memory_snapshot: read_snapshot mem_snapshot_ops mem_view mem_snapshot_ok
proof unfold_locales
  fix s ks k p es
  assume s: "mem_snapshot_ok s"
  show "snap_get mem_snapshot_ops s ks k = Inr (mem_view s ks k)"
    by (simp add: mem_snapshot_ops_def mem_get_def mem_view_def tables_get_def)
  have list: "listing (mem_view s ks) p (filter (\<lambda>e. starts_with (entry_key e) p) (mem_table s ks))"
    using s listing_table_entries [of "the_table (ms_tables s) (as_str ks)" p]
    by (simp add: mem_view_def tables_get_the_table mem_snapshot_ok_def the_table_ok)
  show "listing (mem_view s ks) p es" if "snap_scan_prefix mem_snapshot_ops s ks p = Inr es"
    using that list mem_snapshot_pages.collect_prefix_pages_sound [OF s]
    by (simp add: mem_snapshot_ops_def mem_scan_prefix_def)
  show "snap_scan_prefix mem_snapshot_ops s ks p = Inr es"
    if "listing (mem_view s ks) p es" "scan_fits es"
    using that mem_snapshot_pages.collect_prefix_pages_complete [OF s, where ks = ks and prefix = p] listing_unique [OF list that(1)]
    by (simp add: mem_snapshot_ops_def mem_scan_prefix_def)
qed

interpretation memory_transaction: read_snapshot mem_transaction_ops mem_tx_view mem_tx_ok
proof unfold_locales
  fix t ks k p es
  assume t: "mem_tx_ok t"
  show "snap_get mem_transaction_ops t ks k = Inr (mem_tx_view t ks k)"
    using t by (auto simp: mem_transaction_ops_def mem_tx_get_def mem_get_def mem_tx_view_eq overlay_def
        mem_view_def tables_get_def split: option.splits change.splits)
  have list: "listing (mem_tx_view t ks) p (filter (\<lambda>e. starts_with (entry_key e) p) (mem_tx_table t ks))"
    using listing_table_entries [OF the_table_ok [OF tx_result_ok [OF t]]]
    by (simp add: mem_tx_view_def tables_get_the_table)
  show "listing (mem_tx_view t ks) p es" if "snap_scan_prefix mem_transaction_ops t ks p = Inr es"
    using that list mem_transaction_pages.collect_prefix_pages_sound [OF t]
    by (simp add: mem_transaction_ops_def mem_tx_scan_prefix_def)
  show "snap_scan_prefix mem_transaction_ops t ks p = Inr es"
    if "listing (mem_tx_view t ks) p es" "scan_fits es"
    using that mem_transaction_pages.collect_prefix_pages_complete [OF t, where ks = ks and prefix = p] listing_unique [OF list that(1)]
    by (simp add: mem_transaction_ops_def mem_tx_scan_prefix_def)
qed

lemma memory_ops_simps [simp]:
  "eng_snapshot memory_ops = mem_snapshot_ops" "eng_transaction memory_ops = mem_transaction_ops"
  "eng_begin_read memory_ops = mem_begin_read" "eng_begin_write memory_ops = mem_begin_write"
  "tx_put mem_transaction_ops = mem_tx_put" "tx_delete mem_transaction_ops = mem_tx_delete"
  "tx_commit mem_transaction_ops = mem_tx_commit" "tx_rollback mem_transaction_ops = mem_tx_rollback"
  by (simp_all add: memory_ops_def mem_transaction_ops_def)

lemma mem_commit_cases:
  assumes "mem_tx_commit d t st = (st', r)"
  obtains (conflict) "mem_head st \<noteq> ms_sequence (mt_base t)" "st' = st"
      "r = Inl (WriteConflict (ms_sequence (mt_base t)) (mem_head st))"
  | (exhausted) "mem_head st = ms_sequence (mt_base t)" "checked_add_word (mem_head st) 1 = None" "st' = st"
      "r = Inl (Backend ''memory'' ''commit sequence exhausted'')"
  | (committed) n where "mem_head st = ms_sequence (mt_base t)" "checked_add_word (mem_head st) 1 = Some n"
      "st' = st\<lparr>mem_head := n, mem_retained := bt_insert n (tx_result t) (mem_retained st)\<rparr>"
      "r = Inr \<lparr>receipt_sequence = n, receipt_durability = d\<rparr>"
  using assms by (auto simp: mem_tx_commit_def Let_def tx_result_def split: if_splits option.splits)

interpretation memory: storage_engine memory_ops mem_view mem_snapshot_ok mem_tx_view mem_tx_ok
  mem_content mem_ok mem_based mem_available
proof (intro storage_engine.intro storage_engine_axioms.intro, unfold memory_ops_simps)
  show "read_snapshot mem_snapshot_ops mem_view mem_snapshot_ok" by unfold_locales
  show "read_snapshot mem_transaction_ops mem_tx_view mem_tx_ok" by unfold_locales
next
  fix st
  assume st: "mem_ok st"
  then obtain tabs where tabs: "bt_get (mem_retained st) (mem_head st) = Some tabs"
    using mem_ok_get by blast
  let ?s = "\<lparr>ms_sequence = mem_head st, ms_tables = tabs\<rparr>"
  have s: "mem_begin_read Latest st = Inr ?s"
    and view: "mem_view ?s = mem_content st" and ok: "mem_snapshot_ok ?s"
    using tabs mem_ok_retained [OF st]
    by (auto simp: mem_begin_read_eq Let_def mem_view_def mem_content_def fun_eq_iff mem_snapshot_ok_def)
  from s view ok show "\<exists>s. mem_begin_read Latest st = Inr s \<and> mem_snapshot_ok s \<and> mem_view s = mem_content st"
    by blast
  let ?t = "\<lparr>mt_base = ?s, mt_changes = []\<rparr>"
  have "mem_begin_write st = Inr ?t" "mem_tx_ok ?t" "mem_based ?t st"
    using s ok by (auto simp: mem_begin_write_eq mem_tx_ok_def mem_based_def mem_begin_read_eq Let_def)
  moreover have "mem_tx_view ?t = mem_content st"
    using view by (simp add: mem_tx_view_def tx_result_def mem_view_def fun_eq_iff)
  ultimately show "\<exists>t. mem_begin_write st = Inr t \<and> mem_tx_ok t \<and> mem_tx_view t = mem_content st \<and> mem_based t st"
    by blast
next
  fix t ks k v
  assume t: "mem_tx_ok t"
  show "\<exists>t'. mem_tx_put ks k v t = Inr t' \<and> mem_tx_ok t'
      \<and> mem_tx_view t' = (mem_tx_view t)(ks := (mem_tx_view t ks)(k \<mapsto> v)) \<and> (\<forall>e. mem_based t e \<longrightarrow> mem_based t' e)"
    using mem_tx_put_ok [OF t] mem_tx_put_view [OF t] by (simp add: mem_tx_put_def mem_based_def)
  show "\<exists>t'. mem_tx_delete ks k t = Inr t' \<and> mem_tx_ok t'
      \<and> mem_tx_view t' = (mem_tx_view t)(ks := (mem_tx_view t ks)(k := None)) \<and> (\<forall>e. mem_based t e \<longrightarrow> mem_based t' e)"
    using mem_tx_delete_ok [OF t] mem_tx_delete_view [OF t] by (simp add: mem_tx_delete_def mem_based_def)
next
  fix st t d st' r
  assume st: "mem_ok st" and t: "mem_tx_ok t" and based: "mem_based t st"
  show "\<exists>st' c. mem_tx_commit d t st = (st', Inr c) \<and> receipt_durability c = d" if "mem_available st"
    using that based by (auto simp: mem_tx_commit_def Let_def mem_available_def mem_based_def)
  assume c: "mem_tx_commit d t st = (st', r)"
  then show "mem_ok st' \<and> (mem_content st' = mem_content st \<or> mem_content st' = mem_tx_view t)
      \<and> (\<forall>c. r = Inr c \<longrightarrow> mem_content st' = mem_tx_view t)"
    using mem_ok_commit [OF st t c]
    by (cases rule: mem_commit_cases) (auto simp: mem_content_def mem_tx_view_def fun_eq_iff)
next
  show "mem_tx_rollback t = Inr ()" for t by (simp add: mem_tx_rollback_def)
qed

section \<open>Interleaved transactions\<close>

text \<open>
  Any number of transactions may be open against one engine. A system is the engine with the open
  transactions by handle; a step is one call on a handle.
\<close>

record mem_system =
  sys_state :: mem_state
  sys_open :: "nat \<Rightarrow> mem_transaction option"

datatype mem_event = EvBegin nat | EvPut nat | EvDelete nat | EvCommit nat "storage_error + commit_receipt" | EvRollback nat

inductive mem_step :: "mem_system \<Rightarrow> mem_event \<Rightarrow> mem_system \<Rightarrow> bool" where
  start_tx: "sys_open s i = None \<Longrightarrow> mem_begin_write (sys_state s) = Inr t \<Longrightarrow>
    mem_step s (EvBegin i) (s\<lparr>sys_open := (sys_open s)(i \<mapsto> t)\<rparr>)"
| put: "sys_open s i = Some t \<Longrightarrow> mem_tx_put ks k v t = Inr t' \<Longrightarrow>
    mem_step s (EvPut i) (s\<lparr>sys_open := (sys_open s)(i \<mapsto> t')\<rparr>)"
| delete: "sys_open s i = Some t \<Longrightarrow> mem_tx_delete ks k t = Inr t' \<Longrightarrow>
    mem_step s (EvDelete i) (s\<lparr>sys_open := (sys_open s)(i \<mapsto> t')\<rparr>)"
| commit: "sys_open s i = Some t \<Longrightarrow> mem_tx_commit d t (sys_state s) = (st', r) \<Longrightarrow>
    mem_step s (EvCommit i r) \<lparr>sys_state = st', sys_open = (sys_open s)(i := None)\<rparr>"
| rollback: "sys_open s i = Some t \<Longrightarrow> mem_tx_rollback t = Inr () \<Longrightarrow>
    mem_step s (EvRollback i) (s\<lparr>sys_open := (sys_open s)(i := None)\<rparr>)"

inductive_cases mem_step_commitE: "mem_step s (EvCommit i r) s'"

inductive mem_reachable :: "mem_system \<Rightarrow> bool" where
  start: "mem_reachable \<lparr>sys_state = memory_new, sys_open = (\<lambda>_. None)\<rparr>"
| step: "mem_reachable s \<Longrightarrow> mem_step s ev s' \<Longrightarrow> mem_reachable s'"



text \<open>An open transaction works on a version that is still retained unchanged.\<close>

definition open_ok :: "mem_state \<Rightarrow> mem_transaction \<Rightarrow> bool" where
  "open_ok st t \<longleftrightarrow> mem_tx_ok t \<and> ms_sequence (mt_base t) \<le> mem_head st
     \<and> bt_get (mem_retained st) (ms_sequence (mt_base t)) = Some (ms_tables (mt_base t))"

definition system_ok :: "mem_system \<Rightarrow> bool" where
  "system_ok s \<longleftrightarrow> mem_ok (sys_state s) \<and> (\<forall>i t. sys_open s i = Some t \<longrightarrow> open_ok (sys_state s) t)"

lemma commit_retains:
  assumes "mem_tx_commit d t st = (st', r)"
  shows "mem_head st \<le> mem_head st'" and "n \<le> mem_head st \<Longrightarrow> bt_get (mem_retained st') n = bt_get (mem_retained st) n"
  using assms
  by (cases rule: mem_commit_cases; use checked_add_word_less [of "mem_head st"] in fastforce)+

lemma open_ok_commit: "open_ok st u \<Longrightarrow> mem_tx_commit d t st = (st', r) \<Longrightarrow> open_ok st' u"
  using commit_retains [of d t st st' r] by (auto simp: open_ok_def intro: order_trans)

lemma open_ok_put: "open_ok st t \<Longrightarrow> mem_tx_put ks k v t = Inr t' \<Longrightarrow> open_ok st t'"
  using mem_tx_put_ok [of t] by (auto simp: open_ok_def mem_tx_put_def)

lemma open_ok_delete: "open_ok st t \<Longrightarrow> mem_tx_delete ks k t = Inr t' \<Longrightarrow> open_ok st t'"
  using mem_tx_delete_ok [of t] by (auto simp: open_ok_def mem_tx_delete_def)

lemma open_ok_begin: "mem_ok st \<Longrightarrow> mem_begin_write st = Inr t \<Longrightarrow> open_ok st t"
  using mem_begin_read_ok [of st Latest "mt_base t"]
  by (auto simp: open_ok_def mem_begin_write_eq mem_tx_ok_def mem_begin_read_eq Let_def)

lemma system_ok_step: "mem_step s ev s' \<Longrightarrow> system_ok s \<Longrightarrow> system_ok s'"
proof (induction rule: mem_step.induct)
  case (commit s i t d st' r)
  then have "mem_ok st'" by (meson mem_ok_commit open_ok_def system_ok_def)
  with commit show ?case by (auto simp: system_ok_def intro: open_ok_commit split: if_splits)
qed (auto simp: system_ok_def intro: open_ok_begin open_ok_put open_ok_delete split: if_splits)

lemma system_ok_reachable: "mem_reachable s \<Longrightarrow> system_ok s"
proof (induction rule: mem_reachable.induct)
  case start
  show ?case by (simp add: system_ok_def mem_ok_new)
qed (rule system_ok_step)



section \<open>A concrete run\<close>

text \<open>Two transactions are opened on a fresh engine; the first writes one key and commits.\<close>

abbreviation run_empty :: mem_transaction where
  "run_empty \<equiv> \<lparr>mt_base = \<lparr>ms_sequence = 0, ms_tables = []\<rparr>, mt_changes = []\<rparr>"

abbreviation run_tx :: mem_transaction where
  "run_tx \<equiv> \<lparr>mt_base = \<lparr>ms_sequence = 0, ms_tables = []\<rparr>,
     mt_changes = [((''journal'', [1, 2]), ChangePut [7])]\<rparr>"

abbreviation run_state :: mem_state where
  "run_state \<equiv> \<lparr>mem_head = 1, mem_retained = [(0, []), (1, [(''journal'', [([1, 2], [7])])])]\<rparr>"

abbreviation run_snapshot :: mem_snapshot where
  "run_snapshot \<equiv> \<lparr>ms_sequence = 1, ms_tables = [(''journal'', [([1, 2], [7])])]\<rparr>"

abbreviation run_system :: mem_system where
  "run_system \<equiv> \<lparr>sys_state = memory_new, sys_open = [0 \<mapsto> run_tx, 1 \<mapsto> run_empty]\<rparr>"

lemma run_begin: "mem_begin_write memory_new = Inr run_empty"
  by (simp add: mem_begin_write_def mem_begin_read_def memory_new_def)

lemma run_commit:
  "mem_tx_commit Sync run_tx memory_new = (run_state, Inr \<lparr>receipt_sequence = 1, receipt_durability = Sync\<rparr>)"
  by (simp add: mem_tx_commit_def memory_new_def checked_add_word_def bt_upsert_def)

lemma run_tx_ok: "mem_tx_ok run_tx"
  by (simp add: mem_tx_ok_def mem_snapshot_ok_def)

lemma run_read: "mem_begin_read Latest run_state = Inr run_snapshot"
  by (simp add: mem_begin_read_def)

lemma run_reachable: "mem_reachable run_system"
proof -
  let ?s0 = "\<lparr>sys_state = memory_new, sys_open = (\<lambda>_. None)\<rparr>"
  have "mem_reachable \<lparr>sys_state = memory_new, sys_open = [0 \<mapsto> run_empty]\<rparr>"
    using mem_reachable.step [OF mem_reachable.start mem_step.start_tx [of ?s0 0 run_empty]] by (simp add: run_begin)
  from mem_reachable.step [OF this mem_step.start_tx [of _ 1 run_empty]]
  have "mem_reachable \<lparr>sys_state = memory_new, sys_open = [0 \<mapsto> run_empty, 1 \<mapsto> run_empty]\<rparr>"
    by (simp add: run_begin)
  from mem_reachable.step [OF this mem_step.put [of _ 0 run_empty "Keyspace ''journal''" "[1, 2]" "[7]" run_tx]]
  show ?thesis by (simp add: mem_tx_put_def hm_insert_def bt_remove_def fun_upd_twist)
qed

lemma run_scan: "mem_scan_prefix run_snapshot (Keyspace ''journal'') [1] = Inr [Entry [1, 2] [7]]"
  by (simp add: mem_scan_prefix_def collect_prefix_pages_def collect_pages.simps mem_scan_prefix_page_def
      collect_scan_page_def table_range_def scan_request_validate_def LEGACY_SCAN_PAGE_ENTRIES_def
      LEGACY_SCAN_PAGE_BYTES_def MAX_SCAN_PAGE_ENTRIES_def MAX_SCAN_PAGE_BYTES_def checked_add_usize_def
      usize_max_def count_entry_bytes_def LEGACY_SCAN_MAX_ENTRIES_def LEGACY_SCAN_MAX_BYTES_def
      saturating_add_usize_def)

section \<open>Properties\<close>



text \<open>C38.
  First committer wins. Of two transactions that are open at the same time, once one has
  committed the commit of the other changes nothing and reports a write conflict with the
  sequence it started from and the new head.
\<close>

theorem mem_first_committer_wins:
  assumes "mem_reachable s" and "sys_open s i = Some t" and "sys_open s j = Some u"
    and "mem_tx_commit d t (sys_state s) = (st', Inr c)"
  shows "mem_tx_commit d' u st' = (st', Inl (WriteConflict (ms_sequence (mt_base u)) (mem_head st')))"
proof -
  have u: "ms_sequence (mt_base u) \<le> mem_head (sys_state s)"
    using system_ok_reachable [OF assms(1)] assms(3) by (auto simp: system_ok_def open_ok_def)
  from assms(4) have "mem_head (sys_state s) < mem_head st'"
    by (cases rule: mem_commit_cases) (auto dest: checked_add_word_less)
  with u show ?thesis by (auto simp: mem_tx_commit_def)
qed

theorem mem_first_committer_wins_witness:
  "mem_tx_commit Ephemeral run_empty run_state = (run_state, Inl (WriteConflict 0 1))"
  using mem_first_committer_wins [OF run_reachable, of 0 run_tx 1 run_empty Sync run_state
      "\<lparr>receipt_sequence = 1, receipt_durability = Sync\<rparr>" Ephemeral] run_commit
  by simp

text \<open>
  Snapshot isolation over time. A step of the system never changes a version that is already
  published: a read at any earlier sequence returns the same snapshot before and after it.
\<close>

theorem mem_snapshots_stable:
  assumes "mem_step s ev s'" and "n \<le> mem_head (sys_state s)"
  shows "mem_begin_read (At n) (sys_state s') = Inr snapshot \<longleftrightarrow>
    mem_begin_read (At n) (sys_state s) = Inr snapshot"
  using assms by (induction rule: mem_step.induct) (auto simp: mem_begin_read_eq Let_def commit_retains)

theorem mem_snapshots_stable_witness:
  "mem_begin_read (At 0) run_state = Inr \<lparr>ms_sequence = 0, ms_tables = []\<rparr> \<longleftrightarrow>
   mem_begin_read (At 0) memory_new = Inr \<lparr>ms_sequence = 0, ms_tables = []\<rparr>"
  using mem_snapshots_stable [OF mem_step.commit [of run_system 0 run_tx Sync run_state
      "Inr \<lparr>receipt_sequence = 1, receipt_durability = Sync\<rparr>"], of 0 "\<lparr>ms_sequence = 0, ms_tables = []\<rparr>"]
    run_commit
  by simp

text \<open>
  Reads inside a transaction see its own writes exactly as a commit would publish them: \<open>get\<close> and
  \<open>scan_prefix\<close> return the same on the open transaction as on the latest snapshot once the
  transaction has committed.
\<close>

theorem mem_tx_reads_are_committed_reads:
  assumes "mem_ok st" and "mem_tx_ok t" and "mem_tx_commit d t st = (st', Inr c)"
    and "mem_begin_read Latest st' = Inr s"
  shows "mem_tx_get t ks k = mem_get s ks k
    \<and> (mem_tx_scan_prefix t ks prefix = Inr es \<longleftrightarrow> mem_scan_prefix s ks prefix = Inr es)"
proof -
  have tables: "ms_tables s = tx_result t"
    using assms(3,4) by (cases rule: mem_commit_cases) (auto simp: mem_begin_read_eq Let_def)
  then have view: "mem_view s = mem_tx_view t" by (simp add: mem_view_def mem_tx_view_def fun_eq_iff)
  have s: "mem_snapshot_ok s" using mem_ok_commit [OF assms(1-3)] assms(4) by (rule mem_begin_read_ok)
  have "mem_tx_get t ks k = mem_get s ks k"
    using memory_transaction.get_view [OF assms(2), of ks k] memory_snapshot.get_view [OF s, of ks k] view
    by (simp add: mem_snapshot_ops_def mem_transaction_ops_def)
  moreover have "mem_tx_scan_prefix t ks prefix = Inr es \<longleftrightarrow> mem_scan_prefix s ks prefix = Inr es"
    using mem_transaction_pages.collect_prefix_pages_iff [OF assms(2)]
      mem_snapshot_pages.collect_prefix_pages_iff [OF s]
    by (simp add: mem_tx_scan_prefix_def mem_scan_prefix_def tables)
  ultimately show ?thesis ..
qed

theorem mem_tx_reads_are_committed_reads_witness:
  "mem_tx_get run_tx (Keyspace ''journal'') [1, 2] = Inr (Some [7])
   \<and> mem_tx_scan_prefix run_tx (Keyspace ''journal'') [1] = Inr [Entry [1, 2] [7]]"
  using mem_tx_reads_are_committed_reads [OF mem_ok_new run_tx_ok run_commit run_read,
      of "Keyspace ''journal''" "[1, 2]" "[1]" "[Entry [1, 2] [7]]"] run_scan
  by (simp add: mem_get_def)

text \<open>C39.
  A prefix scan of a snapshot returns a listing exactly when it is the listing of the keys below the
  prefix, in strictly increasing order with their values, and within the documented limits on the
  number of entries, the total size and the size of one entry.
\<close>

theorem mem_scan_prefix_exact:
  assumes "mem_ok st" and "mem_begin_read selector st = Inr s"
  shows "mem_scan_prefix s ks prefix = Inr es \<longleftrightarrow> listing (mem_view s ks) prefix es \<and> scan_fits es"
proof -
  have s: "mem_snapshot_ok s" using assms by (rule mem_begin_read_ok)
  have list: "listing (mem_view s ks) prefix (filter (\<lambda>e. starts_with (entry_key e) prefix) (mem_table s ks))"
    using s listing_table_entries [of "the_table (ms_tables s) (as_str ks)" prefix]
    by (simp add: mem_view_def tables_get_the_table mem_snapshot_ok_def the_table_ok)
  then show ?thesis
    using mem_snapshot_pages.collect_prefix_pages_iff [OF s, of ks prefix es] listing_unique [OF list, of es]
    by (auto simp: mem_scan_prefix_def)
qed

theorem mem_scan_prefix_exact_witness:
  "listing (mem_view run_snapshot (Keyspace ''journal'')) [1] [Entry [1, 2] [7]] \<and> scan_fits [Entry [1, 2] [7]]"
  using mem_scan_prefix_exact [OF mem_ok_commit [OF mem_ok_new run_tx_ok run_commit] run_read,
      of "Keyspace ''journal''" "[1]" "[Entry [1, 2] [7]]"] run_scan
  by simp

text \<open>
  A commit is all or nothing: it fails and leaves the engine unchanged, or the head advances by one,
  the new version shows for every key the staged change, or the base where there is none, and the
  receipt names the new head and the requested durability.
\<close>

theorem mem_commit_all_or_nothing:
  assumes "mem_ok st" and "mem_tx_ok t" and "mem_tx_commit d t st = (st', r)"
  shows "(case r of
      Inl e \<Rightarrow> st' = st
    | Inr c \<Rightarrow> mem_ok st' \<and> unat (mem_head st') = Suc (unat (mem_head st))
        \<and> c = \<lparr>receipt_sequence = mem_head st', receipt_durability = d\<rparr>
        \<and> mem_content st' ks k =
            (case map_of (mt_changes t) (as_str ks, k) of
               Some (ChangePut v) \<Rightarrow> Some v | Some ChangeDelete \<Rightarrow> None | None \<Rightarrow> mem_view (mt_base t) ks k))"
  using assms(3)
proof (cases rule: mem_commit_cases)
  case (committed n)
  have "mem_content st' ks = mem_tx_view t ks"
    using committed(3) by (simp add: mem_content_def mem_tx_view_def)
  then show ?thesis
    using committed unat_checked_add [OF committed(2)] mem_ok_commit [OF assms] assms(2)
    by (simp add: mem_tx_view_eq overlay_def)
qed simp_all

theorem mem_commit_all_or_nothing_witness:
  "unat (mem_head run_state) = Suc (unat (mem_head memory_new))
   \<and> mem_content run_state (Keyspace ''journal'') [1, 2] = Some [7]"
  using mem_commit_all_or_nothing [OF mem_ok_new run_tx_ok run_commit, of "Keyspace ''journal''" "[1, 2]"]
  by simp

end
