(* ===== verification/Fault_Storage.thy ===== *)
theory Fault_Storage
  imports Memory_Storage
begin

text \<open>
  The fault-injecting wrapper, \<open>crates/contextdb-storage-fault/src/lib.rs\<close>. It is a functor on
  engines: every method delegates to the wrapped engine, and a commit first takes one action from
  the shared first-in first-out schedule. The schedule behind the controller's lock is part of the
  wrapper's state, so that arming it and committing share it. The theory shows that the wrapper of
  every lawful engine is a lawful engine, and what each fault does to the engine and the response.
\<close>

section \<open>Model\<close>

datatype fault_action = NoSpaceBeforeCommit | LoseResponseAfterCommit | WeakenDurabilityReceipt

record 'e fault_storage =
  fault_engine :: 'e
  fault_actions :: "fault_action list"

record 't fault_transaction =
  fault_inner :: 't

definition fault_new :: "'e \<Rightarrow> 'e fault_storage" where
  "fault_new engine = \<lparr>fault_engine = engine, fault_actions = []\<rparr>"

definition fault_into_inner :: "'e fault_storage \<Rightarrow> 'e" where
  "fault_into_inner f = fault_engine f"

definition fault_arm :: "fault_action \<Rightarrow> 'e fault_storage \<Rightarrow> 'e fault_storage" where
  "fault_arm action f = f\<lparr>fault_actions := fault_actions f @ [action]\<rparr>"

definition fault_pending :: "'e fault_storage \<Rightarrow> nat" where
  "fault_pending f = length (fault_actions f)"

definition fault_take :: "'e fault_storage \<Rightarrow> 'e fault_storage \<times> fault_action option" where
  "fault_take f =
     (case fault_actions f of
        [] \<Rightarrow> (f, None)
      | action # actions \<Rightarrow> (f\<lparr>fault_actions := actions\<rparr>, Some action))"

text \<open>The commit of the wrapped transaction, on the wrapped engine.\<close>

definition fault_inner_commit ::
  "('e, 's, 't) storage_engine_ops \<Rightarrow> durability \<Rightarrow> 't fault_transaction \<Rightarrow> 'e fault_storage \<Rightarrow>
   'e fault_storage \<times> (storage_error + commit_receipt)" where
  "fault_inner_commit ops durability t f =
     (let (e, r) = tx_commit (eng_transaction ops) durability (fault_inner t) (fault_engine f)
      in (f\<lparr>fault_engine := e\<rparr>, r))"

definition fault_commit ::
  "('e, 's, 't) storage_engine_ops \<Rightarrow> durability \<Rightarrow> 't fault_transaction \<Rightarrow> 'e fault_storage \<Rightarrow>
   'e fault_storage \<times> (storage_error + commit_receipt)" where
  "fault_commit ops durability t f =
     (case fault_take f of
        (f', Some NoSpaceBeforeCommit) \<Rightarrow>
          (f', Inl (Backend ''fault-injection'' ''injected no space left on device before atomic commit''))
      | (f', Some LoseResponseAfterCommit) \<Rightarrow>
          (case fault_inner_commit ops durability t f' of
             (f'', Inl e) \<Rightarrow> (f'', Inl e)
           | (f'', Inr receipt) \<Rightarrow>
               (f'', Inl (Backend ''fault-injection'' ''injected response loss after atomic commit'')))
      | (f', Some WeakenDurabilityReceipt) \<Rightarrow>
          (case fault_inner_commit ops durability t f' of
             (f'', Inl e) \<Rightarrow> (f'', Inl e)
           | (f'', Inr receipt) \<Rightarrow> (f'', Inr (receipt\<lparr>receipt_durability := Ephemeral\<rparr>)))
      | (f', None) \<Rightarrow> fault_inner_commit ops durability t f')"

definition fault_put ::
  "('e, 's, 't) storage_engine_ops \<Rightarrow> keyspace \<Rightarrow> bytes \<Rightarrow> bytes \<Rightarrow> 't fault_transaction \<Rightarrow>
   storage_error + 't fault_transaction" where
  "fault_put ops ks k v t =
     rbind (tx_put (eng_transaction ops) ks k v (fault_inner t)) (\<lambda>i. Inr \<lparr>fault_inner = i\<rparr>)"

definition fault_delete ::
  "('e, 's, 't) storage_engine_ops \<Rightarrow> keyspace \<Rightarrow> bytes \<Rightarrow> 't fault_transaction \<Rightarrow>
   storage_error + 't fault_transaction" where
  "fault_delete ops ks k t =
     rbind (tx_delete (eng_transaction ops) ks k (fault_inner t)) (\<lambda>i. Inr \<lparr>fault_inner = i\<rparr>)"

definition fault_transaction_ops ::
  "('e, 's, 't) storage_engine_ops \<Rightarrow> ('t fault_transaction, 'e fault_storage) write_transaction_ops" where
  "fault_transaction_ops ops =
     \<lparr>snap_sequence = (\<lambda>t. snap_sequence (eng_transaction ops) (fault_inner t)),
      snap_get = (\<lambda>t. snap_get (eng_transaction ops) (fault_inner t)),
      snap_scan_prefix = (\<lambda>t. snap_scan_prefix (eng_transaction ops) (fault_inner t)),
      snap_scan_prefix_page = (\<lambda>t. snap_scan_prefix_page (eng_transaction ops) (fault_inner t)),
      tx_put = fault_put ops, tx_delete = fault_delete ops, tx_commit = fault_commit ops,
      tx_rollback = (\<lambda>t. tx_rollback (eng_transaction ops) (fault_inner t))\<rparr>"

definition fault_ops ::
  "('e, 's, 't) storage_engine_ops \<Rightarrow> ('e fault_storage, 's, 't fault_transaction) storage_engine_ops" where
  "fault_ops ops =
     \<lparr>eng_snapshot = eng_snapshot ops, eng_transaction = fault_transaction_ops ops,
      eng_head_sequence = (\<lambda>f. eng_head_sequence ops (fault_engine f)),
      eng_begin_read = (\<lambda>selector f. eng_begin_read ops selector (fault_engine f)),
      eng_begin_write = (\<lambda>f. rbind (eng_begin_write ops (fault_engine f)) (\<lambda>i. Inr \<lparr>fault_inner = i\<rparr>)),
      eng_checkpoint = (\<lambda>target f. eng_checkpoint ops target (fault_engine f)),
      eng_compact = (\<lambda>request f. eng_compact ops request (fault_engine f)),
      eng_verify = (\<lambda>mode f. eng_verify ops mode (fault_engine f))\<rparr>"

section \<open>The wrapper of a lawful engine is lawful\<close>

lemma fault_ops_simps [simp]:
  "eng_snapshot (fault_ops ops) = eng_snapshot ops"
  "eng_transaction (fault_ops ops) = fault_transaction_ops ops"
  "eng_begin_read (fault_ops ops) = (\<lambda>selector f. eng_begin_read ops selector (fault_engine f))"
  "eng_begin_write (fault_ops ops) =
     (\<lambda>f. rbind (eng_begin_write ops (fault_engine f)) (\<lambda>i. Inr \<lparr>fault_inner = i\<rparr>))"
  "tx_put (fault_transaction_ops ops) = fault_put ops"
  "tx_delete (fault_transaction_ops ops) = fault_delete ops"
  "tx_commit (fault_transaction_ops ops) = fault_commit ops"
  "tx_rollback (fault_transaction_ops ops) = (\<lambda>t. tx_rollback (eng_transaction ops) (fault_inner t))"
  "snap_get (fault_transaction_ops ops) = (\<lambda>t. snap_get (eng_transaction ops) (fault_inner t))"
  "snap_scan_prefix (fault_transaction_ops ops) = (\<lambda>t. snap_scan_prefix (eng_transaction ops) (fault_inner t))"
  by (simp_all add: fault_ops_def fault_transaction_ops_def)

text \<open>
  The engine after a commit is the engine before it, or the engine after the wrapped commit; and a
  success of the wrapper is a success of the wrapped commit.
\<close>

lemma fault_commit_engine:
  assumes "fault_commit ops d t f = (f', r)"
    and "tx_commit (eng_transaction ops) d (fault_inner t) (fault_engine f) = (e', r')"
  shows "fault_engine f' = fault_engine f \<or> fault_engine f' = e'"
    and "r = Inr c \<Longrightarrow> fault_engine f' = e' \<and> (\<exists>c'. r' = Inr c')"
  using assms
  by (auto simp: fault_commit_def fault_take_def fault_inner_commit_def Let_def
      split: list.splits fault_action.splits prod.splits sum.splits)

context storage_engine
begin

lemma fault_engine_lawful:
  "storage_engine (fault_ops ops) sview svalid (\<lambda>t. tview (fault_inner t)) (\<lambda>t. tvalid (fault_inner t))
     (\<lambda>f. content (fault_engine f)) (\<lambda>f. evalid (fault_engine f))
     (\<lambda>t f. based (fault_inner t) (fault_engine f))
     (\<lambda>f. fault_actions f = [] \<and> available (fault_engine f))"
proof (intro storage_engine.intro storage_engine_axioms.intro, unfold fault_ops_simps)
  show "read_snapshot (eng_snapshot ops) sview svalid" by unfold_locales
  show "read_snapshot (fault_transaction_ops ops) (\<lambda>t. tview (fault_inner t)) (\<lambda>t. tvalid (fault_inner t))"
    by (rule read_snapshot.intro; unfold fault_ops_simps; erule tx.get_view tx.scan_sound tx.scan_complete; assumption)
next
  fix f :: "'e fault_storage"
  assume f: "evalid (fault_engine f)"
  show "\<exists>s. eng_begin_read ops Latest (fault_engine f) = Inr s \<and> svalid s \<and> sview s = content (fault_engine f)"
    using begin_read_latest [OF f] .
  show "\<exists>t. rbind (eng_begin_write ops (fault_engine f)) (\<lambda>i. Inr \<lparr>fault_inner = i\<rparr>) = Inr t \<and>
      tvalid (fault_inner t) \<and> tview (fault_inner t) = content (fault_engine f) \<and>
      based (fault_inner t) (fault_engine f)"
  proof -
    obtain i where "eng_begin_write ops (fault_engine f) = Inr i" "tvalid i" "tview i = content (fault_engine f)"
      "based i (fault_engine f)"
      using begin_write_latest [OF f] by blast
    then show ?thesis by (intro exI [of _ "\<lparr>fault_inner = i\<rparr>"]) simp
  qed
next
  fix t :: "'t fault_transaction" and ks k v
  assume t: "tvalid (fault_inner t)"
  show "\<exists>t'. fault_put ops ks k v t = Inr t' \<and> tvalid (fault_inner t') \<and>
      tview (fault_inner t') = (tview (fault_inner t))(ks := (tview (fault_inner t) ks)(k \<mapsto> v)) \<and>
      (\<forall>e. based (fault_inner t) (fault_engine e) \<longrightarrow> based (fault_inner t') (fault_engine e))"
  proof -
    obtain i where "tx_put (eng_transaction ops) ks k v (fault_inner t) = Inr i" "tvalid i"
      "tview i = (tview (fault_inner t))(ks := (tview (fault_inner t) ks)(k \<mapsto> v))"
      "\<forall>e. based (fault_inner t) e \<longrightarrow> based i e"
      using put_view [OF t, of ks k v] by blast
    then show ?thesis by (intro exI [of _ "\<lparr>fault_inner = i\<rparr>"]) (simp add: fault_put_def)
  qed
  show "\<exists>t'. fault_delete ops ks k t = Inr t' \<and> tvalid (fault_inner t') \<and>
      tview (fault_inner t') = (tview (fault_inner t))(ks := (tview (fault_inner t) ks)(k := None)) \<and>
      (\<forall>e. based (fault_inner t) (fault_engine e) \<longrightarrow> based (fault_inner t') (fault_engine e))"
  proof -
    obtain i where "tx_delete (eng_transaction ops) ks k (fault_inner t) = Inr i" "tvalid i"
      "tview i = (tview (fault_inner t))(ks := (tview (fault_inner t) ks)(k := None))"
      "\<forall>e. based (fault_inner t) e \<longrightarrow> based i e"
      using delete_view [OF t, of ks k] by blast
    then show ?thesis by (intro exI [of _ "\<lparr>fault_inner = i\<rparr>"]) (simp add: fault_delete_def)
  qed
next
  fix f :: "'e fault_storage" and t :: "'t fault_transaction" and d f' r
  assume asm: "evalid (fault_engine f)" "tvalid (fault_inner t)" "based (fault_inner t) (fault_engine f)"
  obtain e' r' where inner: "tx_commit (eng_transaction ops) d (fault_inner t) (fault_engine f) = (e', r')"
    by (meson surj_pair)
  note atomic = commit_atomic [OF asm inner]
  show "\<exists>f' c. fault_commit ops d t f = (f', Inr c) \<and> receipt_durability c = d"
    if "fault_actions f = [] \<and> available (fault_engine f)"
    using that commit_available [OF asm, of d]
    by (auto simp: fault_commit_def fault_take_def fault_inner_commit_def)
  assume c: "fault_commit ops d t f = (f', r)"
  show "evalid (fault_engine f') \<and>
      (content (fault_engine f') = content (fault_engine f) \<or> content (fault_engine f') = tview (fault_inner t)) \<and>
      (\<forall>c. r = Inr c \<longrightarrow> content (fault_engine f') = tview (fault_inner t))"
    using fault_commit_engine [OF c inner] atomic asm(1) by auto
next
  show "tx_rollback (eng_transaction ops) (fault_inner t) = Inr ()" for t :: "'t fault_transaction"
    by (rule rollback_ok)
qed

end

interpretation fault_memory: storage_engine "fault_ops memory_ops" mem_view mem_snapshot_ok
  "\<lambda>t. mem_tx_view (fault_inner t)" "\<lambda>t. mem_tx_ok (fault_inner t)"
  "\<lambda>f. mem_content (fault_engine f)" "\<lambda>f. mem_ok (fault_engine f)"
  "\<lambda>t f. mem_based (fault_inner t) (fault_engine f)"
  "\<lambda>f. fault_actions f = [] \<and> mem_available (fault_engine f)"
  by (rule memory.fault_engine_lawful)

section \<open>Properties\<close>

text \<open>
  What a scheduled fault does to a commit of the in-memory backend. Without a scheduled action the
  wrapper is transparent. \<open>NoSpaceBeforeCommit\<close> fails and leaves the backend as it was.
  \<open>LoseResponseAfterCommit\<close> always fails, yet leaves the backend as the commit itself would.
  \<open>WeakenDurabilityReceipt\<close> does what the commit does and reports ephemeral durability. Each
  commit consumes the oldest action and no other.
\<close>

theorem fault_commit_outcomes:
  assumes "mem_tx_commit d t st = (st', r)"
  shows "fault_commit memory_ops d \<lparr>fault_inner = t\<rparr> \<lparr>fault_engine = st, fault_actions = actions\<rparr> =
    (case actions of
       [] \<Rightarrow> (\<lparr>fault_engine = st', fault_actions = []\<rparr>, r)
     | NoSpaceBeforeCommit # rest \<Rightarrow>
         (\<lparr>fault_engine = st, fault_actions = rest\<rparr>,
          Inl (Backend ''fault-injection'' ''injected no space left on device before atomic commit''))
     | LoseResponseAfterCommit # rest \<Rightarrow>
         (\<lparr>fault_engine = st', fault_actions = rest\<rparr>,
          Inl (case r of Inl e \<Rightarrow> e
               | Inr c \<Rightarrow> Backend ''fault-injection'' ''injected response loss after atomic commit''))
     | WeakenDurabilityReceipt # rest \<Rightarrow>
         (\<lparr>fault_engine = st', fault_actions = rest\<rparr>,
          map_sum id (\<lambda>c. c\<lparr>receipt_durability := Ephemeral\<rparr>) r))"
  using assms
  by (cases r)
    (auto simp: fault_commit_def fault_take_def fault_inner_commit_def split: list.splits fault_action.splits)

theorem fault_commit_outcomes_witness:
  "fault_commit memory_ops Sync \<lparr>fault_inner = run_tx\<rparr>
     \<lparr>fault_engine = memory_new, fault_actions = [LoseResponseAfterCommit]\<rparr> =
   (\<lparr>fault_engine = run_state, fault_actions = []\<rparr>,
    Inl (Backend ''fault-injection'' ''injected response loss after atomic commit''))"
  using fault_commit_outcomes [OF run_commit, of "[LoseResponseAfterCommit]"] by simp

end
