(* ===== verification/Journal_Records.thy ===== *)
theory Journal_Records
  imports Journal_Coordinator Fault_Storage
begin

text \<open>
  The list of published operations as the specification of the journal, and the records that each
  operation occupies in the store: the frames, their places, and the conditions under which an
  operation may follow a journal.
\<close>

section \<open>Published operations and their records\<close>

datatype ('o, 'm, 'x) journal_op =
    JObs (op_key: digest) (op_durability: durability) "'o validated_observation"
  | JSem (op_key: digest) (op_durability: durability) uuid "'m validated_mutation"
  | JMnt (op_key: digest) (op_durability: durability) uuid "'x validated_maintenance"

type_synonym store = "keyspace \<Rightarrow> bytes \<Rightarrow> bytes option"
type_synonym record_put = "keyspace \<times> bytes \<times> (journal_error + bytes)"

fun op_digest :: "('o, 'm, 'x) journal_op \<Rightarrow> digest" where
  "op_digest (JObs kd d v) = vo_digest v"
| "op_digest (JSem kd d p v) = vm_digest v"
| "op_digest (JMnt kd d p v) = vx_digest v"

fun same_kind :: "('o, 'm, 'x) journal_op \<Rightarrow> ('o, 'm, 'x) journal_op \<Rightarrow> bool" where
  "same_kind (JObs a b c) (JObs a' b' c') = True"
| "same_kind (JSem a b c d) (JSem a' b' c' d') = True"
| "same_kind (JMnt a b c d) (JMnt a' b' c' d') = True"
| "same_kind x y = False"

text \<open>Two operations are one request when key, exact request digest and kind agree.\<close>

definition same_request :: "('o, 'm, 'x) journal_op \<Rightarrow> ('o, 'm, 'x) journal_op \<Rightarrow> bool" where
  "same_request a b \<longleftrightarrow> op_key a = op_key b \<and> op_digest a = op_digest b \<and> same_kind a b"

fun op_receipt :: "('o, 'm, 'x, 'w) journal_env \<Rightarrow> u64 \<Rightarrow> ('o, 'm, 'x) journal_op \<Rightarrow> stored_receipt" where
  "op_receipt env n (JObs kd d v) = StoredObservation
     \<lparr>or_observation_id = vo_id env v, or_commit_seq = n, or_durability = d, or_replayed = False,
      or_request_digest = vo_digest v\<rparr>"
| "op_receipt env n (JSem kd d p v) = StoredPublication
     \<lparr>pr_mutation_id = vm_id env v, pr_publication_id = p, pr_commit_seq = n, pr_durability = d,
      pr_outbox_count = of_nat (length (mut_work (semantic env) (vm_mutation v))), pr_replayed = False,
      pr_mutation_digest = vm_digest v\<rparr>"
| "op_receipt env n (JMnt kd d p v) = StoredMaintenance
     \<lparr>mr_mutation_id = vx_id env v, mr_publication_id = p, mr_commit_seq = n, mr_durability = d,
      mr_outbox_count = of_nat (length (mnt_work (maintenance env) (vx_mutation v))), mr_replayed = False,
      mr_mutation_digest = vx_digest v\<rparr>"

fun replayed :: "stored_receipt \<Rightarrow> stored_receipt" where
  "replayed (StoredObservation r) = StoredObservation (r\<lparr>or_replayed := True\<rparr>)"
| "replayed (StoredPublication r) = StoredPublication (r\<lparr>pr_replayed := True\<rparr>)"
| "replayed (StoredMaintenance r) = StoredMaintenance (r\<lparr>mr_replayed := True\<rparr>)"

fun op_event :: "('o, 'm, 'x, 'w) journal_env \<Rightarrow> u64 \<Rightarrow> ('o, 'm, 'x) journal_op \<Rightarrow> 'w journal_event" where
  "op_event env n (JObs kd d v) = ObservationAccepted n (vo_id env v) (vo_bytes v) (vo_digest v)"
| "op_event env n (JSem kd d p v) =
     SemanticPublished n (vm_id env v) p (vm_bytes v) (vm_digest v) (mut_work (semantic env) (vm_mutation v))"
| "op_event env n (JMnt kd d p v) =
     MaintenancePublished n (vx_id env v) p (vx_bytes v) (vx_digest v) (mnt_work (maintenance env) (vx_mutation v))"

definition outbox_records ::
  "('o, 'm, 'x, 'w) journal_env \<Rightarrow> u64 \<Rightarrow> uuid \<Rightarrow> nat \<Rightarrow> 'w list \<Rightarrow> record_put list" where
  "outbox_records env n mutation_id index works =
     map (\<lambda>(i, w). (ks_outbox, outbox_key n (of_nat i),
            encode env (outbox_codec env) KOutbox n \<lparr>ob_mutation_id = mutation_id, ob_index = of_nat i, ob_work = w\<rparr>))
       (enumerate index works)"

definition key_record ::
  "('o, 'm, 'x, 'w) journal_env \<Rightarrow> u64 \<Rightarrow> ('o, 'm, 'x) journal_op \<Rightarrow> record_put" where
  "key_record env n x = (ks_idempotency, idempotency_key (op_key x),
     encode env (idempotency_codec env) KSnapshot n
       \<lparr>ip_key_digest = op_key x, ip_request_digest = op_digest x, ip_receipt = op_receipt env n x\<rparr>)"

fun op_records :: "('o, 'm, 'x, 'w) journal_env \<Rightarrow> u64 \<Rightarrow> ('o, 'm, 'x) journal_op \<Rightarrow> record_put list" where
  "op_records env n (JObs kd d v) =
     [(ks_events, event_key n, encode env (observation_codec env) KObservation n
         \<lparr>of_observation_id = vo_id env v, of_digest = vo_digest v, of_bytes = vo_bytes v\<rparr>),
      (ks_observations, observation_key (vo_id env v), encode env (index_codec env) KSnapshot n
         \<lparr>ii_commit_seq = n, ii_digest = vo_digest v\<rparr>),
      key_record env n (JObs kd d v)]"
| "op_records env n (JSem kd d p v) =
     [(ks_mutations, mutation_key (vm_id env v), encode env (mutation_codec env) KSemanticMutation n
         \<lparr>mf_mutation_id = vm_id env v, mf_digest = vm_digest v, mf_bytes = vm_bytes v\<rparr>),
      (ks_events, event_key n, encode env (publication_codec env) KSemanticPublication n
         \<lparr>pf_mutation_id = vm_id env v, pf_publication_id = p, pf_digest = vm_digest v,
          pf_outbox_count = of_nat (length (mut_work (semantic env) (vm_mutation v)))\<rparr>)]
     @ outbox_records env n (vm_id env v) 0 (mut_work (semantic env) (vm_mutation v))
     @ [key_record env n (JSem kd d p v)]"
| "op_records env n (JMnt kd d p v) =
     [(ks_mutations, mutation_key (vx_id env v), encode env (mutation_codec env) KMaintenanceMutation n
         \<lparr>mf_mutation_id = vx_id env v, mf_digest = vx_digest v, mf_bytes = vx_bytes v\<rparr>),
      (ks_events, event_key n, encode env (publication_codec env) KMaintenancePublication n
         \<lparr>pf_mutation_id = vx_id env v, pf_publication_id = p, pf_digest = vx_digest v,
          pf_outbox_count = of_nat (length (mnt_work (maintenance env) (vx_mutation v)))\<rparr>)]
     @ outbox_records env n (vx_id env v) 0 (mnt_work (maintenance env) (vx_mutation v))
     @ [key_record env n (JMnt kd d p v)]"

definition head_record :: "('o, 'm, 'x, 'w) journal_env \<Rightarrow> u64 \<Rightarrow> record_put" where
  "head_record env n = (ks_meta, HEAD_KEY, encode env (head_codec env) KSnapshot n (HeadPayload n))"

text \<open>Storing a list of records, all of which could be encoded.\<close>

definition store_put :: "keyspace \<Rightarrow> bytes \<Rightarrow> bytes \<Rightarrow> store \<Rightarrow> store" where
  "store_put ks k b c = c(ks := (c ks)(k \<mapsto> b))"

fun staged :: "record_put list \<Rightarrow> store \<Rightarrow> store \<Rightarrow> bool" where
  "staged [] c c' \<longleftrightarrow> c' = c"
| "staged ((ks, k, r) # rs) c c' \<longleftrightarrow> (\<exists>b. r = Inr b \<and> staged rs (store_put ks k b c) c')"

definition put_place :: "record_put \<Rightarrow> keyspace \<times> bytes" where
  "put_place = (\<lambda>(ks, k, r). (ks, k))"

lemma put_place_simp [simp]: "put_place (ks, k, r) = (ks, k)"
  by (simp add: put_place_def)

lemma staged_append: "staged (rs @ ss) c c' \<longleftrightarrow> (\<exists>d. staged rs c d \<and> staged ss d c')"
proof (induction rs arbitrary: c)
  case (Cons r rs)
  then show ?case by (cases r) auto
qed simp

lemma staged_ok: "staged rs c c' \<Longrightarrow> (ks, k, r) \<in> set rs \<Longrightarrow> \<exists>b. r = Inr b"
proof (induction rs arbitrary: c)
  case (Cons q rs)
  then show ?case by (cases q) auto
qed simp

lemma staged_get:
  assumes "staged rs c c'" and "distinct (map put_place rs)"
  shows "c' ks k = Some b \<longleftrightarrow>
    (ks, k, Inr b) \<in> set rs \<or> (ks, k) \<notin> put_place ` set rs \<and> c ks k = Some b"
  using assms
proof (induction rs arbitrary: c)
  case (Cons q rs)
  obtain ks0 k0 b0 where q: "q = (ks0, k0, Inr b0)" and st: "staged rs (store_put ks0 k0 b0 c) c'"
    using Cons.prems by (cases q) auto
  have notin: "(ks0, k0) \<notin> put_place ` set rs" and d: "distinct (map put_place rs)" using Cons.prems q by auto
  have absent: "(ks0, k0, p) \<notin> set rs" for p using notin by force
  from Cons.IH [OF st d] show ?case using absent notin by (auto simp: q store_put_def)
qed simp

section \<open>Keys\<close>

lemma keyspaces_distinct [simp]:
  "ks_meta \<noteq> ks_events" "ks_meta \<noteq> ks_outbox" "ks_meta \<noteq> ks_idempotency" "ks_meta \<noteq> ks_observations"
  "ks_meta \<noteq> ks_mutations" "ks_events \<noteq> ks_outbox" "ks_events \<noteq> ks_idempotency" "ks_events \<noteq> ks_observations"
  "ks_events \<noteq> ks_mutations" "ks_outbox \<noteq> ks_idempotency" "ks_outbox \<noteq> ks_observations"
  "ks_outbox \<noteq> ks_mutations" "ks_idempotency \<noteq> ks_observations" "ks_idempotency \<noteq> ks_mutations"
  "ks_observations \<noteq> ks_mutations"
  by (simp_all add: ks_meta_def ks_events_def ks_outbox_def ks_idempotency_def ks_observations_def ks_mutations_def)

lemmas keyspaces_distinct_sym [simp] = keyspaces_distinct [symmetric]

lemma event_key_inj [simp]: "event_key a = event_key b \<longleftrightarrow> a = b"
  by (simp add: event_key_def sequence_key_def to_be_bytes_inj)

lemma observation_key_inj [simp]: "observation_key a = observation_key b \<longleftrightarrow> a = b"
  by (simp add: observation_key_def uuid_key_def to_be_bytes_inj)

lemma mutation_key_inj [simp]: "mutation_key a = mutation_key b \<longleftrightarrow> a = b"
  by (simp add: mutation_key_def uuid_key_def to_be_bytes_inj)

lemma idempotency_key_inj [simp]: "idempotency_key a = idempotency_key b \<longleftrightarrow> a = b"
  by (simp add: idempotency_key_def)

lemma outbox_key_inj [simp]: "outbox_key a i = outbox_key b j \<longleftrightarrow> a = b \<and> i = j"
  by (auto simp: outbox_key_def to_be_bytes_inj)

lemma event_key_less [simp]: "event_key a < event_key b \<longleftrightarrow> a < b"
  by (simp add: event_key_def sequence_key_def EVENT_PREFIX_def ascii_def to_be_bytes_less_iff)

lemma sequence_from_event_key [simp]: "sequence_from_key (event_key n) EVENT_PREFIX 0 = Some n"
  by (simp add: sequence_from_key_def event_key_def sequence_key_def EVENT_PREFIX_def ascii_def
      checked_add_usize_def usize_max_def slice_get_def)

lemma sequence_from_outbox_key [simp]: "sequence_from_key (outbox_key n i) OUTBOX_PREFIX 4 = Some n"
  by (simp add: sequence_from_key_def outbox_key_def OUTBOX_PREFIX_def ascii_def
      checked_add_usize_def usize_max_def slice_get_def)

lemma event_key_prefix [simp]: "starts_with (event_key n) EVENT_PREFIX"
  by (simp add: event_key_def sequence_key_def starts_with_append)

lemma outbox_key_prefix [simp]: "starts_with (outbox_key n i) OUTBOX_PREFIX"
  by (simp add: outbox_key_def starts_with_append)

lemma outbox_key_sequence [simp]: "starts_with (outbox_key n i) (outbox_sequence_prefix m) \<longleftrightarrow> n = m"
proof -
  have "starts_with (xs @ ys) zs \<longleftrightarrow> xs = zs" if "length xs = length zs" for xs ys zs :: bytes
    using that by (auto simp: starts_with_iff)
  from this [of "OUTBOX_PREFIX @ to_be_bytes n" "outbox_sequence_prefix m" "to_be_bytes i"]
  show ?thesis by (simp add: outbox_key_def outbox_sequence_prefix_def sequence_key_def to_be_bytes_inj)
qed

lemma idempotency_key_prefix [simp]: "starts_with (idempotency_key kd) IDEMPOTENCY_PREFIX"
  by (simp add: idempotency_key_def starts_with_append)

section \<open>Frames\<close>

lemma decode_any_encode:
  assumes "codec_ok codec" and "encode env codec kind n x = Inr b"
  shows "decode_any env codec kind b = Inr \<lparr>dp_sequence = n, dp_value = x\<rparr>"
    and "decode env codec kind n b = Inr x"
proof -
  obtain payload where p: "to_vec codec x = Some payload"
    and e: "envelope_encode (blake3 env) (record_kind_u16 kind) SCHEMA_VERSION 0 n payload = Inr b"
    using assms(2) by (auto simp: encode_def)
  have "from_slice codec payload = Some x" using assms(1) p by (auto simp: codec_ok_def)
  with envelope_decode_encode [OF e]
  show "decode_any env codec kind b = Inr \<lparr>dp_sequence = n, dp_value = x\<rparr>"
    by (simp add: decode_any_def map_err_def ok_or_def)
  then show "decode env codec kind n b = Inr x" by (simp add: decode_def)
qed

lemma codecs_ok_simps:
  assumes "codecs_ok env"
  shows "codec_ok (head_codec env)" "codec_ok (index_codec env)" "codec_ok (observation_codec env)"
    "codec_ok (mutation_codec env)" "codec_ok (publication_codec env)" "codec_ok (outbox_codec env)"
    "codec_ok (idempotency_codec env)" "codec_ok (backup_codec env)"
  using assms by (simp_all add: codecs_ok_def)

section \<open>Well-formed journals\<close>

fun op_work :: "('o, 'm, 'x, 'w) journal_env \<Rightarrow> ('o, 'm, 'x) journal_op \<Rightarrow> 'w list" where
  "op_work env (JObs kd d v) = []"
| "op_work env (JSem kd d p v) = mut_work (semantic env) (vm_mutation v)"
| "op_work env (JMnt kd d p v) = mnt_work (maintenance env) (vx_mutation v)"

fun op_observation :: "('o, 'm, 'x, 'w) journal_env \<Rightarrow> ('o, 'm, 'x) journal_op \<Rightarrow> uuid option" where
  "op_observation env (JObs kd d v) = Some (vo_id env v)"
| "op_observation env (JSem kd d p v) = None"
| "op_observation env (JMnt kd d p v) = None"

fun op_mutation :: "('o, 'm, 'x, 'w) journal_env \<Rightarrow> ('o, 'm, 'x) journal_op \<Rightarrow> uuid option" where
  "op_mutation env (JObs kd d v) = None"
| "op_mutation env (JSem kd d p v) = Some (vm_id env v)"
| "op_mutation env (JMnt kd d p v) = Some (vx_id env v)"

text \<open>The bytes of an operation are the valid encoding of its value, and its digest is theirs.\<close>

fun op_parsed :: "('o, 'm, 'x, 'w) journal_env \<Rightarrow> ('o, 'm, 'x) journal_op \<Rightarrow> bool" where
  "op_parsed env (JObs kd d v) \<longleftrightarrow> observation_from_json env (vo_bytes v) = Inr v"
| "op_parsed env (JSem kd d p v) \<longleftrightarrow> mutation_from_json env (vm_bytes v) = Inr v"
| "op_parsed env (JMnt kd d p v) \<longleftrightarrow> maintenance_from_json env (vx_bytes v) = Inr v"

fun op_valid :: "('o, 'm, 'x, 'w) journal_env \<Rightarrow> ('o, 'm, 'x) journal_op list \<Rightarrow> ('o, 'm, 'x) journal_op \<Rightarrow> bool" where
  "op_valid env J (JObs kd d v) \<longleftrightarrow> True"
| "op_valid env J (JSem kd d p v) \<longleftrightarrow> mut_base (semantic env) (vm_mutation v) = of_nat (length J)
     \<and> (\<forall>i \<in> set (mut_refs (semantic env) (vm_mutation v)). Some i \<in> op_observation env ` set J)"
| "op_valid env J (JMnt kd d p v) \<longleftrightarrow> mnt_base (maintenance env) (vx_mutation v) = of_nat (length J)"

text \<open>
  An operation may follow a journal when it is valid there, its key and its identity are new, and its
  work items can be numbered.
\<close>

definition op_ok :: "('o, 'm, 'x, 'w) journal_env \<Rightarrow> ('o, 'm, 'x) journal_op list \<Rightarrow> ('o, 'm, 'x) journal_op \<Rightarrow> bool" where
  "op_ok env J x \<longleftrightarrow> op_parsed env x \<and> op_valid env J x \<and> op_key x \<notin> op_key ` set J
     \<and> (\<forall>i. op_observation env x = Some i \<longrightarrow> Some i \<notin> op_observation env ` set J)
     \<and> (\<forall>i. op_mutation env x = Some i \<longrightarrow> Some i \<notin> op_mutation env ` set J)
     \<and> length (op_work env x) < 2 ^ 32"

definition wf_journal :: "('o, 'm, 'x, 'w) journal_env \<Rightarrow> ('o, 'm, 'x) journal_op list \<Rightarrow> bool" where
  "wf_journal env J \<longleftrightarrow> length J < 2 ^ 64 \<and> (\<forall>i < length J. op_ok env (take i J) (J ! i))"

definition seq :: "nat \<Rightarrow> u64" where
  "seq i = of_nat (Suc i)"

lemma wf_journal_Nil [simp]: "wf_journal env []"
  by (simp add: wf_journal_def)

lemma wf_journal_snoc:
  "wf_journal env (J @ [x]) \<longleftrightarrow> wf_journal env J \<and> op_ok env J x \<and> Suc (length J) < 2 ^ 64"
  by (auto simp: wf_journal_def nth_append less_Suc_eq)

lemma unat_seq: "Suc i < 2 ^ 64 \<Longrightarrow> unat (seq i) = Suc i"
  unfolding seq_def by (simp only: unat_of_nat) simp

lemma seq_inj: "Suc i < 2 ^ 64 \<Longrightarrow> Suc j < 2 ^ 64 \<Longrightarrow> seq i = seq j \<longleftrightarrow> i = j"
  by (metis Suc_inject unat_seq)

section \<open>Places of the records\<close>

lemma outbox_place_list:
  "map put_place (outbox_records env n mid k works) =
     map (\<lambda>i. (ks_outbox, outbox_key n (of_nat i))) [k..<k + length works]"
proof (induction works arbitrary: k)
  case (Cons w works)
  have "[k..<k + length (w # works)] = k # [Suc k..<Suc k + length works]"
    by (simp add: upt_conv_Cons del: upt_Suc)
  with Cons [of "Suc k"] show ?case by (simp add: outbox_records_def)
qed (simp add: outbox_records_def)

lemma outbox_places:
  "put_place ` set (outbox_records env n mid 0 works) = (\<lambda>i. (ks_outbox, outbox_key n (of_nat i))) ` {..<length works}"
  using arg_cong [OF outbox_place_list [of env n mid 0 works], of set] by (simp add: atLeast0LessThan)

lemma op_places:
  "put_place ` set (op_records env n x) =
     {(ks_events, event_key n), (ks_idempotency, idempotency_key (op_key x))}
     \<union> (\<lambda>i. (ks_observations, observation_key i)) ` set_option (op_observation env x)
     \<union> (\<lambda>i. (ks_mutations, mutation_key i)) ` set_option (op_mutation env x)
     \<union> (\<lambda>i. (ks_outbox, outbox_key n (of_nat i))) ` {..<length (op_work env x)}"
  by (cases x) (auto simp: key_record_def image_Un outbox_places)

lemma outbox_places_distinct:
  assumes "length works < 2 ^ 32"
  shows "distinct (map put_place (outbox_records env n mid 0 works))"
proof -
  have "(of_nat i :: u32) = of_nat j \<longleftrightarrow> i = j" if "i < length works" "j < length works" for i j
    using that assms by (intro of_nat_word_eq_iff) simp_all
  then have "inj_on (\<lambda>i. (ks_outbox, outbox_key n (of_nat i))) {..<length works}"
    by (auto simp: inj_on_def)
  then show ?thesis by (simp add: outbox_place_list distinct_map atLeast0LessThan)
qed

lemma op_records_distinct:
  assumes "length (op_work env x) < 2 ^ 32"
  shows "distinct (map put_place (op_records env n x @ [head_record env n]))"
proof -
  have out: "(ks, k) \<in> put_place ` set (outbox_records env n mid 0 works) \<Longrightarrow> ks = ks_outbox" for ks k mid works
    by (auto simp: outbox_places)
  show ?thesis
    using assms outbox_places_distinct [of "op_work env x" env n]
    by (cases x) (auto simp: key_record_def head_record_def dest: out [simplified image_iff, OF bexI, rotated])
qed

end
