(* ===== verification/Journal_Refinement.thy ===== *)
theory Journal_Refinement
  imports Journal_Records
begin

text \<open>
  Refinement: the store of a coordinator represents a well-formed list of published operations, and
  every commit operation appends one operation to that list or leaves the store as it was. The
  lemmas hold for every engine that satisfies the storage contract; the properties at the end state
  them for the in-memory backend, also below the fault-injecting wrapper.
\<close>

section \<open>Representation\<close>

definition journal_record ::
  "('o, 'm, 'x, 'w) journal_env \<Rightarrow> ('o, 'm, 'x) journal_op list \<Rightarrow> record_put \<Rightarrow> bool" where
  "journal_record env J p \<longleftrightarrow>
     (\<exists>i < length J. p \<in> set (op_records env (seq i) (J ! i))) \<or> J \<noteq> [] \<and> p = head_record env (of_nat (length J))"

lemma seq_length: "of_nat (length (J @ [x])) = seq (length J)"
  by (simp add: seq_def)

definition journal_keyspaces :: "keyspace set" where
  "journal_keyspaces = {ks_meta, ks_events, ks_outbox, ks_idempotency, ks_observations, ks_mutations}"

lemma in_journal_keyspaces [simp]:
  "ks_meta \<in> journal_keyspaces" "ks_events \<in> journal_keyspaces" "ks_outbox \<in> journal_keyspaces"
  "ks_idempotency \<in> journal_keyspaces" "ks_observations \<in> journal_keyspaces" "ks_mutations \<in> journal_keyspaces"
  by (simp_all add: journal_keyspaces_def)

definition represents ::
  "('o, 'm, 'x, 'w) journal_env \<Rightarrow> ('o, 'm, 'x) journal_op list \<Rightarrow> store \<Rightarrow> bool" where
  "represents env J c \<longleftrightarrow> wf_journal env J
     \<and> (\<forall>ks k r. journal_record env J (ks, k, r) \<longrightarrow> (\<exists>b. r = Inr b))
     \<and> (\<forall>ks \<in> journal_keyspaces. \<forall>k b. c ks k = Some b \<longleftrightarrow> journal_record env J (ks, k, Inr b))"

lemma represents_Nil: "represents env [] (\<lambda>ks k. None)"
  by (simp add: represents_def journal_record_def)

lemma represents_wf: "represents env J c \<Longrightarrow> wf_journal env J"
  by (simp add: represents_def)

lemma represents_stored:
  assumes "represents env J c" and "journal_record env J (ks, k, r)" and "ks \<in> journal_keyspaces"
  shows "\<exists>b. r = Inr b \<and> c ks k = Some b"
proof -
  from assms obtain b where "r = Inr b" unfolding represents_def by blast
  with assms show ?thesis unfolding represents_def by blast
qed

lemma op_records_keyspace: "(ks, k, r) \<in> set (op_records env n x) \<Longrightarrow> ks \<in> journal_keyspaces \<and> ks \<noteq> ks_meta"
proof -
  assume "(ks, k, r) \<in> set (op_records env n x)"
  then have "(ks, k) \<in> put_place ` set (op_records env n x)" by force
  then show ?thesis by (auto simp: op_places journal_keyspaces_def)
qed

text \<open>The places of an operation that may follow a journal are free.\<close>

lemma new_places:
  assumes "wf_journal env (J @ [x])" and "i < length J" and "(ks, k, r) \<in> set (op_records env (seq i) (J ! i))"
  shows "(ks, k) \<notin> put_place ` set (op_records env (seq (length J)) x)"
proof -
  have ok: "op_ok env J x" and len: "Suc (length J) < 2 ^ 64" using assms(1) by (auto simp: wf_journal_snoc)
  have place: "(ks, k) \<in> put_place ` set (op_records env (seq i) (J ! i))" using assms(3) by force
  have mem: "J ! i \<in> set J" using assms(2) by simp
  have seqs: "seq i \<noteq> seq (length J)" using seq_inj [of i "length J"] len assms(2) by simp
  have "op_key x \<noteq> op_key (J ! i)" using ok mem by (auto simp: op_ok_def)
  moreover have "op_observation env x = Some a \<Longrightarrow> op_observation env (J ! i) \<noteq> Some a" for a
    using ok mem by (metis image_eqI op_ok_def)
  moreover have "op_mutation env x = Some a \<Longrightarrow> op_mutation env (J ! i) \<noteq> Some a" for a
    using ok mem by (metis image_eqI op_ok_def)
  ultimately show ?thesis using place seqs unfolding op_places by auto
qed

text \<open>Storing the records of an operation and the new head appends it.\<close>

lemma ex_nth_snoc: "(\<exists>i < length (J @ [x]). P i ((J @ [x]) ! i)) \<longleftrightarrow> (\<exists>i < length J. P i (J ! i)) \<or> P (length J) x"
proof -
  have "(\<exists>i < length (J @ [x]). P i ((J @ [x]) ! i)) \<longleftrightarrow> (\<exists>i < length J. P i ((J @ [x]) ! i)) \<or> P (length J) ((J @ [x]) ! length J)"
    unfolding length_append_singleton less_Suc_eq by blast
  then show ?thesis by (simp add: nth_append cong: conj_cong)
qed

lemma journal_record_snoc:
  "journal_record env (J @ [x]) p \<longleftrightarrow> (\<exists>i < length J. p \<in> set (op_records env (seq i) (J ! i)))
     \<or> p \<in> set (op_records env (seq (length J)) x @ [head_record env (seq (length J))])"
  unfolding journal_record_def seq_length ex_nth_snoc [of J x "\<lambda>i y. p \<in> set (op_records env (seq i) y)"]
  by auto

lemma represents_snoc:
  assumes rep: "represents env J c" and ok: "op_ok env J x" and len: "Suc (length J) < 2 ^ 64"
    and st: "staged (op_records env (seq (length J)) x @ [head_record env (seq (length J))]) c c'"
  shows "represents env (J @ [x]) c'"
proof -
  let ?rs = "op_records env (seq (length J)) x @ [head_record env (seq (length J))]"
  let ?old = "\<lambda>p. \<exists>i < length J. p \<in> set (op_records env (seq i) (J ! i))"
  have wf: "wf_journal env (J @ [x])" using rep ok len by (simp add: wf_journal_snoc represents_def)
  have dist: "distinct (map put_place ?rs)" using ok by (intro op_records_distinct) (simp add: op_ok_def)
  have kept: "?old p \<Longrightarrow> journal_record env J p" for p by (simp add: journal_record_def)
  have encoded: "\<exists>b. r = Inr b" if "journal_record env (J @ [x]) (ks, k, r)" for ks k r
    using that rep kept staged_ok [OF st] unfolding journal_record_snoc represents_def by meson
  have new: "put_place p \<notin> put_place ` set ?rs" if "?old p" for p
  proof -
    obtain ks k r where p: "p = (ks, k, r)" by (cases p)
    from that obtain i where i: "i < length J" "(ks, k, r) \<in> set (op_records env (seq i) (J ! i))" unfolding p by blast
    show ?thesis using new_places [OF wf i] op_records_keyspace [OF i(2)] by (simp add: p head_record_def)
  qed
  have replaced: "put_place p \<in> put_place ` set ?rs" if "journal_record env J p" "\<not> ?old p" for p
  proof -
    have "put_place p = put_place (head_record env (seq (length J)))"
      using that by (simp add: journal_record_def head_record_def)
    then show ?thesis by simp
  qed
  have "c' ks k = Some b \<longleftrightarrow> journal_record env (J @ [x]) (ks, k, Inr b)" if ks: "ks \<in> journal_keyspaces" for ks k b
  proof -
    have "c ks k = Some b \<longleftrightarrow> journal_record env J (ks, k, Inr b)" using rep ks by (simp add: represents_def)
    then show ?thesis
      unfolding staged_get [OF st dist] journal_record_snoc
      using new [of "(ks, k, Inr b)"] replaced [of "(ks, k, Inr b)"] kept [of "(ks, k, Inr b)"]
      unfolding put_place_simp by argo
  qed
  with wf encoded show ?thesis unfolding represents_def by blast
qed

lemma unat_length: "length J < 2 ^ 64 \<Longrightarrow> unat (of_nat (length J) :: u64) = length J"
  by (simp add: unat_of_nat)

lemma seq_le_iff:
  assumes "i < length J" and "length J < 2 ^ 64" and "k \<le> length J"
  shows "seq i \<le> of_nat k \<longleftrightarrow> i < k"
proof -
  have "unat (of_nat k :: u64) = k" using assms by (simp add: unat_of_nat)
  moreover have "unat (seq i) = Suc i" using assms by (intro unat_seq) simp
  ultimately show ?thesis by (simp add: word_le_nat_alt Suc_le_eq)
qed

lemma seq_le_length: "i < length J \<Longrightarrow> length J < 2 ^ 64 \<Longrightarrow> seq i \<le> of_nat (length J)"
  using seq_le_iff [of i J "length J"] by simp

section \<open>Looking records up\<close>

lemma record_observation:
  "(ks_observations, k, r) \<in> set (op_records env n x) \<longleftrightarrow>
     (\<exists>kd d v. x = JObs kd d v \<and> k = observation_key (vo_id env v)
        \<and> r = encode env (index_codec env) KSnapshot n \<lparr>ii_commit_seq = n, ii_digest = vo_digest v\<rparr>)"
  by (cases x) (auto simp: key_record_def outbox_records_def)

lemma record_idempotency:
  "(ks_idempotency, k, r) \<in> set (op_records env n x) \<longleftrightarrow> (ks_idempotency, k, r) = key_record env n x"
  by (cases x) (auto simp: key_record_def outbox_records_def)

lemma record_mutation:
  "(ks_mutations, k, r) \<in> set (op_records env n x) \<longleftrightarrow>
     (\<exists>kd d p v. x = JSem kd d p v \<and> k = mutation_key (vm_id env v)
        \<and> r = encode env (mutation_codec env) KSemanticMutation n
            \<lparr>mf_mutation_id = vm_id env v, mf_digest = vm_digest v, mf_bytes = vm_bytes v\<rparr>)
     \<or> (\<exists>kd d p v. x = JMnt kd d p v \<and> k = mutation_key (vx_id env v)
        \<and> r = encode env (mutation_codec env) KMaintenanceMutation n
            \<lparr>mf_mutation_id = vx_id env v, mf_digest = vx_digest v, mf_bytes = vx_bytes v\<rparr>)"
  by (cases x) (auto simp: key_record_def outbox_records_def)

fun event_frame :: "('o, 'm, 'x, 'w) journal_env \<Rightarrow> u64 \<Rightarrow> ('o, 'm, 'x) journal_op \<Rightarrow> journal_error + bytes" where
  "event_frame env n (JObs kd d v) = encode env (observation_codec env) KObservation n
     \<lparr>of_observation_id = vo_id env v, of_digest = vo_digest v, of_bytes = vo_bytes v\<rparr>"
| "event_frame env n (JSem kd d p v) = encode env (publication_codec env) KSemanticPublication n
     \<lparr>pf_mutation_id = vm_id env v, pf_publication_id = p, pf_digest = vm_digest v,
      pf_outbox_count = of_nat (length (mut_work (semantic env) (vm_mutation v)))\<rparr>"
| "event_frame env n (JMnt kd d p v) = encode env (publication_codec env) KMaintenancePublication n
     \<lparr>pf_mutation_id = vx_id env v, pf_publication_id = p, pf_digest = vx_digest v,
      pf_outbox_count = of_nat (length (mnt_work (maintenance env) (vx_mutation v)))\<rparr>"

lemma record_event:
  "(ks_events, k, r) \<in> set (op_records env n x) \<longleftrightarrow> k = event_key n \<and> r = event_frame env n x"
  by (cases x) (auto simp: key_record_def outbox_records_def)

lemma no_head_record [simp]:
  "(ks_events, k, r) \<noteq> head_record env n" "(ks_outbox, k, r) \<noteq> head_record env n"
  "(ks_idempotency, k, r) \<noteq> head_record env n" "(ks_observations, k, r) \<noteq> head_record env n"
  "(ks_mutations, k, r) \<noteq> head_record env n"
  by (simp_all add: head_record_def)

text \<open>What the keyspaces of a store hold that represents a journal.\<close>

lemma represents_lookup:
  assumes "represents env J c" and "ks \<in> journal_keyspaces" and "ks \<noteq> ks_meta"
  shows "c ks k = Some b \<longleftrightarrow> (\<exists>i < length J. (ks, k, Inr b) \<in> set (op_records env (seq i) (J ! i)))"
  using assms by (auto simp: represents_def journal_record_def head_record_def)

lemma represents_place:
  assumes "represents env J c" and "i < length J" and "(ks, k, r) \<in> set (op_records env (seq i) (J ! i))"
  shows "\<exists>b. r = Inr b \<and> c ks k = Some b"
proof -
  have "journal_record env J (ks, k, r)" using assms by (auto simp: journal_record_def)
  then show ?thesis using represents_stored [OF assms(1)] op_records_keyspace [OF assms(3)] by simp
qed

lemma represents_head:
  assumes "represents env J c" and "J \<noteq> []"
  shows "\<exists>b. encode env (head_codec env) KSnapshot (of_nat (length J)) (HeadPayload (of_nat (length J))) = Inr b
    \<and> c ks_meta HEAD_KEY = Some b"
proof -
  let ?p = "head_record env (of_nat (length J))"
  have "journal_record env J ?p" using assms(2) by (simp add: journal_record_def)
  then show ?thesis using represents_stored [OF assms(1)] by (simp add: head_record_def)
qed

lemma represents_no_head:
  assumes "represents env [] c"
  shows "c ks_meta HEAD_KEY = None"
proof (cases "c ks_meta HEAD_KEY")
  case (Some b)
  then have "journal_record env [] (ks_meta, HEAD_KEY, Inr b)" using assms by (auto simp: represents_def)
  then show ?thesis by (simp add: journal_record_def)
qed

lemma idempotency_present:
  assumes "represents env J c"
  shows "(\<exists>b. c ks_idempotency (idempotency_key kd) = Some b) \<longleftrightarrow> kd \<in> op_key ` set J"
proof
  assume "\<exists>b. c ks_idempotency (idempotency_key kd) = Some b"
  then obtain i where "i < length J" "kd = op_key (J ! i)"
    using represents_lookup [OF assms] by (auto simp: record_idempotency key_record_def)
  then show "kd \<in> op_key ` set J" by auto
next
  assume "kd \<in> op_key ` set J"
  then obtain i where "i < length J" "kd = op_key (J ! i)" by (auto simp: in_set_conv_nth)
  then show "\<exists>b. c ks_idempotency (idempotency_key kd) = Some b"
    using represents_place [OF assms, of i ks_idempotency "idempotency_key kd"]
    by (auto simp: record_idempotency key_record_def)
qed

lemma idempotency_absent:
  assumes "represents env J c"
  shows "c ks_idempotency (idempotency_key kd) = None \<longleftrightarrow> kd \<notin> op_key ` set J"
  using idempotency_present [OF assms] by (metis not_None_eq)

lemma observation_present:
  assumes "represents env J c"
  shows "(\<exists>b. c ks_observations (observation_key a) = Some b) \<longleftrightarrow> Some a \<in> op_observation env ` set J"
proof
  assume "\<exists>b. c ks_observations (observation_key a) = Some b"
  then obtain i where i: "i < length J" "op_observation env (J ! i) = Some a"
    using represents_lookup [OF assms] by (auto simp: record_observation)
  then show "Some a \<in> op_observation env ` set J" by (metis image_eqI nth_mem)
next
  assume "Some a \<in> op_observation env ` set J"
  then obtain i where "i < length J" "op_observation env (J ! i) = Some a" by (auto simp: in_set_conv_nth)
  then show "\<exists>b. c ks_observations (observation_key a) = Some b"
    using represents_place [OF assms, of i ks_observations "observation_key a"]
    by (cases "J ! i") (auto simp: record_observation)
qed

lemma observation_absent:
  assumes "represents env J c"
  shows "c ks_observations (observation_key a) = None \<longleftrightarrow> Some a \<notin> op_observation env ` set J"
  using observation_present [OF assms] by (metis not_None_eq)

lemma mutation_present:
  assumes "represents env J c"
  shows "(\<exists>b. c ks_mutations (mutation_key a) = Some b) \<longleftrightarrow> Some a \<in> op_mutation env ` set J"
proof
  assume "\<exists>b. c ks_mutations (mutation_key a) = Some b"
  then obtain i where i: "i < length J" "op_mutation env (J ! i) = Some a"
    using represents_lookup [OF assms] by (auto simp: record_mutation)
  then show "Some a \<in> op_mutation env ` set J" by (metis image_eqI nth_mem)
next
  assume "Some a \<in> op_mutation env ` set J"
  then obtain i where "i < length J" "op_mutation env (J ! i) = Some a" by (auto simp: in_set_conv_nth)
  then show "\<exists>b. c ks_mutations (mutation_key a) = Some b"
    using represents_place [OF assms, of i ks_mutations "mutation_key a"]
    by (cases "J ! i") (auto simp: record_mutation)
qed

lemma mutation_absent:
  assumes "represents env J c"
  shows "c ks_mutations (mutation_key a) = None \<longleftrightarrow> Some a \<notin> op_mutation env ` set J"
  using mutation_present [OF assms] by (metis not_None_eq)

section \<open>Reading a represented journal\<close>

context read_snapshot
begin

lemma logical_head_represents:
  assumes "valid s" and "represents env J (view s)" and "codecs_ok env"
  shows "logical_head env ops s = Inr (of_nat (length J))"
proof (cases "J = []")
  case True
  then have "view s ks_meta HEAD_KEY = None" using assms(2) represents_no_head by blast
  then show ?thesis using True assms(1) by (simp add: logical_head_def get_view)
next
  case False
  then obtain b where b: "encode env (head_codec env) KSnapshot (of_nat (length J)) (HeadPayload (of_nat (length J))) = Inr b"
    and "view s ks_meta HEAD_KEY = Some b"
    using represents_head [OF assms(2)] by blast
  then show ?thesis
    using assms(1) decode_any_encode(1) [OF codecs_ok_simps(1) [OF assms(3)] b] by (simp add: logical_head_def get_view)
qed

lemma observation_index_represents:
  assumes "valid s" and "represents env J (view s)" and "codecs_ok env" and "i < length J" and "J ! i = JObs kd d v"
  shows "observation_index env ops s (vo_id env v) head =
    (if seq i > head then Inl (JCorruption ''observation index points outside the published prefix'')
     else Inr \<lparr>dp_sequence = seq i, dp_value = \<lparr>ii_commit_seq = seq i, ii_digest = vo_digest v\<rparr>\<rparr>)"
proof -
  obtain b where b: "encode env (index_codec env) KSnapshot (seq i) \<lparr>ii_commit_seq = seq i, ii_digest = vo_digest v\<rparr> = Inr b"
    and "view s ks_observations (observation_key (vo_id env v)) = Some b"
    using represents_place [OF assms(2,4), of ks_observations "observation_key (vo_id env v)"] assms(5)
    by (auto simp: record_observation)
  then show ?thesis
    using assms(1) decode_any_encode(1) [OF codecs_ok_simps(2) [OF assms(3)] b]
    by (simp add: observation_index_def get_view)
qed

lemma observation_index_missing:
  assumes "valid s" and "represents env J (view s)" and "Some a \<notin> op_observation env ` set J"
  shows "observation_index env ops s a head = Inl (JMissingObservation a)"
proof -
  have "view s ks_observations (observation_key a) = None" using assms(3) observation_absent [OF assms(2)] by blast
  then show ?thesis using assms(1) by (simp add: observation_index_def get_view)
qed

lemma validate_reference_represents:
  assumes "valid s" and "represents env J (view s)" and "codecs_ok env"
  shows "validate_observation_reference env ops s (of_nat (length J)) a =
    (if Some a \<in> op_observation env ` set J then Inr () else Inl (JMissingObservation a))"
proof (cases "Some a \<in> op_observation env ` set J")
  case True
  then obtain i where i: "i < length J" "op_observation env (J ! i) = Some a" by (auto simp: in_set_conv_nth)
  then obtain kd d v where v: "J ! i = JObs kd d v" "a = vo_id env v" by (cases "J ! i") auto
  have "length J < 2 ^ 64" using represents_wf [OF assms(2)] by (simp add: wf_journal_def)
  then have "\<not> seq i > of_nat (length J)" using i(1) seq_le_length by (simp add: not_less)
  with True show ?thesis
    using observation_index_represents [OF assms i(1) v(1)] by (simp add: validate_observation_reference_def v(2))
next
  case False
  then show ?thesis
    using observation_index_missing [OF assms(1,2) False] by (simp add: validate_observation_reference_def)
qed

end

section \<open>Admission and staging\<close>

text \<open>The checks that decide whether an operation with a new key may follow a journal.\<close>

fun admit :: "('o, 'm, 'x, 'w) journal_env \<Rightarrow> ('o, 'm, 'x) journal_op list \<Rightarrow> ('o, 'm, 'x) journal_op \<Rightarrow> journal_error + unit" where
  "admit env J (JObs kd d v) =
     (if \<not> Suc (length J) < 2 ^ 64 then Inl JCommitSequenceExhausted
      else if Some (vo_id env v) \<in> op_observation env ` set J then Inl JDuplicateObservation
      else Inr ())"
| "admit env J (JSem kd d p v) =
     (if mut_base (semantic env) (vm_mutation v) \<noteq> of_nat (length J)
      then Inl (JBaseSnapshotMismatch (mut_base (semantic env) (vm_mutation v)) (of_nat (length J)))
      else rbind (rall (\<lambda>i. if Some i \<in> op_observation env ` set J then Inr () else Inl (JMissingObservation i))
                    (mut_refs (semantic env) (vm_mutation v))) (\<lambda>_.
           if Some (vm_id env v) \<in> op_mutation env ` set J then Inl JIdempotencyConflict
           else if \<not> Suc (length J) < 2 ^ 64 then Inl JCommitSequenceExhausted
           else if \<not> length (mut_work (semantic env) (vm_mutation v)) < 2 ^ 32
           then Inl (JCorruption ''derived-work count exceeds portable u32 range'')
           else Inr ()))"
| "admit env J (JMnt kd d p v) =
     (if mnt_base (maintenance env) (vx_mutation v) \<noteq> of_nat (length J)
      then Inl (JBaseSnapshotMismatch (mnt_base (maintenance env) (vx_mutation v)) (of_nat (length J)))
      else if Some (vx_id env v) \<in> op_mutation env ` set J then Inl JIdempotencyConflict
      else if \<not> Suc (length J) < 2 ^ 64 then Inl JCommitSequenceExhausted
      else if \<not> length (mnt_work (maintenance env) (vx_mutation v)) < 2 ^ 32
      then Inl (JCorruption ''derived-work count exceeds portable u32 range'')
      else Inr ())"

fun put_records :: "('e, 's, 't) storage_engine_ops \<Rightarrow> record_put list \<Rightarrow> 't \<Rightarrow> journal_error + 't" where
  "put_records ops [] t = Inr t"
| "put_records ops ((ks, k, r) # rs) t =
     rbind r (\<lambda>b. rbind (map_err JStorage (tx_put (eng_transaction ops) ks k b t)) (put_records ops rs))"

definition stage_spec ::
  "('o, 'm, 'x, 'w) journal_env \<Rightarrow> ('e, 's, 't) storage_engine_ops \<Rightarrow> ('o, 'm, 'x) journal_op list \<Rightarrow>
   ('o, 'm, 'x) journal_op \<Rightarrow> commit_stage option \<Rightarrow> 'e \<Rightarrow> journal_error + 't \<times> u64 \<times> stored_receipt" where
  "stage_spec env ops J x stage e =
     (let n = seq (length J) in
      rbind (journal_fail_if stage AfterValidation) (\<lambda>_.
      rbind (map_err JStorage (eng_begin_write ops e)) (\<lambda>t0.
      rbind (admit env J x) (\<lambda>_.
      rbind (put_records ops (op_records env n x @ [head_record env n]) t0) (\<lambda>t. Inr (t, n, op_receipt env n x))))))"

lemma put_records_append: "put_records ops (a @ b) t = rbind (put_records ops a t) (put_records ops b)"
proof (induction a arbitrary: t)
  case (Cons q a)
  then have "put_records ops (a @ b) = (\<lambda>t. rbind (put_records ops a t) (put_records ops b))" by blast
  then show ?case by (cases q) (simp add: rbind_assoc)
qed simp

lemma put_frame_records: "put_frame env ops codec kind n ks k x t = put_records ops [(ks, k, encode env codec kind n x)] t"
  by (cases "encode env codec kind n x"; cases "tx_put (eng_transaction ops) ks k (projr (encode env codec kind n x)) t")
    (simp_all add: put_frame_def map_err_def)

lemma stage_outbox_records:
  "i + length works \<le> 2 ^ 32 \<Longrightarrow> stage_outbox env ops n mid i works t = put_records ops (outbox_records env n mid i works) t"
proof (induction works arbitrary: i t)
  case (Cons w works)
  have "stage_outbox env ops n mid (Suc i) works = put_records ops (outbox_records env n mid (Suc i) works)"
    using Cons by (intro ext) simp
  then show ?case
    using Cons.prems by (simp add: put_frame_records outbox_records_def rbind_assoc)
qed (simp add: outbox_records_def)

lemma checked_next_length:
  assumes "length J < 2 ^ 64"
  shows "checked_next (of_nat (length J)) = (if Suc (length J) < 2 ^ 64 then Some (seq (length J)) else None)"
proof -
  have "(of_nat (length J) :: u64) + 1 = seq (length J)" unfolding seq_def by (simp add: add.commute)
  then show ?thesis
    unfolding checked_next_def checked_add_word_def unat_length [OF assms] by simp
qed

lemma rbind_if: "rbind (if b then r else s) f = (if b then rbind r f else rbind s f)"
  by simp

lemma admit_op_ok:
  assumes "admit env J x = Inr ()" and "op_key x \<notin> op_key ` set J"
  shows "Suc (length J) < 2 ^ 64"
    and "op_ok env J x \<longleftrightarrow> op_parsed env x"
  using assms by (cases x; auto simp: op_ok_def split: if_splits)+

lemma op_ok_admit: "op_ok env J x \<Longrightarrow> Suc (length J) < 2 ^ 64 \<Longrightarrow> admit env J x = Inr ()"
  by (cases x) (auto simp: op_ok_def)

context storage_engine
begin

lemma put_store:
  assumes "tvalid t"
  obtains t' where "tx_put (eng_transaction ops) ks k b t = Inr t'" "tvalid t'"
    "tview t' = store_put ks k b (tview t)" "\<forall>e. based t e \<longrightarrow> based t' e"
  using put_view [OF assms, of ks k b] by (auto simp: store_put_def)

lemma put_records_stages:
  assumes "tvalid t" and "put_records ops rs t = Inr t'"
  shows "tvalid t' \<and> staged rs (tview t) (tview t') \<and> (\<forall>e. based t e \<longrightarrow> based t' e)"
  using assms
proof (induction rs arbitrary: t)
  case (Cons q rs)
  obtain ks k r where q: "q = (ks, k, r)" by (cases q)
  obtain b where b: "r = Inr b" using Cons.prems(2) by (auto simp: q)
  obtain t1 where t1: "tx_put (eng_transaction ops) ks k b t = Inr t1" "tvalid t1"
    "tview t1 = store_put ks k b (tview t)" "\<forall>e. based t e \<longrightarrow> based t1 e"
    using put_store [OF Cons.prems(1), of ks k b] by blast
  have "put_records ops rs t1 = Inr t'" using Cons.prems(2) by (simp add: q b t1(1))
  from Cons.IH [OF t1(2) this] show ?case using t1(3,4) by (simp add: q b)
qed simp

lemma put_records_exists:
  assumes "tvalid t" and "\<forall>(ks, k, r) \<in> set rs. \<exists>b. r = Inr b"
  shows "\<exists>t'. put_records ops rs t = Inr t'"
  using assms
proof (induction rs arbitrary: t)
  case (Cons q rs)
  obtain ks k r where q: "q = (ks, k, r)" by (cases q)
  obtain b where b: "r = Inr b" using Cons.prems(2) by (auto simp: q)
  obtain t1 where t1: "tx_put (eng_transaction ops) ks k b t = Inr t1" "tvalid t1"
    using put_store [OF Cons.prems(1), of ks k b] by blast
  then show ?case using Cons.IH [OF t1(2)] Cons.prems(2) by (simp add: q b)
qed simp

lemma begin_write_represents:
  assumes "evalid e" and "represents env J (content e)" and "codecs_ok env"
  obtains t where "eng_begin_write ops e = Inr t" "tvalid t" "tview t = content e" "based t e"
    "logical_head env (eng_transaction ops) t = Inr (of_nat (length J))"
    "validate_observation_reference env (eng_transaction ops) t (of_nat (length J)) =
       (\<lambda>a. if Some a \<in> op_observation env ` set J then Inr () else Inl (JMissingObservation a))"
proof -
  obtain t where t: "eng_begin_write ops e = Inr t" "tvalid t" "tview t = content e" "based t e"
    using begin_write_latest [OF assms(1)] by blast
  have rep: "represents env J (tview t)" using assms(2) t(3) by simp
  note tx.logical_head_represents [OF t(2) rep assms(3)] tx.validate_reference_represents [OF t(2) rep assms(3)]
  then show ?thesis using that [OF t] by blast
qed

lemma stage_observation_spec:
  assumes e: "evalid e" and rep: "represents env J (content e)" and codecs: "codecs_ok env"
  shows "rbind (stage_observation env ops kd v options e) (\<lambda>(t, n, r). Inr (t, n, StoredObservation r)) =
    stage_spec env ops J (JObs kd (opt_durability options) v) (fail_at options) e"
proof -
  obtain t0 where t0: "eng_begin_write ops e = Inr t0" "tvalid t0" "tview t0 = content e"
    and head: "logical_head env (eng_transaction ops) t0 = Inr (of_nat (length J))"
    using begin_write_represents [OF e rep codecs] by blast
  have len: "length J < 2 ^ 64" using represents_wf [OF rep] by (simp add: wf_journal_def)
  show ?thesis
    unfolding stage_observation_def stage_spec_def Let_def
    by (simp add: t0 head checked_next_length [OF len] tx.get_view observation_present [OF rep] put_frame_records
        stage_head_def rbind_assoc rbind_if key_record_def head_record_def)
qed

lemma stage_semantic_spec:
  assumes e: "evalid e" and rep: "represents env J (content e)" and codecs: "codecs_ok env"
  shows "rbind (stage_semantic env ops kd v p options e) (\<lambda>(t, n, r). Inr (t, n, StoredPublication r)) =
    stage_spec env ops J (JSem kd (opt_durability options) p v) (fail_at options) e"
proof -
  obtain t0 where t0: "eng_begin_write ops e = Inr t0" "tvalid t0" "tview t0 = content e"
    and head: "logical_head env (eng_transaction ops) t0 = Inr (of_nat (length J))"
    and refs: "validate_observation_reference env (eng_transaction ops) t0 (of_nat (length J)) =
       (\<lambda>a. if Some a \<in> op_observation env ` set J then Inr () else Inl (JMissingObservation a))"
    using begin_write_represents [OF e rep codecs] by blast
  have len: "length J < 2 ^ 64" using represents_wf [OF rep] by (simp add: wf_journal_def)
  show ?thesis
    unfolding stage_semantic_def stage_spec_def Let_def
    by (simp add: t0 head refs checked_next_length [OF len] tx.get_view mutation_present [OF rep] put_frame_records
        stage_outbox_records put_records_append stage_head_def rbind_assoc rbind_if key_record_def head_record_def
        cong: if_cong)
qed

lemma stage_maintenance_spec:
  assumes e: "evalid e" and rep: "represents env J (content e)" and codecs: "codecs_ok env"
  shows "rbind (stage_maintenance env ops kd v p options e) (\<lambda>(t, n, r). Inr (t, n, StoredMaintenance r)) =
    stage_spec env ops J (JMnt kd (opt_durability options) p v) (fail_at options) e"
proof -
  obtain t0 where t0: "eng_begin_write ops e = Inr t0" "tvalid t0" "tview t0 = content e"
    and head: "logical_head env (eng_transaction ops) t0 = Inr (of_nat (length J))"
    using begin_write_represents [OF e rep codecs] by blast
  have len: "length J < 2 ^ 64" using represents_wf [OF rep] by (simp add: wf_journal_def)
  show ?thesis
    unfolding stage_maintenance_def stage_spec_def Let_def
    by (simp add: t0 head checked_next_length [OF len] tx.get_view mutation_present [OF rep] put_frame_records
        stage_outbox_records put_records_append stage_head_def rbind_assoc rbind_if key_record_def head_record_def
        cong: if_cong)
qed

end

section \<open>One commit operation\<close>

fun key_position :: "('o, 'm, 'x) journal_op list \<Rightarrow> digest \<Rightarrow> nat option" where
  "key_position [] kd = None"
| "key_position (x # J) kd = (if op_key x = kd then Some 0 else map_option Suc (key_position J kd))"

lemma key_position_None: "key_position J kd = None \<longleftrightarrow> kd \<notin> op_key ` set J"
  by (induction J) auto

lemma key_position_Some: "key_position J kd = Some i \<Longrightarrow> i < length J \<and> op_key (J ! i) = kd"
  by (induction J arbitrary: i) (auto split: if_splits)

text \<open>The answer to a request whose key is already bound to the operation \<open>y\<close> at index \<open>i\<close>.\<close>

definition retry_spec ::
  "('o, 'm, 'x, 'w) journal_env \<Rightarrow> ('e, 's, 't) storage_engine_ops \<Rightarrow> nat \<Rightarrow> ('o, 'm, 'x) journal_op \<Rightarrow>
   ('o, 'm, 'x) journal_op \<Rightarrow> 'e \<Rightarrow> 'e \<times> (journal_error + stored_receipt)" where
  "retry_spec env ops i y x e =
     (if \<not> same_request x y then (e, Inl JIdempotencyConflict)
      else case ensure_durability (seq i) (op_durability x) (op_durability y) of
             Inl err \<Rightarrow> (e, Inl err)
           | Inr _ \<Rightarrow>
               (case synchronize_retry_if_required ops (seq i) (op_durability x) e of
                  (e', Inl err) \<Rightarrow> (e', Inl err)
                | (e', Inr _) \<Rightarrow> (e', Inr (replayed (op_receipt env (seq i) y)))))"

definition op_spec ::
  "('o, 'm, 'x, 'w) journal_env \<Rightarrow> ('e, 's, 't) storage_engine_ops \<Rightarrow> ('o, 'm, 'x) journal_op list \<Rightarrow>
   ('o, 'm, 'x) journal_op \<Rightarrow> commit_options \<Rightarrow> 'e \<Rightarrow> 'e \<times> (journal_error + stored_receipt)" where
  "op_spec env ops J x options e =
     (case key_position J (op_key x) of
        Some i \<Rightarrow> retry_spec env ops i (J ! i) x e
      | None \<Rightarrow>
          (case stage_spec env ops J x (fail_at options) e of
             Inl err \<Rightarrow> (e, Inl err)
           | Inr prepared \<Rightarrow> finish_commit ops options prepared e))"

lemma finish_commit_map:
  "finish_commit ops options (t, n, f r) e = map_prod id (map_sum id f) (finish_commit ops options (t, n, r) e)"
proof (cases "tx_rollback (eng_transaction ops) t")
  case (Inl a)
  then show ?thesis
    by (cases "ensure_durability n (opt_durability options)
          (receipt_durability (projr (snd (tx_commit (eng_transaction ops) (opt_durability options) t e))))")
      (auto simp: finish_commit_def map_err_def split: prod.splits sum.splits)
next
  case (Inr a)
  then show ?thesis
    by (cases "ensure_durability n (opt_durability options)
          (receipt_durability (projr (snd (tx_commit (eng_transaction ops) (opt_durability options) t e))))")
      (auto simp: finish_commit_def map_err_def split: prod.splits sum.splits)
qed

lemma finish_commit_rbind:
  "map_prod id (map_sum id f)
     (case st of Inl err \<Rightarrow> (e, Inl err) | Inr prepared \<Rightarrow> finish_commit ops options prepared e) =
   (case rbind st (\<lambda>(t, n, r). Inr (t, n, f r)) of
      Inl err \<Rightarrow> (e, Inl err) | Inr prepared \<Rightarrow> finish_commit ops options prepared e)"
  by (cases st) (auto simp: finish_commit_map)

context storage_engine
begin

lemma read_idempotency_represents:
  assumes "evalid e" and "represents env J (content e)" and "codecs_ok env"
  shows "read_idempotency env ops kd e =
    (case key_position J kd of
       None \<Rightarrow> Inr None
     | Some i \<Rightarrow> Inr (Some \<lparr>ip_key_digest = kd, ip_request_digest = op_digest (J ! i),
                           ip_receipt = op_receipt env (seq i) (J ! i)\<rparr>))"
proof -
  obtain s where s: "eng_begin_read ops Latest e = Inr s" "svalid s" "sview s = content e"
    using begin_read_latest [OF assms(1)] by blast
  show ?thesis
  proof (cases "key_position J kd")
    case None
    then have "content e ks_idempotency (idempotency_key kd) = None"
      using idempotency_absent [OF assms(2)] by (simp add: key_position_None)
    then show ?thesis using s None by (simp add: read_idempotency_def snap.get_view)
  next
    case (Some i)
    then have i: "i < length J" "op_key (J ! i) = kd" using key_position_Some by blast+
    obtain b where b: "encode env (idempotency_codec env) KSnapshot (seq i)
        \<lparr>ip_key_digest = kd, ip_request_digest = op_digest (J ! i), ip_receipt = op_receipt env (seq i) (J ! i)\<rparr> = Inr b"
      and "content e ks_idempotency (idempotency_key kd) = Some b"
      using represents_place [OF assms(2) i(1), of ks_idempotency "idempotency_key kd"] i(2)
      by (auto simp: record_idempotency key_record_def)
    then show ?thesis
      using s Some decode_any_encode(1) [OF codecs_ok_simps(7) [OF assms(3)] b]
      by (simp add: read_idempotency_def snap.get_view)
  qed
qed

lemma accept_observation_spec:
  assumes "evalid e" and "represents env J (content e)" and "codecs_ok env"
  shows "map_prod id (map_sum id StoredObservation) (accept_observation env ops key v options e) =
    op_spec env ops J (JObs (idempotency_digest env key) (opt_durability options) v) options e"
proof (cases "key_position J (idempotency_digest env key)")
  case None
  then show ?thesis
    using stage_observation_spec [OF assms] read_idempotency_represents [OF assms]
    by (simp add: accept_observation_def op_spec_def Let_def read_observation_retry_def finish_commit_rbind)
next
  case (Some i)
  then have "op_key (J ! i) = idempotency_digest env key" using key_position_Some by blast
  with Some show ?thesis
    using read_idempotency_represents [OF assms]
    by (cases "J ! i")
      (auto simp: accept_observation_def op_spec_def Let_def read_observation_retry_def retry_spec_def same_request_def
        split: sum.splits prod.splits)
qed

lemma publish_semantic_spec:
  assumes "evalid e" and "represents env J (content e)" and "codecs_ok env"
  shows "map_prod id (map_sum id StoredPublication) (publish_semantic env ops key v p options e) =
    op_spec env ops J (JSem (idempotency_digest env key) (opt_durability options) p v) options e"
proof (cases "key_position J (idempotency_digest env key)")
  case None
  then show ?thesis
    using stage_semantic_spec [OF assms] read_idempotency_represents [OF assms]
    by (simp add: publish_semantic_def op_spec_def Let_def read_publication_retry_def finish_commit_rbind)
next
  case (Some i)
  then have "op_key (J ! i) = idempotency_digest env key" using key_position_Some by blast
  with Some show ?thesis
    using read_idempotency_represents [OF assms]
    by (cases "J ! i")
      (auto simp: publish_semantic_def op_spec_def Let_def read_publication_retry_def retry_spec_def same_request_def
        split: sum.splits prod.splits)
qed

lemma publish_maintenance_spec:
  assumes "evalid e" and "represents env J (content e)" and "codecs_ok env"
  shows "map_prod id (map_sum id StoredMaintenance) (publish_maintenance env ops key v p options e) =
    op_spec env ops J (JMnt (idempotency_digest env key) (opt_durability options) p v) options e"
proof (cases "key_position J (idempotency_digest env key)")
  case None
  then show ?thesis
    using stage_maintenance_spec [OF assms] read_idempotency_represents [OF assms]
    by (simp add: publish_maintenance_def op_spec_def Let_def read_maintenance_retry_def finish_commit_rbind)
next
  case (Some i)
  then have "op_key (J ! i) = idempotency_digest env key" using key_position_Some by blast
  with Some show ?thesis
    using read_idempotency_represents [OF assms]
    by (cases "J ! i")
      (auto simp: publish_maintenance_def op_spec_def Let_def read_maintenance_retry_def retry_spec_def same_request_def
        split: sum.splits prod.splits)
qed

end

end
