(* ===== verification/Journal_Calls.thy ===== *)
theory Journal_Calls
  imports Journal_Refinement
begin

text \<open>
  Sequences of requests against a coordinator. A request is what a caller of the crate supplies: an
  idempotency key, the JSON bytes of the value and the commit options. The abstract machine is the
  step relation on journals; the coordinator simulates it over every engine that satisfies the
  storage contract, faults included.
\<close>

section \<open>Requests\<close>

datatype journal_call =
    AcceptObservation (call_key: string) (call_bytes: bytes) (call_options: commit_options)
  | PublishSemantic (call_key: string) (call_bytes: bytes) (call_publication: uuid) (call_options: commit_options)
  | PublishMaintenance (call_key: string) (call_bytes: bytes) (call_publication: uuid) (call_options: commit_options)

text \<open>The operation a request asks for: the validated key and value.\<close>

fun call_op :: "('o, 'm, 'x, 'w) journal_env \<Rightarrow> journal_call \<Rightarrow> journal_error + ('o, 'm, 'x) journal_op" where
  "call_op env (AcceptObservation key bs options) =
     rbind (idempotency_key_new key) (\<lambda>k. rbind (observation_from_json env bs) (\<lambda>v.
     Inr (JObs (idempotency_digest env k) (opt_durability options) v)))"
| "call_op env (PublishSemantic key bs p options) =
     rbind (idempotency_key_new key) (\<lambda>k. rbind (mutation_from_json env bs) (\<lambda>v.
     Inr (JSem (idempotency_digest env k) (opt_durability options) p v)))"
| "call_op env (PublishMaintenance key bs p options) =
     rbind (idempotency_key_new key) (\<lambda>k. rbind (maintenance_from_json env bs) (\<lambda>v.
     Inr (JMnt (idempotency_digest env k) (opt_durability options) p v)))"

fun do_call ::
  "('o, 'm, 'x, 'w) journal_env \<Rightarrow> ('e, 's, 't) storage_engine_ops \<Rightarrow> journal_call \<Rightarrow> 'e \<Rightarrow>
   'e \<times> (journal_error + stored_receipt)" where
  "do_call env ops (AcceptObservation key bs options) e =
     (case rbind (idempotency_key_new key) (\<lambda>k. rbind (observation_from_json env bs) (\<lambda>v. Inr (k, v))) of
        Inl err \<Rightarrow> (e, Inl err)
      | Inr (k, v) \<Rightarrow> map_prod id (map_sum id StoredObservation) (accept_observation env ops k v options e))"
| "do_call env ops (PublishSemantic key bs p options) e =
     (case rbind (idempotency_key_new key) (\<lambda>k. rbind (mutation_from_json env bs) (\<lambda>v. Inr (k, v))) of
        Inl err \<Rightarrow> (e, Inl err)
      | Inr (k, v) \<Rightarrow> map_prod id (map_sum id StoredPublication) (publish_semantic env ops k v p options e))"
| "do_call env ops (PublishMaintenance key bs p options) e =
     (case rbind (idempotency_key_new key) (\<lambda>k. rbind (maintenance_from_json env bs) (\<lambda>v. Inr (k, v))) of
        Inl err \<Rightarrow> (e, Inl err)
      | Inr (k, v) \<Rightarrow> map_prod id (map_sum id StoredMaintenance) (publish_maintenance env ops k v p options e))"

fun run_calls ::
  "('o, 'm, 'x, 'w) journal_env \<Rightarrow> ('e, 's, 't) storage_engine_ops \<Rightarrow> journal_call list \<Rightarrow> 'e \<Rightarrow>
   'e \<times> (journal_error + stored_receipt) list" where
  "run_calls env ops [] e = (e, [])"
| "run_calls env ops (call # calls) e =
     (case do_call env ops call e of (e1, r) \<Rightarrow>
      case run_calls env ops calls e1 of (e2, rs) \<Rightarrow> (e2, r # rs))"

lemma call_op_parsed: "call_op env call = Inr x \<Longrightarrow> op_parsed env x \<and> op_durability x = opt_durability (call_options call)"
  by (cases call) (auto simp: observation_from_json_def mutation_from_json_def maintenance_from_json_def
      split: if_splits)

section \<open>The abstract machine\<close>

text \<open>
  A request leaves the journal as it is and fails; or it is a repetition and gets the receipt of the
  operation it repeats; or it appends its operation, and then it is acknowledged or its response is
  lost.
\<close>

inductive journal_step ::
  "('o, 'm, 'x, 'w) journal_env \<Rightarrow> ('o, 'm, 'x) journal_op list \<Rightarrow> journal_call \<Rightarrow> ('o, 'm, 'x) journal_op list \<Rightarrow>
   journal_error + stored_receipt \<Rightarrow> bool" for env where
  rejected: "journal_step env J call J (Inl err)"
| repeated: "call_op env call = Inr x \<Longrightarrow> i < length J \<Longrightarrow> same_request x (J ! i) \<Longrightarrow>
    (op_durability x = Sync \<longrightarrow> op_durability (J ! i) = Sync) \<Longrightarrow>
    journal_step env J call J (Inr (replayed (op_receipt env (seq i) (J ! i))))"
| published: "call_op env call = Inr x \<Longrightarrow> op_ok env J x \<Longrightarrow> Suc (length J) < 2 ^ 64 \<Longrightarrow>
    journal_step env J call (J @ [x]) (Inr (op_receipt env (seq (length J)) x))"
| unacknowledged: "call_op env call = Inr x \<Longrightarrow> op_ok env J x \<Longrightarrow> Suc (length J) < 2 ^ 64 \<Longrightarrow>
    journal_step env J call (J @ [x]) (Inl err)"

inductive_cases journal_step_InrE: "journal_step env J call J' (Inr receipt)"

inductive journal_run ::
  "('o, 'm, 'x, 'w) journal_env \<Rightarrow> ('o, 'm, 'x) journal_op list \<Rightarrow> journal_call list \<Rightarrow> ('o, 'm, 'x) journal_op list \<Rightarrow>
   (journal_error + stored_receipt) list \<Rightarrow> bool" for env where
  run_done: "journal_run env J [] J []"
| run_step: "journal_step env J call J1 r \<Longrightarrow> journal_run env J1 calls J2 rs \<Longrightarrow>
    journal_run env J (call # calls) J2 (r # rs)"

lemma journal_step_extends:
  "journal_step env J call J' r \<Longrightarrow> J' = J \<or> (\<exists>x. call_op env call = Inr x \<and> op_ok env J x \<and> J' = J @ [x])"
  by (cases rule: journal_step.cases) auto

lemma journal_step_wf: "journal_step env J call J' r \<Longrightarrow> wf_journal env J \<Longrightarrow> wf_journal env J'"
  by (cases rule: journal_step.cases) (auto simp: wf_journal_snoc)

lemma journal_run_wf: "journal_run env J calls J' rs \<Longrightarrow> wf_journal env J \<Longrightarrow> wf_journal env J'"
  by (induction rule: journal_run.induct) (auto dest: journal_step_wf)

text \<open>The journal only grows, by operations that were asked for.\<close>

lemma journal_run_extends:
  assumes "journal_run env J calls J' rs"
  shows "\<exists>K. J' = J @ K \<and> length K \<le> length calls
    \<and> (\<forall>x \<in> set K. \<exists>call \<in> set calls. call_op env call = Inr x)"
  using assms
proof (induction rule: journal_run.induct)
  case (run_step J call J1 r calls J2 rs)
  then obtain K where K: "J2 = J1 @ K" "length K \<le> length calls"
    "\<forall>x \<in> set K. \<exists>call \<in> set calls. call_op env call = Inr x" by blast
  from journal_step_extends [OF run_step.hyps(1)] show ?case
  proof
    assume "J1 = J"
    with K show ?thesis by auto
  next
    assume "\<exists>x. call_op env call = Inr x \<and> op_ok env J x \<and> J1 = J @ [x]"
    then obtain x where "call_op env call = Inr x" "J1 = J @ [x]" by blast
    with K show ?thesis by (intro exI [of _ "x # K"]) auto
  qed
qed simp

text \<open>An acknowledged request is in the journal, at the sequence of its receipt.\<close>

definition acknowledges ::
  "('o, 'm, 'x, 'w) journal_env \<Rightarrow> ('o, 'm, 'x) journal_op list \<Rightarrow> journal_call \<Rightarrow> stored_receipt \<Rightarrow> bool" where
  "acknowledges env J call receipt \<longleftrightarrow>
     (\<exists>x i. call_op env call = Inr x \<and> i < length J \<and> same_request x (J ! i)
        \<and> (op_durability x = Sync \<longrightarrow> op_durability (J ! i) = Sync)
        \<and> (receipt = op_receipt env (seq i) (J ! i) \<or> receipt = replayed (op_receipt env (seq i) (J ! i))))"

lemma same_request_refl [simp]: "same_request x x"
  by (cases x) (simp_all add: same_request_def)

lemma acknowledges_mono: "acknowledges env J call receipt \<Longrightarrow> acknowledges env (J @ K) call receipt"
  unfolding acknowledges_def by (metis length_append nth_append trans_less_add1)

lemma journal_step_acknowledges: "journal_step env J call J' (Inr receipt) \<Longrightarrow> acknowledges env J' call receipt"
proof (erule journal_step_InrE)
  fix x assume "call_op env call = Inr x" "J' = J @ [x]" "receipt = op_receipt env (seq (length J)) x"
  then show ?thesis
    unfolding acknowledges_def by (intro exI [of _ x] exI [of _ "length J"]) simp
qed (auto simp: acknowledges_def)

lemma journal_run_acknowledges:
  assumes "journal_run env J calls J' rs" and "(call, Inr receipt) \<in> set (zip calls rs)"
  shows "acknowledges env J' call receipt"
  using assms
proof (induction rule: journal_run.induct)
  case (run_step J c J1 r calls J2 rs)
  obtain K where K: "J2 = J1 @ K" using journal_run_extends [OF run_step.hyps(2)] by blast
  show ?case
  proof (cases "(call, Inr receipt) = (c, r)")
    case True
    then show ?thesis using journal_step_acknowledges run_step.hyps(1) acknowledges_mono K by blast
  next
    case False
    then show ?thesis using run_step by auto
  qed
qed simp

section \<open>Simulation\<close>

context storage_engine
begin

lemma synchronize_retry_content:
  assumes "evalid e" and "synchronize_retry_if_required ops n d e = (e', r)"
  shows "evalid e' \<and> content e' = content e"
proof (cases "d = Sync")
  case True
  obtain t where t: "eng_begin_write ops e = Inr t" "tvalid t" "tview t = content e" "based t e"
    using begin_write_latest [OF assms(1)] by blast
  obtain e1 r1 where c: "tx_commit (eng_transaction ops) Sync t e = (e1, r1)" by fastforce
  have "e' = e1" using assms(2) True by (cases r1) (auto simp: synchronize_retry_if_required_def t(1) c)
  then show ?thesis using commit_atomic [OF assms(1) t(2,4) c] t(3) by auto
next
  case False
  then show ?thesis using assms by (simp add: synchronize_retry_if_required_def)
qed

lemma retry_spec_step:
  assumes "evalid e" and "retry_spec env ops i (J ! i) x e = (e', r)" and "call_op env call = Inr x" and "i < length J"
  shows "evalid e' \<and> content e' = content e \<and> journal_step env J call J r"
proof -
  obtain e1 r1 where sync: "synchronize_retry_if_required ops (seq i) (op_durability x) e = (e1, r1)" by fastforce
  note content = synchronize_retry_content [OF assms(1) sync]
  show ?thesis
  proof (cases "same_request x (J ! i) \<and> ensure_durability (seq i) (op_durability x) (op_durability (J ! i)) = Inr ()")
    case True
    then have d: "op_durability x = Sync \<longrightarrow> op_durability (J ! i) = Sync"
      by (auto simp: ensure_durability_def split: if_splits)
    have "e' = e1 \<and> (\<exists>err. r = Inl err \<or> r = Inr (replayed (op_receipt env (seq i) (J ! i))))"
      using assms(2) True by (cases r1) (auto simp: retry_spec_def sync)
    then show ?thesis using content True d assms(3,4) by (auto intro: journal_step.rejected journal_step.repeated)
  next
    case False
    then have "e' = e \<and> (\<exists>err. r = Inl err)"
      using assms(2) by (cases "ensure_durability (seq i) (op_durability x) (op_durability (J ! i))")
        (auto simp: retry_spec_def split: if_splits)
    then show ?thesis using assms(1) by (auto intro: journal_step.rejected)
  qed
qed

lemma stage_spec_represents:
  assumes e: "evalid e" and rep: "represents env J (content e)"
    and parsed: "op_parsed env x" and new: "key_position J (op_key x) = None"
    and st: "stage_spec env ops J x stage e = Inr (t, n, receipt)"
  shows "tvalid t \<and> based t e \<and> represents env (J @ [x]) (tview t) \<and> op_ok env J x \<and> Suc (length J) < 2 ^ 64
    \<and> n = seq (length J) \<and> receipt = op_receipt env n x"
proof -
  obtain t0 where t0: "eng_begin_write ops e = Inr t0" "tvalid t0" "tview t0 = content e" "based t0 e"
    using begin_write_latest [OF e] by blast
  let ?rs = "op_records env (seq (length J)) x @ [head_record env (seq (length J))]"
  have admitted: "admit env J x = Inr ()" and put: "put_records ops ?rs t0 = Inr t"
    and n: "n = seq (length J)" "receipt = op_receipt env n x"
    using st by (auto simp: stage_spec_def t0(1) Let_def)
  have "op_key x \<notin> op_key ` set J" using new by (simp add: key_position_None)
  note ok = admit_op_ok [OF admitted this]
  have "represents env (J @ [x]) (tview t)"
    using represents_snoc [OF rep _ ok(1)] ok(2) parsed put_records_stages [OF t0(2) put] t0(3) by simp
  then show ?thesis using ok parsed n put_records_stages [OF t0(2) put] t0(4) by blast
qed

lemma finish_commit_cases:
  assumes "evalid e" and "tvalid t" and "based t e" and "finish_commit ops options (t, n, receipt) e = (e', r)"
  shows "evalid e' \<and> (content e' = content e \<and> (\<exists>err. r = Inl err)
    \<or> content e' = tview t \<and> (r = Inr receipt \<or> (\<exists>err. r = Inl err)))"
proof (cases "fail_at options = Some AfterStaging")
  case True
  then show ?thesis using assms by (auto simp: finish_commit_def rollback_ok)
next
  case False
  obtain e1 r1 where c: "tx_commit (eng_transaction ops) (opt_durability options) t e = (e1, r1)" by fastforce
  note atomic = commit_atomic [OF assms(1-3) c]
  show ?thesis
  proof (cases r1)
    case (Inl err)
    then show ?thesis using assms(4) False atomic by (auto simp: finish_commit_def c)
  next
    case (Inr physical)
    then show ?thesis using assms(4) False atomic
      by (cases "ensure_durability n (opt_durability options) (receipt_durability physical)")
        (auto simp: finish_commit_def c split: if_splits)
  qed
qed

lemma do_call_op_spec:
  assumes "evalid e" and "represents env J (content e)" and "codecs_ok env"
  shows "do_call env ops call e =
    (case call_op env call of Inl err \<Rightarrow> (e, Inl err) | Inr x \<Rightarrow> op_spec env ops J x (call_options call) e)"
  using accept_observation_spec [OF assms] publish_semantic_spec [OF assms] publish_maintenance_spec [OF assms]
  by (cases call) (auto split: sum.splits simp: rbind_Inl_iff)

theorem do_call_simulates:
  assumes e: "evalid e" and rep: "represents env J (content e)" and codecs: "codecs_ok env"
    and call: "do_call env ops call e = (e', r)"
  shows "\<exists>J'. evalid e' \<and> represents env J' (content e') \<and> journal_step env J call J' r"
proof (cases "call_op env call")
  case (Inl err)
  then have "e' = e" "r = Inl err" using call by (simp_all add: do_call_op_spec [OF e rep codecs])
  then show ?thesis using e rep journal_step.rejected by blast
next
  case (Inr x)
  have op: "op_spec env ops J x (call_options call) e = (e', r)"
    using call Inr by (simp add: do_call_op_spec [OF e rep codecs])
  show ?thesis
  proof (cases "key_position J (op_key x)")
    case None
    show ?thesis
    proof (cases "stage_spec env ops J x (fail_at (call_options call)) e")
      case (Inl err)
      then have "e' = e" "r = Inl err" using op None by (simp_all add: op_spec_def)
      then show ?thesis using e rep journal_step.rejected by blast
    next
      case (Inr prepared)
      obtain t n receipt where p: "prepared = (t, n, receipt)" by (cases prepared)
      have parsed: "op_parsed env x" using call_op_parsed \<open>call_op env call = Inr x\<close> by blast
      note st = stage_spec_represents [OF e rep parsed None Inr [unfolded p]]
      have fin: "finish_commit ops (call_options call) (t, n, receipt) e = (e', r)"
        using op None Inr p by (simp add: op_spec_def)
      have "evalid e'" and cases: "content e' = content e \<and> (\<exists>err. r = Inl err)
          \<or> content e' = tview t \<and> (r = Inr receipt \<or> (\<exists>err. r = Inl err))"
        using finish_commit_cases [OF e _ _ fin] st by simp_all
      then show ?thesis
        using st rep \<open>call_op env call = Inr x\<close>
        by (metis journal_step.published journal_step.rejected journal_step.unacknowledged)
    qed
  next
    case (Some i)
    then have "retry_spec env ops i (J ! i) x e = (e', r)" using op by (simp add: op_spec_def)
    then show ?thesis
      using retry_spec_step [OF e _ \<open>call_op env call = Inr x\<close>] key_position_Some [OF Some] rep by metis
  qed
qed

theorem run_calls_simulate:
  assumes "evalid e" and "represents env J (content e)" and "codecs_ok env"
    and "run_calls env ops calls e = (e', rs)"
  shows "\<exists>J'. evalid e' \<and> represents env J' (content e') \<and> journal_run env J calls J' rs"
  using assms
proof (induction calls arbitrary: e J rs)
  case Nil
  then show ?case using journal_run.run_done by auto
next
  case (Cons call calls)
  obtain e1 r1 where c: "do_call env ops call e = (e1, r1)" by fastforce
  obtain J1 where J1: "evalid e1" "represents env J1 (content e1)" "journal_step env J call J1 r1"
    using do_call_simulates [OF Cons.prems(1-3) c] by blast
  obtain rs1 where rs1: "run_calls env ops calls e1 = (e', rs1)" "rs = r1 # rs1"
    using Cons.prems(4) by (auto simp: c split: prod.splits)
  then obtain J' where "evalid e'" "represents env J' (content e')" "journal_run env J1 calls J' rs1"
    using Cons.IH [OF J1(1,2) Cons.prems(3)] by blast
  then show ?case using journal_run.run_step [OF J1(3)] rs1(2) by blast
qed

end

section \<open>The answer of an available engine\<close>

text \<open>Every record can be encoded, or the first error.\<close>

definition encodable :: "record_put list \<Rightarrow> journal_error + unit" where
  "encodable = rall (\<lambda>(ks, k, r). rbind r (\<lambda>_. Inr ()))"

text \<open>
  What a request does to a journal when the engine commits: the function that the three commit
  operations compute.
\<close>

definition journal_spec ::
  "('o, 'm, 'x, 'w) journal_env \<Rightarrow> ('o, 'm, 'x) journal_op list \<Rightarrow> ('o, 'm, 'x) journal_op \<Rightarrow> commit_stage option \<Rightarrow>
   ('o, 'm, 'x) journal_op list \<times> (journal_error + stored_receipt)" where
  "journal_spec env J x stage =
     (case key_position J (op_key x) of
        Some i \<Rightarrow>
          (J, if \<not> same_request x (J ! i) then Inl JIdempotencyConflict
              else if op_durability x = Sync \<and> op_durability (J ! i) \<noteq> Sync
              then Inl (JDurabilityNotAchieved (seq i) Sync (op_durability (J ! i)))
              else Inr (replayed (op_receipt env (seq i) (J ! i))))
      | None \<Rightarrow>
          let n = seq (length J) in
          case rbind (journal_fail_if stage AfterValidation) (\<lambda>_.
               rbind (admit env J x) (\<lambda>_.
               rbind (encodable (op_records env n x @ [head_record env n])) (\<lambda>_.
               journal_fail_if stage AfterStaging))) of
            Inl err \<Rightarrow> (J, Inl err)
          | Inr _ \<Rightarrow> (J @ [x], if stage = Some AfterCommitBeforeAck then Inl (JLostResponse n)
                            else Inr (op_receipt env n x)))"

definition call_spec ::
  "('o, 'm, 'x, 'w) journal_env \<Rightarrow> ('o, 'm, 'x) journal_op list \<Rightarrow> journal_call \<Rightarrow>
   ('o, 'm, 'x) journal_op list \<times> (journal_error + stored_receipt)" where
  "call_spec env J call =
     (case call_op env call of Inl err \<Rightarrow> (J, Inl err) | Inr x \<Rightarrow> journal_spec env J x (fail_at (call_options call)))"

context storage_engine
begin

lemma put_records_encodable:
  assumes "tvalid t"
  shows "rbind (put_records ops rs t) (\<lambda>_. Inr ()) = encodable rs"
  using assms
proof (induction rs arbitrary: t)
  case (Cons q rs)
  obtain ks k r where q: "q = (ks, k, r)" by (cases q)
  show ?case
  proof (cases r)
    case (Inr b)
    obtain t1 where t1: "tx_put (eng_transaction ops) ks k b t = Inr t1" "tvalid t1"
      using put_store [OF Cons.prems, of ks k b] by blast
    then show ?thesis using Cons.IH [OF t1(2)] by (simp add: q Inr encodable_def)
  qed (simp add: q encodable_def)
qed (simp add: encodable_def)

lemma synchronize_retry_available:
  assumes "evalid e" and "available e"
  shows "\<exists>e'. synchronize_retry_if_required ops n d e = (e', Inr ())"
proof (cases "d = Sync")
  case True
  obtain t where t: "eng_begin_write ops e = Inr t" "tvalid t" "based t e"
    using begin_write_latest [OF assms(1)] by blast
  obtain e' c where "tx_commit (eng_transaction ops) Sync t e = (e', Inr c)" "receipt_durability c = Sync"
    using commit_available [OF assms(1) t(2,3) assms(2)] by blast
  then show ?thesis using True t(1) by (simp add: synchronize_retry_if_required_def ensure_durability_def)
qed (simp add: synchronize_retry_if_required_def)

lemma finish_commit_available:
  assumes "evalid e" and "tvalid t" and "based t e" and "available e"
  shows "\<exists>e'. finish_commit ops options (t, n, receipt) e = (e',
      rbind (journal_fail_if (fail_at options) AfterStaging) (\<lambda>_.
        if fail_at options = Some AfterCommitBeforeAck then Inl (JLostResponse n) else Inr receipt))
    \<and> evalid e' \<and> content e' = (if fail_at options = Some AfterStaging then content e else tview t)"
proof (cases "fail_at options = Some AfterStaging")
  case True
  then show ?thesis using assms(1) by (simp add: finish_commit_def rollback_ok journal_fail_if_def)
next
  case False
  obtain e' c where c: "tx_commit (eng_transaction ops) (opt_durability options) t e = (e', Inr c)"
    "receipt_durability c = opt_durability options"
    using commit_available [OF assms(1-4)] by blast
  then have "evalid e' \<and> content e' = tview t" using commit_atomic [OF assms(1-3) c(1)] by blast
  then show ?thesis
    using False c by (simp add: finish_commit_def journal_fail_if_def ensure_durability_def)
qed

lemma op_spec_available:
  assumes e: "evalid e" and av: "available e" and rep: "represents env J (content e)" and parsed: "op_parsed env x"
    and spec: "journal_spec env J x (fail_at options) = (J', r)"
  shows "\<exists>e'. op_spec env ops J x options e = (e', r) \<and> evalid e' \<and> represents env J' (content e')"
proof (cases "key_position J (op_key x)")
  case (Some i)
  obtain e1 where s: "synchronize_retry_if_required ops (seq i) (op_durability x) e = (e1, Inr ())"
    using synchronize_retry_available [OF e av] by blast
  have "evalid e1 \<and> content e1 = content e" by (rule synchronize_retry_content [OF e s])
  then show ?thesis
    using spec Some e rep by (auto simp: journal_spec_def op_spec_def retry_spec_def s ensure_durability_def)
next
  case None
  let ?n = "seq (length J)"
  let ?rs = "op_records env ?n x @ [head_record env ?n]"
  obtain t0 where t0: "eng_begin_write ops e = Inr t0" "tvalid t0" using begin_write_latest [OF e] by blast
  show ?thesis
  proof (cases "stage_spec env ops J x (fail_at options) e")
    case (Inl err)
    then have "rbind (journal_fail_if (fail_at options) AfterValidation) (\<lambda>_.
        rbind (admit env J x) (\<lambda>_. encodable ?rs)) = Inl err"
      using put_records_encodable [OF t0(2), of ?rs] by (auto simp: stage_spec_def t0(1) Let_def rbind_Inl_iff)
    then have "J' = J" "r = Inl err"
      using spec None by (auto simp: journal_spec_def Let_def rbind_Inl_iff split: sum.splits)
    then show ?thesis using Inl None e rep by (simp add: op_spec_def)
  next
    case (Inr prepared)
    obtain t n receipt where p: "prepared = (t, n, receipt)" by (cases prepared)
    note st = stage_spec_represents [OF e rep parsed None Inr [unfolded p]]
    have "encodable ?rs = Inr ()" "admit env J x = Inr ()" "journal_fail_if (fail_at options) AfterValidation = Inr ()"
      using Inr put_records_encodable [OF t0(2), of ?rs] by (auto simp: stage_spec_def t0(1) Let_def p)
    moreover obtain e' where "finish_commit ops options (t, n, receipt) e = (e',
        rbind (journal_fail_if (fail_at options) AfterStaging) (\<lambda>_.
          if fail_at options = Some AfterCommitBeforeAck then Inl (JLostResponse n) else Inr receipt))"
      "evalid e'" "content e' = (if fail_at options = Some AfterStaging then content e else tview t)"
      using finish_commit_available [OF e _ _ av, of t options n receipt] st by blast
    ultimately show ?thesis
      using spec None Inr p st rep
      by (auto simp: op_spec_def journal_spec_def Let_def journal_fail_if_def split: if_splits)
  qed
qed

lemma do_call_available:
  assumes "evalid e" and "available e" and "represents env J (content e)" and "codecs_ok env"
    and "call_spec env J call = (J', r)"
  shows "\<exists>e'. do_call env ops call e = (e', r) \<and> evalid e' \<and> represents env J' (content e')"
proof (cases "call_op env call")
  case (Inl err)
  then show ?thesis using assms by (simp add: do_call_op_spec [OF assms(1,3,4)] call_spec_def)
next
  case (Inr x)
  then show ?thesis
    using op_spec_available [OF assms(1-3)] call_op_parsed [OF Inr] assms(5)
    by (simp add: do_call_op_spec [OF assms(1,3,4)] call_spec_def)
qed

end

end
