(* ===== verification/Journal_Snapshots.thy ===== *)
theory Journal_Snapshots
  imports Journal_Calls
begin

text \<open>
  Materialising a represented journal: \<open>snapshot\<close>, \<open>replay_mutations\<close> and
  \<open>replay_maintenance\<close> return exactly the events of the published operations, in order, or fail
  with a storage error when a listing exceeds the limits of an unpaged scan.
\<close>

section \<open>Frames and listings\<close>

lemma frame_decode:
  assumes "codec_ok codec" and "encode env codec kind n x = Inr b"
  shows "\<exists>record. envelope_decode (blake3 env) b = Inr record \<and> env_kind (dec_envelope record) = record_kind_u16 kind
    \<and> env_schema (dec_envelope record) = SCHEMA_VERSION \<and> env_flags (dec_envelope record) = 0
    \<and> env_seq (dec_envelope record) = n \<and> from_slice codec (dec_payload record) = Some x"
proof -
  obtain payload where p: "to_vec codec x = Some payload"
    and e: "envelope_encode (blake3 env) (record_kind_u16 kind) SCHEMA_VERSION 0 n payload = Inr b"
    using assms(2) by (auto simp: encode_def)
  have "from_slice codec payload = Some x" using assms(1) p by (auto simp: codec_ok_def)
  with envelope_decode_encode [OF e] show ?thesis by simp
qed

text \<open>Every listing of a journal keyspace is within the limits of an unpaged scan.\<close>

definition store_fits :: "store \<Rightarrow> bool" where
  "store_fits c \<longleftrightarrow> (\<forall>ks \<in> journal_keyspaces. \<forall>p. \<exists>es. listing (c ks) p es \<and> scan_fits es)"

context read_snapshot
begin

text \<open>A scan returns the listing, or it fails and the listing is over the limits.\<close>

lemma scan_cases:
  assumes "valid s" and "listing (view s ks) p es" and "ks \<in> journal_keyspaces"
  shows "snap_scan_prefix ops s ks p = Inr es
    \<or> (\<exists>err. snap_scan_prefix ops s ks p = Inl err) \<and> \<not> store_fits (view s)"
proof (cases "snap_scan_prefix ops s ks p")
  case (Inl err)
  then have "\<not> scan_fits es" using scan_complete [OF assms(1,2)] by auto
  then show ?thesis using Inl listing_unique [OF assms(2)] assms(3) by (auto simp: store_fits_def)
next
  case (Inr fs)
  then show ?thesis using scan_sound [OF assms(1) Inr] listing_unique assms(2) by blast
qed

end

definition put_entry :: "record_put \<Rightarrow> entry" where
  "put_entry = (\<lambda>(ks, k, r). Entry k (projr r))"

lemma put_entry_simp [simp]: "put_entry (ks, k, r) = Entry k (projr r)"
  by (simp add: put_entry_def)

lemma put_entry_iff: "Entry k v \<in> put_entry ` set rs \<longleftrightarrow> (\<exists>ks r. (ks, k, r) \<in> set rs \<and> v = projr r)"
proof
  assume "\<exists>ks r. (ks, k, r) \<in> set rs \<and> v = projr r"
  then obtain ks r where "(ks, k, r) \<in> set rs" "Entry k v = put_entry (ks, k, r)" by auto
  then show "Entry k v \<in> put_entry ` set rs" by blast
qed (auto simp: put_entry_def)

section \<open>The outbox of one publication\<close>

fun op_target :: "('o, 'm, 'x, 'w) journal_env \<Rightarrow> ('o, 'm, 'x) journal_op \<Rightarrow> uuid" where
  "op_target env (JObs kd d v) = 0"
| "op_target env (JSem kd d p v) = vm_id env v"
| "op_target env (JMnt kd d p v) = vx_id env v"

lemma record_outbox:
  "(ks_outbox, k, r) \<in> set (op_records env n x) \<longleftrightarrow>
     (ks_outbox, k, r) \<in> set (outbox_records env n (op_target env x) 0 (op_work env x))"
  by (cases x) (auto simp: key_record_def outbox_records_def)

lemma outbox_record_iff:
  "(ks, k, r) \<in> set (outbox_records env n mid 0 works) \<longleftrightarrow>
     ks = ks_outbox \<and> (\<exists>i < length works. k = outbox_key n (of_nat i)
       \<and> r = encode env (outbox_codec env) KOutbox n \<lparr>ob_mutation_id = mid, ob_index = of_nat i, ob_work = works ! i\<rparr>)"
  by (auto simp: outbox_records_def in_set_enumerate_eq)

definition outbox_entries ::
  "('o, 'm, 'x, 'w) journal_env \<Rightarrow> u64 \<Rightarrow> ('o, 'm, 'x) journal_op \<Rightarrow> entry list" where
  "outbox_entries env n x = map put_entry (outbox_records env n (op_target env x) 0 (op_work env x))"

lemma outbox_entries_length [simp]: "length (outbox_entries env n x) = length (op_work env x)"
  by (simp add: outbox_entries_def outbox_records_def)

lemma outbox_key_less:
  assumes "i < 2 ^ 32" and "j < 2 ^ 32"
  shows "outbox_key n (of_nat i) < outbox_key n (of_nat j) \<longleftrightarrow> i < j"
proof -
  have "(of_nat i :: u32) < of_nat j \<longleftrightarrow> i < j" using assms by (simp add: word_less_nat_alt unat_of_nat)
  then show ?thesis by (simp add: outbox_key_def OUTBOX_PREFIX_def ascii_def to_be_bytes_less_iff)
qed

lemma put_entry_keys: "map entry_key (map put_entry rs) = map snd (map put_place rs)"
  by (induction rs) (auto simp: put_entry_def put_place_def split: prod.splits)

lemma outbox_entries_sorted:
  assumes "length (op_work env x) < 2 ^ 32"
  shows "strictly_sorted (map entry_key (outbox_entries env n x))"
proof -
  have "map entry_key (outbox_entries env n x) = map (\<lambda>i. outbox_key n (of_nat i)) [0..<length (op_work env x)]"
    unfolding outbox_entries_def put_entry_keys outbox_place_list by simp
  then show ?thesis using assms by (auto simp: sorted_wrt_iff_nth_less outbox_key_less)
qed

lemma materialize_outbox_entries:
  assumes "codec_ok (outbox_codec env)" and "k + length works \<le> 2 ^ 32"
    and "\<forall>(ks, key, r) \<in> set (outbox_records env n mid k works). \<exists>b. r = Inr b"
  shows "materialize_outbox env mismatch n mid k (map put_entry (outbox_records env n mid k works)) = Inr works"
  using assms(2,3)
proof (induction works arbitrary: k)
  case (Cons w works)
  have rs: "outbox_records env n mid k (w # works) =
      (ks_outbox, outbox_key n (of_nat k),
        encode env (outbox_codec env) KOutbox n \<lparr>ob_mutation_id = mid, ob_index = of_nat k, ob_work = w\<rparr>)
      # outbox_records env n mid (Suc k) works" by (simp add: outbox_records_def)
  obtain b where b: "encode env (outbox_codec env) KOutbox n \<lparr>ob_mutation_id = mid, ob_index = of_nat k, ob_work = w\<rparr> = Inr b"
    using Cons.prems(2) by (auto simp: rs)
  have "unat (of_nat k :: u32) = k" using Cons.prems(1) by (simp add: unat_of_nat)
  then show ?case
    using Cons.IH [of "Suc k"] Cons.prems decode_any_encode(2) [OF assms(1) b] by (simp add: rs b)
qed (simp add: outbox_records_def)

lemma wf_journal_work: "wf_journal env J \<Longrightarrow> i < length J \<Longrightarrow> length (op_work env (J ! i)) < 2 ^ 32"
  by (simp add: wf_journal_def op_ok_def)

lemma wf_journal_seq_inj:
  "wf_journal env J \<Longrightarrow> i < length J \<Longrightarrow> j < length J \<Longrightarrow> seq i = seq j \<longleftrightarrow> i = j"
  using seq_inj [of i j] by (simp add: wf_journal_def)

lemma outbox_listing:
  assumes rep: "represents env J c" and i: "i < length J"
  shows "listing (c ks_outbox) (outbox_sequence_prefix (seq i)) (outbox_entries env (seq i) (J ! i))"
  unfolding listing_def
proof (intro conjI allI)
  note wf = represents_wf [OF rep]
  show "strictly_sorted (map entry_key (outbox_entries env (seq i) (J ! i)))"
    by (rule outbox_entries_sorted [OF wf_journal_work [OF wf i]])
  fix k v
  have "Entry k v \<in> set (outbox_entries env (seq i) (J ! i)) \<longleftrightarrow>
      (\<exists>r. (ks_outbox, k, r) \<in> set (op_records env (seq i) (J ! i)) \<and> v = projr r)"
    unfolding record_outbox outbox_entries_def set_map put_entry_iff by (auto simp: outbox_record_iff)
  also have "\<dots> \<longleftrightarrow> (ks_outbox, k, Inr v) \<in> set (op_records env (seq i) (J ! i))"
    using represents_place [OF rep i, of ks_outbox k] by force
  also have "\<dots> \<longleftrightarrow> c ks_outbox k = Some v \<and> starts_with k (outbox_sequence_prefix (seq i))"
  proof -
    have "starts_with k (outbox_sequence_prefix (seq i)) \<longleftrightarrow> j = i"
      if "j < length J" "(ks_outbox, k, Inr v) \<in> set (op_records env (seq j) (J ! j))" for j
      using that wf_journal_seq_inj [OF wf that(1) i] by (auto simp: record_outbox outbox_record_iff)
    then show ?thesis using i by (auto simp: represents_lookup [OF rep])
  qed
  finally show "Entry k v \<in> set (outbox_entries env (seq i) (J ! i)) \<longleftrightarrow>
      c ks_outbox k = Some v \<and> starts_with k (outbox_sequence_prefix (seq i))" .
qed

lemma outbox_materialized:
  assumes rep: "represents env J c" and "codecs_ok env" and i: "i < length J"
  shows "materialize_outbox env mismatch (seq i) (op_target env (J ! i)) 0 (outbox_entries env (seq i) (J ! i)) =
    Inr (op_work env (J ! i))"
  unfolding outbox_entries_def
proof (intro materialize_outbox_entries ballI)
  show "codec_ok (outbox_codec env)" by (rule codecs_ok_simps [OF assms(2)])
  show "0 + length (op_work env (J ! i)) \<le> 2 ^ 32" using wf_journal_work [OF represents_wf [OF rep] i] by simp
  fix q assume q: "q \<in> set (outbox_records env (seq i) (op_target env (J ! i)) 0 (op_work env (J ! i)))"
  obtain ks k r where p: "q = (ks, k, r)" by (cases q)
  have "ks = ks_outbox" using q by (simp add: p outbox_record_iff)
  then have "\<exists>b. r = Inr b" using q represents_place [OF rep i, of ks k r] by (auto simp: p record_outbox)
  then show "case q of (ks, k, r) \<Rightarrow> \<exists>b. r = Inr b" by (simp add: p)
qed

section \<open>Materialising one event\<close>

definition journal_events :: "('o, 'm, 'x, 'w) journal_env \<Rightarrow> ('o, 'm, 'x) journal_op list \<Rightarrow> 'w journal_event list" where
  "journal_events env J = map (\<lambda>i. op_event env (seq i) (J ! i)) [0..<length J]"

lemma journal_events_length [simp]: "length (journal_events env J) = length J"
  by (simp add: journal_events_def)

lemma wf_journal_at:
  assumes "wf_journal env J" and "i < length J"
  shows "op_parsed env (J ! i)" and "op_valid env (take i J) (J ! i)"
  using assms by (simp_all add: wf_journal_def op_ok_def)

lemma seq_pred:
  assumes "Suc i < 2 ^ 64"
  shows "seq i - 1 = of_nat i" and "seq i \<noteq> 0"
proof -
  show "seq i - 1 = of_nat i" by (simp add: seq_def)
  show "seq i \<noteq> 0" using unat_seq [OF assms] by auto
qed

lemma wf_journal_seq_pred:
  assumes "wf_journal env J" and "i < length J"
  shows "seq i - 1 = of_nat i" and "seq i \<noteq> 0"
  using assms seq_pred [of i] by (simp_all add: wf_journal_def)

context read_snapshot
begin

lemma references_before:
  assumes "valid s" and rep: "represents env J (view s)" and "codecs_ok env" and "k \<le> length J"
    and "\<forall>a \<in> set refs. Some a \<in> op_observation env ` set (take k J)"
  shows "rall (validate_observation_reference env ops s (of_nat k)) refs = Inr ()"
  unfolding rall_Inr_iff
proof
  fix a assume "a \<in> set refs"
  then obtain i where i: "i < k" "i < length J" "op_observation env (J ! i) = Some a"
    using assms(5) by (force simp: in_set_conv_nth)
  then obtain kd d v where v: "J ! i = JObs kd d v" "a = vo_id env v" by (cases "J ! i") auto
  have "length J < 2 ^ 64" using represents_wf [OF rep] by (simp add: wf_journal_def)
  then have "\<not> seq i > of_nat k" using seq_le_iff [OF i(2) _ assms(4)] i(1) by (simp add: not_less)
  then show "validate_observation_reference env ops s (of_nat k) a = Inr ()"
    using observation_index_represents [OF assms(1-3) i(2) v(1)] by (simp add: validate_observation_reference_def v(2))
qed

lemma stored_mutation:
  assumes "valid s" and "represents env J (view s)" and "codecs_ok env" and "i < length J"
    and "(ks_mutations, mutation_key a, encode env (mutation_codec env) kind (seq i) frame)
      \<in> set (op_records env (seq i) (J ! i))"
  obtains b where "snap_get ops s ks_mutations (mutation_key a) = Inr (Some b)"
    and "decode env (mutation_codec env) kind (seq i) b = Inr frame"
proof -
  obtain b where b: "encode env (mutation_codec env) kind (seq i) frame = Inr b"
    and "view s ks_mutations (mutation_key a) = Some b"
    using represents_place [OF assms(2,4,5)] by blast
  then show ?thesis
    using that assms(1) decode_any_encode(2) [OF codecs_ok_simps(4) [OF assms(3)] b] by (simp add: get_view)
qed

lemma materialize_observation_represents:
  assumes "valid s" and "represents env J (view s)" and "codecs_ok env" and "i < length J" and x: "J ! i = JObs kd d v"
    and "from_slice (observation_codec env) bs =
      Some \<lparr>of_observation_id = vo_id env v, of_digest = vo_digest v, of_bytes = vo_bytes v\<rparr>"
  shows "materialize_observation env ops s (seq i) bs = Inr (op_event env (seq i) (J ! i))"
  using observation_index_represents [OF assms(1-5)] wf_journal_at(1) [OF represents_wf [OF assms(2)] assms(4)] assms(6)
  by (simp add: materialize_observation_def x)

lemma materialize_semantic_represents:
  assumes s: "valid s" and rep: "represents env J (view s)" and codecs: "codecs_ok env" and i: "i < length J"
    and x: "J ! i = JSem kd d p v"
    and slice: "from_slice (publication_codec env) bs = Some
      \<lparr>pf_mutation_id = vm_id env v, pf_publication_id = p, pf_digest = vm_digest v,
       pf_outbox_count = of_nat (length (mut_work (semantic env) (vm_mutation v)))\<rparr>"
  shows "materialize_semantic env ops s (seq i) bs =
    (case snap_scan_prefix ops s ks_outbox (outbox_sequence_prefix (seq i)) of
       Inl err \<Rightarrow> Inl (JStorage err) | Inr _ \<Rightarrow> Inr (op_event env (seq i) (J ! i)))"
proof -
  note wf = represents_wf [OF rep]
  have "(ks_mutations, mutation_key (vm_id env v), encode env (mutation_codec env) KSemanticMutation (seq i)
      \<lparr>mf_mutation_id = vm_id env v, mf_digest = vm_digest v, mf_bytes = vm_bytes v\<rparr>)
      \<in> set (op_records env (seq i) (J ! i))" by (simp add: x)
  from stored_mutation [OF s rep codecs i this]
  obtain b where b: "snap_get ops s ks_mutations (mutation_key (vm_id env v)) = Inr (Some b)"
    "decode env (mutation_codec env) KSemanticMutation (seq i) b =
      Inr \<lparr>mf_mutation_id = vm_id env v, mf_digest = vm_digest v, mf_bytes = vm_bytes v\<rparr>"
    by blast
  have parsed: "mutation_from_json env (vm_bytes v) = Inr v" using wf_journal_at(1) [OF wf i] by (simp add: x)
  have base: "mut_base (semantic env) (vm_mutation v) = of_nat i"
    and "\<forall>a \<in> set (mut_refs (semantic env) (vm_mutation v)). Some a \<in> op_observation env ` set (take i J)"
    using wf_journal_at(2) [OF wf i] i by (simp_all add: x)
  then have refs: "rall (validate_observation_reference env ops s (of_nat i)) (mut_refs (semantic env) (vm_mutation v)) = Inr ()"
    using references_before [OF s rep codecs] i by simp
  have count: "unat (of_nat (length (mut_work (semantic env) (vm_mutation v))) :: u32) = length (mut_work (semantic env) (vm_mutation v))"
    using wf_journal_work [OF wf i] by (simp add: x unat_of_nat)
  note outbox = outbox_materialized [OF rep codecs i, unfolded x op_target.simps op_work.simps]
  show ?thesis
  proof (cases "snap_scan_prefix ops s ks_outbox (outbox_sequence_prefix (seq i))")
    case (Inl err)
    then show ?thesis
      by (simp add: materialize_semantic_def slice b parsed base refs wf_journal_seq_pred [OF wf i] Let_def)
  next
    case (Inr es)
    then have "es = outbox_entries env (seq i) (J ! i)"
      using scan_sound [OF s Inr] outbox_listing [OF rep i] listing_unique by blast
    then show ?thesis
      by (simp add: materialize_semantic_def slice b parsed base refs wf_journal_seq_pred [OF wf i] Let_def Inr
          count x outbox)
  qed
qed

lemma materialize_maintenance_represents:
  assumes s: "valid s" and rep: "represents env J (view s)" and codecs: "codecs_ok env" and i: "i < length J"
    and x: "J ! i = JMnt kd d p v"
    and slice: "from_slice (publication_codec env) bs = Some
      \<lparr>pf_mutation_id = vx_id env v, pf_publication_id = p, pf_digest = vx_digest v,
       pf_outbox_count = of_nat (length (mnt_work (maintenance env) (vx_mutation v)))\<rparr>"
  shows "materialize_maintenance env ops s (seq i) bs =
    (case snap_scan_prefix ops s ks_outbox (outbox_sequence_prefix (seq i)) of
       Inl err \<Rightarrow> Inl (JStorage err) | Inr _ \<Rightarrow> Inr (op_event env (seq i) (J ! i)))"
proof -
  note wf = represents_wf [OF rep]
  have "(ks_mutations, mutation_key (vx_id env v), encode env (mutation_codec env) KMaintenanceMutation (seq i)
      \<lparr>mf_mutation_id = vx_id env v, mf_digest = vx_digest v, mf_bytes = vx_bytes v\<rparr>)
      \<in> set (op_records env (seq i) (J ! i))" by (simp add: x)
  from stored_mutation [OF s rep codecs i this]
  obtain b where b: "snap_get ops s ks_mutations (mutation_key (vx_id env v)) = Inr (Some b)"
    "decode env (mutation_codec env) KMaintenanceMutation (seq i) b =
      Inr \<lparr>mf_mutation_id = vx_id env v, mf_digest = vx_digest v, mf_bytes = vx_bytes v\<rparr>"
    by blast
  have parsed: "maintenance_from_json env (vx_bytes v) = Inr v" using wf_journal_at(1) [OF wf i] by (simp add: x)
  have base: "mnt_base (maintenance env) (vx_mutation v) = of_nat i"
    using wf_journal_at(2) [OF wf i] i by (simp add: x)
  have count: "unat (of_nat (length (mnt_work (maintenance env) (vx_mutation v))) :: u32) = length (mnt_work (maintenance env) (vx_mutation v))"
    using wf_journal_work [OF wf i] by (simp add: x unat_of_nat)
  note outbox = outbox_materialized [OF rep codecs i, unfolded x op_target.simps op_work.simps]
  show ?thesis
  proof (cases "snap_scan_prefix ops s ks_outbox (outbox_sequence_prefix (seq i))")
    case (Inl err)
    then show ?thesis
      by (simp add: materialize_maintenance_def slice b parsed base wf_journal_seq_pred [OF wf i] Let_def)
  next
    case (Inr es)
    then have "es = outbox_entries env (seq i) (J ! i)"
      using scan_sound [OF s Inr] outbox_listing [OF rep i] listing_unique by blast
    then show ?thesis
      by (simp add: materialize_maintenance_def slice b parsed base wf_journal_seq_pred [OF wf i] Let_def Inr
          count x outbox)
  qed
qed

lemma materialize_event_represents:
  assumes s: "valid s" and rep: "represents env J (view s)" and codecs: "codecs_ok env" and i: "i < length J"
    and b: "event_frame env (seq i) (J ! i) = Inr b"
  shows "materialize_event env ops s (seq i) b = Inr (op_event env (seq i) (J ! i))
    \<or> (\<exists>err. materialize_event env ops s (seq i) b = Inl (JStorage err)) \<and> \<not> store_fits (view s)"
proof (cases "J ! i")
  case (JObs kd d v)
  from frame_decode [OF codecs_ok_simps(3) [OF codecs] b [unfolded JObs event_frame.simps]]
  show ?thesis
    using materialize_observation_represents [OF s rep codecs i JObs]
    by (auto simp: materialize_event_def Let_def)
next
  case (JSem kd d p v)
  from frame_decode [OF codecs_ok_simps(5) [OF codecs] b [unfolded JSem event_frame.simps]]
  show ?thesis
    using materialize_semantic_represents [OF s rep codecs i JSem] scan_cases [OF s outbox_listing [OF rep i] in_journal_keyspaces(3)]
    by (auto simp: materialize_event_def Let_def)
next
  case (JMnt kd d p v)
  from frame_decode [OF codecs_ok_simps(5) [OF codecs] b [unfolded JMnt event_frame.simps]]
  show ?thesis
    using materialize_maintenance_represents [OF s rep codecs i JMnt] scan_cases [OF s outbox_listing [OF rep i] in_journal_keyspaces(3)]
    by (auto simp: materialize_event_def Let_def)
qed

end

section \<open>Snapshots\<close>

definition event_entry :: "('o, 'm, 'x, 'w) journal_env \<Rightarrow> ('o, 'm, 'x) journal_op list \<Rightarrow> nat \<Rightarrow> entry" where
  "event_entry env J i = Entry (event_key (seq i)) (projr (event_frame env (seq i) (J ! i)))"

definition event_entries :: "('o, 'm, 'x, 'w) journal_env \<Rightarrow> ('o, 'm, 'x) journal_op list \<Rightarrow> entry list" where
  "event_entries env J = map (event_entry env J) [0..<length J]"

lemma represents_event:
  assumes "represents env J c" and "i < length J"
  obtains b where "event_frame env (seq i) (J ! i) = Inr b" and "c ks_events (event_key (seq i)) = Some b"
  using represents_place [OF assms, of ks_events "event_key (seq i)" "event_frame env (seq i) (J ! i)"]
  by (auto simp: record_event)

lemma seq_less:
  assumes "i < j" and "Suc j < 2 ^ 64"
  shows "seq i < seq j"
  using assms unat_seq [of i] unat_seq [of j] by (simp add: word_less_nat_alt)

lemma events_listing:
  assumes rep: "represents env J c"
  shows "listing (c ks_events) EVENT_PREFIX (event_entries env J)"
  unfolding listing_def
proof (intro conjI allI)
  have "length J < 2 ^ 64" using represents_wf [OF rep] by (simp add: wf_journal_def)
  then show "strictly_sorted (map entry_key (event_entries env J))"
    by (auto simp: sorted_wrt_iff_nth_less event_entries_def event_entry_def intro!: seq_less)
  fix k v
  show "Entry k v \<in> set (event_entries env J) \<longleftrightarrow> c ks_events k = Some v \<and> starts_with k EVENT_PREFIX"
  proof
    assume "Entry k v \<in> set (event_entries env J)"
    then obtain i where i: "i < length J" "k = event_key (seq i)" "v = projr (event_frame env (seq i) (J ! i))"
      by (auto simp: event_entries_def event_entry_def)
    then show "c ks_events k = Some v \<and> starts_with k EVENT_PREFIX"
      using represents_event [OF rep i(1)] by (metis event_key_prefix sum.sel(2))
  next
    assume "c ks_events k = Some v \<and> starts_with k EVENT_PREFIX"
    then obtain i where i: "i < length J" "k = event_key (seq i)" "Inr v = event_frame env (seq i) (J ! i)"
      using represents_lookup [OF rep] by (auto simp: record_event)
    then have "Entry k v = event_entry env J i" by (simp add: event_entry_def flip: i(3))
    then show "Entry k v \<in> set (event_entries env J)" using i(1) by (simp add: event_entries_def)
  qed
qed

lemma saturating_inc_seq: "Suc (Suc i) < 2 ^ 64 \<Longrightarrow> saturating_inc (seq i) = seq (Suc i)"
proof -
  assume "Suc (Suc i) < 2 ^ 64"
  then have "seq (Suc i) \<noteq> 0" by (rule seq_pred)
  moreover have "seq (Suc i) = seq i + 1" by (simp add: seq_def)
  ultimately show ?thesis by (auto simp: saturating_inc_def)
qed

context read_snapshot
begin

lemma snapshot_events_represents:
  assumes s: "valid s" and rep: "represents env J (view s)" and codecs: "codecs_ok env"
    and k: "k \<le> length J" and i: "i \<le> length J"
    and expected: "i < length J \<longrightarrow> expected = (if i \<le> k then seq i else expected)"
  shows "snapshot_events env ops s (of_nat k) expected (map (event_entry env J) [i..<length J]) =
      Inr (map (\<lambda>i. op_event env (seq i) (J ! i)) [i..<k])
    \<or> (\<exists>err. snapshot_events env ops s (of_nat k) expected (map (event_entry env J) [i..<length J]) = Inl (JStorage err))
      \<and> \<not> store_fits (view s)"
  using i expected
proof (induction "length J - i" arbitrary: i expected)
  case 0
  then show ?case using k by simp
next
  case (Suc m)
  have len: "length J < 2 ^ 64" using represents_wf [OF rep] by (simp add: wf_journal_def)
  have i: "i < length J" using Suc.hyps(2) by simp
  have m: "m = length J - Suc i" using Suc.hyps(2) by simp
  obtain b where b: "event_frame env (seq i) (J ! i) = Inr b" using represents_event [OF rep i] by blast
  have upt: "[i..<length J] = i # [Suc i..<length J]" using i by (simp add: upt_rec)
  show ?case
  proof (cases "i < k")
    case True
    then have "\<not> seq i > of_nat k" using seq_le_iff [OF i len k] by (simp add: not_less)
    moreover have "expected = seq i" using Suc.prems(2) i True by simp
    moreover have "[i..<k] = i # [Suc i..<k]" using True by (simp add: upt_rec)
    moreover have "Suc i < length J \<longrightarrow> saturating_inc expected = (if Suc i \<le> k then seq (Suc i) else saturating_inc expected)"
      using \<open>expected = seq i\<close> saturating_inc_seq [of i] len True by simp
    note IH = Suc.hyps(1) [OF m _ this]
    ultimately show ?thesis
      using IH i materialize_event_represents [OF s rep codecs i b] by (auto simp: upt event_entry_def b)
  next
    case False
    then have "seq i > of_nat k" using seq_le_iff [OF i len k] by (simp add: not_less flip: not_le)
    moreover have "Suc i < length J \<longrightarrow> expected = (if Suc i \<le> k then seq (Suc i) else expected)"
      using False by simp
    note IH = Suc.hyps(1) [OF m _ this]
    ultimately show ?thesis using IH i False by (simp add: upt event_entry_def b)
  qed
qed

end

text \<open>The prefix of a journal that a selector names.\<close>

fun selected :: "nat \<Rightarrow> journal_snapshot_selector \<Rightarrow> journal_error + nat" where
  "selected n JLatest = Inr n"
| "selected n (JAt q) = (if unat q \<le> n then Inr (unat q) else Inl (JSnapshotUnavailable q (of_nat n)))"

lemma journal_events_take:
  "k \<le> length J \<Longrightarrow> take k (journal_events env J) = map (\<lambda>i. op_event env (seq i) (J ! i)) [0..<k]"
  by (simp add: journal_events_def take_map)

context storage_engine
begin

lemma snapshot_represents:
  assumes e: "evalid e" and rep: "represents env J (content e)" and codecs: "codecs_ok env"
  shows "case selected (length J) selector of
      Inl err \<Rightarrow> snapshot env ops selector e = Inl err
    | Inr k \<Rightarrow>
        (\<exists>p. snapshot env ops selector e =
           Inr \<lparr>js_commit_seq = of_nat k, js_storage_sequence = p, js_events = take k (journal_events env J)\<rparr>)
        \<or> (\<exists>err. snapshot env ops selector e = Inl (JStorage err)) \<and> \<not> store_fits (content e)"
proof -
  obtain s where s: "eng_begin_read ops Latest e = Inr s" "svalid s" "sview s = content e"
    using begin_read_latest [OF e] by blast
  have rep': "represents env J (sview s)" using rep s(3) by simp
  have len: "length J < 2 ^ 64" using represents_wf [OF rep] by (simp add: wf_journal_def)
  have head: "logical_head env (eng_snapshot ops) s = Inr (of_nat (length J))"
    by (rule snap.logical_head_represents [OF s(2) rep' codecs])
  show ?thesis
  proof (cases "selected (length J) selector")
    case (Inl err)
    then obtain q where q: "selector = JAt q" "\<not> unat q \<le> length J" "err = JSnapshotUnavailable q (of_nat (length J))"
      by (cases selector) (auto split: if_splits)
    then have "q > of_nat (length J)" using unat_length [OF len] by (simp add: word_less_nat_alt)
    then show ?thesis using q Inl by (simp add: snapshot_def s(1) head)
  next
    case (Inr k)
    have k: "k \<le> length J" and requested: "(case selector of JLatest \<Rightarrow> Inr (of_nat (length J))
          | JAt q \<Rightarrow> if q > of_nat (length J) then Inl (JSnapshotUnavailable q (of_nat (length J))) else Inr q) = Inr (of_nat k)"
      using Inr unat_length [OF len] by (cases selector; auto simp: word_less_nat_alt split: if_splits)+
    have count: "unat (of_nat k :: u64) = k" using k len by (simp add: unat_of_nat)
    have seq0: "(1 :: u64) = seq 0" by (simp add: seq_def)
    have events: "snapshot_events env (eng_snapshot ops) s (of_nat k) (seq 0) (event_entries env J) = Inr (take k (journal_events env J))
        \<or> (\<exists>err. snapshot_events env (eng_snapshot ops) s (of_nat k) (seq 0) (event_entries env J) = Inl (JStorage err))
          \<and> \<not> store_fits (content e)"
      using snap.snapshot_events_represents [OF s(2) rep' codecs k, of 0 "seq 0"]
      by (simp add: event_entries_def journal_events_take k s(3))
    have taken: "length (take k (journal_events env J)) = k" using k by simp
    have "snap_scan_prefix (eng_snapshot ops) s ks_events EVENT_PREFIX = Inr (event_entries env J)
        \<or> (\<exists>err. snap_scan_prefix (eng_snapshot ops) s ks_events EVENT_PREFIX = Inl err) \<and> \<not> store_fits (content e)"
      using snap.scan_cases [OF s(2) events_listing [OF rep'] in_journal_keyspaces(2)] s(3) by simp
    then show ?thesis
    proof
      assume scan: "snap_scan_prefix (eng_snapshot ops) s ks_events EVENT_PREFIX = Inr (event_entries env J)"
      from events show ?thesis
        by (elim disjE) (auto simp: Inr snapshot_def s(1) head requested scan seq0 count taken simp del: length_take)
    next
      assume "(\<exists>err. snap_scan_prefix (eng_snapshot ops) s ks_events EVENT_PREFIX = Inl err) \<and> \<not> store_fits (content e)"
      then show ?thesis by (auto simp: Inr snapshot_def s(1) head requested)
    qed
  qed
qed

lemma snapshot_sound:
  assumes "evalid e" and "represents env J (content e)" and "codecs_ok env" and "snapshot env ops selector e = Inr snap"
  shows "\<exists>k. selected (length J) selector = Inr k \<and> js_commit_seq snap = of_nat k
    \<and> js_events snap = take k (journal_events env J)"
  using snapshot_represents [OF assms(1-3), of selector] assms(4) by (auto split: sum.splits)

lemma snapshot_complete:
  assumes "evalid e" and "represents env J (content e)" and "codecs_ok env" and "store_fits (content e)"
  shows "case selected (length J) selector of
      Inl err \<Rightarrow> snapshot env ops selector e = Inl err
    | Inr k \<Rightarrow> \<exists>p. snapshot env ops selector e =
        Inr \<lparr>js_commit_seq = of_nat k, js_storage_sequence = p, js_events = take k (journal_events env J)\<rparr>"
  using snapshot_represents [OF assms(1-3), of selector] assms(4) by (auto split: sum.splits)

end

section \<open>Replay\<close>

fun op_replay_mutation :: "('o, 'm, 'x, 'w) journal_env \<Rightarrow> u64 \<Rightarrow> ('o, 'm, 'x) journal_op \<Rightarrow> replay_mutation option" where
  "op_replay_mutation env n (JSem kd d p v) =
     Some \<lparr>rm_commit_seq = n, rm_mutation_id = vm_id env v, rm_digest = vm_digest v, rm_bytes = vm_bytes v\<rparr>"
| "op_replay_mutation env n x = None"

fun op_replay_maintenance :: "('o, 'm, 'x, 'w) journal_env \<Rightarrow> u64 \<Rightarrow> ('o, 'm, 'x) journal_op \<Rightarrow> replay_mutation option" where
  "op_replay_maintenance env n (JMnt kd d p v) =
     Some \<lparr>rm_commit_seq = n, rm_mutation_id = vx_id env v, rm_digest = vx_digest v, rm_bytes = vx_bytes v\<rparr>"
| "op_replay_maintenance env n x = None"

lemma map_filter_map: "List.map_filter f (map g xs) = List.map_filter (f \<circ> g) xs"
  by (induction xs) (auto simp: List.map_filter_def)

context storage_engine
begin

lemma replay_sound:
  assumes "evalid e" and "represents env J (content e)" and "codecs_ok env"
  shows "replay_mutations env ops selector e = Inr ms \<Longrightarrow>
      \<exists>k. selected (length J) selector = Inr k
        \<and> ms = List.map_filter (\<lambda>i. op_replay_mutation env (seq i) (J ! i)) [0..<k]"
    and "replay_maintenance env ops selector e = Inr ms \<Longrightarrow>
      \<exists>k. selected (length J) selector = Inr k
        \<and> ms = List.map_filter (\<lambda>i. op_replay_maintenance env (seq i) (J ! i)) [0..<k]"
proof -
  have le: "k \<le> length J" if "selected (length J) selector = Inr k" for k
    using that by (cases selector) (auto split: if_splits)
  have sem: "(case op_event env n x of SemanticPublished q m p bs d ws \<Rightarrow>
        Some \<lparr>rm_commit_seq = q, rm_mutation_id = m, rm_digest = d, rm_bytes = bs\<rparr> | _ \<Rightarrow> None) = op_replay_mutation env n x"
    for n x by (cases x) simp_all
  have mnt: "(case op_event env n x of MaintenancePublished q m p bs d ws \<Rightarrow>
        Some \<lparr>rm_commit_seq = q, rm_mutation_id = m, rm_digest = d, rm_bytes = bs\<rparr> | _ \<Rightarrow> None) = op_replay_maintenance env n x"
    for n x by (cases x) simp_all
  show "replay_mutations env ops selector e = Inr ms \<Longrightarrow>
      \<exists>k. selected (length J) selector = Inr k
        \<and> ms = List.map_filter (\<lambda>i. op_replay_mutation env (seq i) (J ! i)) [0..<k]"
    using snapshot_sound [OF assms] le
    by (fastforce simp: replay_mutations_def journal_events_take map_filter_map comp_def sem)
  show "replay_maintenance env ops selector e = Inr ms \<Longrightarrow>
      \<exists>k. selected (length J) selector = Inr k
        \<and> ms = List.map_filter (\<lambda>i. op_replay_maintenance env (seq i) (J ! i)) [0..<k]"
    using snapshot_sound [OF assms] le
    by (fastforce simp: replay_maintenance_def journal_events_take map_filter_map comp_def mnt)
qed

end

end
