(* ===== verification/Journal_Recovery.thy ===== *)
theory Journal_Recovery
  imports Journal_Snapshots
begin

text \<open>
  Recovery and verification. An interrupted store holds a represented journal and, beside it,
  records of a later sequence that no head names; \<open>recover\<close> removes exactly those. \<open>verify\<close>
  accepts every represented journal and counts its records.
\<close>

section \<open>Tails\<close>

definition record_sequence :: "('o, 'm, 'x, 'w) journal_env \<Rightarrow> keyspace \<Rightarrow> bytes \<Rightarrow> bytes \<Rightarrow> u64 option" where
  "record_sequence env ks k b =
     (if ks = ks_events then sequence_from_key k EVENT_PREFIX 0
      else if ks = ks_outbox then sequence_from_key k OUTBOX_PREFIX 4
      else if ks = ks_meta then None
      else case envelope_decode (blake3 env) b of Inl err \<Rightarrow> None | Inr r \<Rightarrow> Some (env_seq (dec_envelope r)))"

definition keyspace_prefix :: "keyspace \<Rightarrow> bytes" where
  "keyspace_prefix ks =
     (if ks = ks_events then EVENT_PREFIX else if ks = ks_outbox then OUTBOX_PREFIX
      else if ks = ks_mutations then MUTATION_PREFIX else if ks = ks_observations then OBSERVATION_PREFIX
      else IDEMPOTENCY_PREFIX)"

definition tail_record :: "('o, 'm, 'x, 'w) journal_env \<Rightarrow> u64 \<Rightarrow> keyspace \<Rightarrow> bytes \<Rightarrow> bytes \<Rightarrow> bool" where
  "tail_record env n ks k b \<longleftrightarrow> starts_with k (keyspace_prefix ks)
     \<and> (case record_sequence env ks k b of None \<Rightarrow> False | Some q \<Rightarrow> n < q)"

definition interrupted :: "('o, 'm, 'x, 'w) journal_env \<Rightarrow> ('o, 'm, 'x) journal_op list \<Rightarrow> store \<Rightarrow> bool" where
  "interrupted env J c \<longleftrightarrow> (\<exists>c0. represents env J c0 \<and>
     (\<forall>ks \<in> journal_keyspaces. \<forall>k. c ks k = c0 ks k
        \<or> c0 ks k = None \<and> (\<exists>b. c ks k = Some b \<and> tail_record env (of_nat (length J)) ks k b)))"

lemma represents_interrupted: "represents env J c \<Longrightarrow> interrupted env J c"
  unfolding interrupted_def by blast

lemma represents_cong:
  assumes "represents env J c" and "\<forall>ks \<in> journal_keyspaces. c' ks = c ks"
  shows "represents env J c'"
  using assms by (simp add: represents_def)

lemma key_prefixes [simp]:
  "starts_with (observation_key a) OBSERVATION_PREFIX" "starts_with (mutation_key a) MUTATION_PREFIX"
  by (simp_all add: observation_key_def mutation_key_def uuid_key_def)

lemma frame_sequence:
  assumes "codec_ok codec" and "Inr b = encode env codec kind n v"
  shows "(case envelope_decode (blake3 env) b of Inl err \<Rightarrow> None | Inr r \<Rightarrow> Some (env_seq (dec_envelope r))) = Some n"
  using frame_decode [OF assms(1) assms(2) [symmetric]] by auto

text \<open>The records of an operation carry its sequence, in the key or in the frame.\<close>

lemma op_record_sequence:
  assumes "codecs_ok env" and "(ks, k, Inr b) \<in> set (op_records env n x)"
  shows "record_sequence env ks k b = Some n \<and> starts_with k (keyspace_prefix ks)"
proof -
  have "ks = ks_events \<or> ks = ks_outbox \<or> ks = ks_mutations \<or> ks = ks_observations \<or> ks = ks_idempotency"
    using op_records_keyspace [OF assms(2)] by (auto simp: journal_keyspaces_def)
  then show ?thesis
  proof (elim disjE)
    assume "ks = ks_events"
    then show ?thesis using assms(2) by (auto simp: record_event record_sequence_def keyspace_prefix_def)
  next
    assume "ks = ks_outbox"
    then show ?thesis
      using assms(2) by (auto simp: record_outbox outbox_record_iff record_sequence_def keyspace_prefix_def)
  next
    assume "ks = ks_mutations"
    then show ?thesis
      using assms(2) frame_sequence [OF codecs_ok_simps(4) [OF assms(1)]]
      by (auto simp: record_mutation record_sequence_def keyspace_prefix_def)
  next
    assume "ks = ks_observations"
    then show ?thesis
      using assms(2) frame_sequence [OF codecs_ok_simps(2) [OF assms(1)]]
      by (auto simp: record_observation record_sequence_def keyspace_prefix_def)
  next
    assume "ks = ks_idempotency"
    then show ?thesis
      using assms(2) frame_sequence [OF codecs_ok_simps(7) [OF assms(1)]]
      by (auto simp: record_idempotency key_record_def record_sequence_def keyspace_prefix_def)
  qed
qed

lemma represented_record:
  assumes "represents env J c" and "codecs_ok env" and "ks \<in> journal_keyspaces" and "ks \<noteq> ks_meta" and "c ks k = Some b"
  obtains q where "record_sequence env ks k b = Some q" and "q \<le> of_nat (length J)"
    and "starts_with k (keyspace_prefix ks)"
proof -
  obtain i where i: "i < length J" "(ks, k, Inr b) \<in> set (op_records env (seq i) (J ! i))"
    using represents_lookup [OF assms(1,3,4)] assms(5) by blast
  have "length J < 2 ^ 64" using represents_wf [OF assms(1)] by (simp add: wf_journal_def)
  then have "seq i \<le> of_nat (length J)" by (rule seq_le_length [OF i(1)])
  then show ?thesis using that op_record_sequence [OF assms(2) i(2)] by blast
qed

section \<open>Collecting the tail\<close>

definition tail_places :: "('o, 'm, 'x, 'w) journal_env \<Rightarrow> u64 \<Rightarrow> keyspace \<Rightarrow> entry list \<Rightarrow> (keyspace \<times> bytes) list" where
  "tail_places env n ks es = map (\<lambda>e. (ks, entry_key e))
     (filter (\<lambda>e. case record_sequence env ks (entry_key e) (entry_value e) of None \<Rightarrow> False | Some q \<Rightarrow> n < q) es)"

lemma collect_keyed_events:
  "list_all (\<lambda>e. record_sequence env ks_events (entry_key e) (entry_value e) \<noteq> None) es \<Longrightarrow>
   collect_keyed_tail ks_events EVENT_PREFIX 0 n es = Inr (tail_places env n ks_events es)"
  by (induction es) (auto simp: tail_places_def record_sequence_def)

lemma collect_keyed_outbox:
  "list_all (\<lambda>e. record_sequence env ks_outbox (entry_key e) (entry_value e) \<noteq> None) es \<Longrightarrow>
   collect_keyed_tail ks_outbox OUTBOX_PREFIX 4 n es = Inr (tail_places env n ks_outbox es)"
  by (induction es) (auto simp: tail_places_def record_sequence_def)

lemma collect_framed:
  assumes "ks \<noteq> ks_events" and "ks \<noteq> ks_outbox" and "ks \<noteq> ks_meta"
    and "list_all (\<lambda>e. record_sequence env ks (entry_key e) (entry_value e) \<noteq> None) es"
  shows "collect_framed_tail env ks n es = Inr (tail_places env n ks es)"
  using assms(4)
proof (induction es)
  case (Cons e es)
  obtain r where "envelope_decode (blake3 env) (entry_value e) = Inr r"
    using Cons.prems assms(1-3) by (auto simp: record_sequence_def split: sum.splits)
  then show ?case using Cons assms(1-3) by (simp add: tail_places_def record_sequence_def)
qed (simp add: tail_places_def)

lemma interrupted_entry:
  assumes "interrupted env J c" and "codecs_ok env" and "ks \<in> journal_keyspaces" and "ks \<noteq> ks_meta"
    and "listing (c ks) p es" and "e \<in> set es"
  shows "record_sequence env ks (entry_key e) (entry_value e) \<noteq> None"
proof -
  obtain c0 where rep: "represents env J c0" and c0: "c ks (entry_key e) = c0 ks (entry_key e)
      \<or> c0 ks (entry_key e) = None \<and> (\<exists>b. c ks (entry_key e) = Some b \<and> tail_record env (of_nat (length J)) ks (entry_key e) b)"
    using assms(1,3) unfolding interrupted_def by blast
  have stored: "c ks (entry_key e) = Some (entry_value e)" using assms(6) listing_entry [OF assms(5)] by simp
  from c0 show ?thesis
  proof
    assume "c ks (entry_key e) = c0 ks (entry_key e)"
    then show ?thesis using represented_record [OF rep assms(2-4)] stored by (metis option.distinct(1))
  next
    assume "c0 ks (entry_key e) = None \<and> (\<exists>b. c ks (entry_key e) = Some b \<and> tail_record env (of_nat (length J)) ks (entry_key e) b)"
    then show ?thesis using stored by (auto simp: tail_record_def split: option.splits)
  qed
qed

definition tail_keyspaces :: "keyspace list" where
  "tail_keyspaces = [ks_events, ks_outbox, ks_mutations, ks_observations, ks_idempotency]"

text \<open>The records that recovery removes are those of a later sequence.\<close>

definition deletions_of :: "('o, 'm, 'x, 'w) journal_env \<Rightarrow> u64 \<Rightarrow> store \<Rightarrow> (keyspace \<times> bytes) set" where
  "deletions_of env n c = {(ks, k). ks \<in> set tail_keyspaces \<and> (\<exists>b. c ks k = Some b \<and> tail_record env n ks k b)}"

lemma tail_places_set:
  assumes "listing (c ks) (keyspace_prefix ks) es"
  shows "set (tail_places env n ks es) = {ks} \<times> {k. \<exists>b. c ks k = Some b \<and> tail_record env n ks k b}"
proof -
  note mem = listing_entry [OF assms]
  show ?thesis
  proof (intro equalityI subsetI)
    fix x assume "x \<in> set (tail_places env n ks es)"
    then show "x \<in> {ks} \<times> {k. \<exists>b. c ks k = Some b \<and> tail_record env n ks k b}"
      by (auto simp: tail_places_def tail_record_def mem)
  next
    fix x assume "x \<in> {ks} \<times> {k. \<exists>b. c ks k = Some b \<and> tail_record env n ks k b}"
    then obtain k b where x: "x = (ks, k)" "c ks k = Some b" "tail_record env n ks k b" by auto
    then have "Entry k b \<in> set es" by (simp add: mem tail_record_def)
    then show "x \<in> set (tail_places env n ks es)"
      using x by (auto simp: tail_places_def tail_record_def image_iff intro!: bexI [of _ "Entry k b"])
  qed
qed

text \<open>One of the five scans: it collects the tail of its keyspace, or fails for the limits.\<close>

definition tail_outcome ::
  "('o, 'm, 'x, 'w) journal_env \<Rightarrow> u64 \<Rightarrow> store \<Rightarrow> keyspace \<Rightarrow> journal_error + (keyspace \<times> bytes) list \<Rightarrow> bool" where
  "tail_outcome env n c ks r \<longleftrightarrow>
     (\<exists>ds. r = Inr ds \<and> set ds = {ks} \<times> {k. \<exists>b. c ks k = Some b \<and> tail_record env n ks k b})
     \<or> (\<exists>err. r = Inl (JStorage err)) \<and> \<not> store_fits c"

context read_snapshot
begin

lemma scan_fails:
  assumes "valid s" and "ks \<in> journal_keyspaces" and "snap_scan_prefix ops s ks p = Inl err"
  shows "\<not> store_fits (view s)"
proof
  assume "store_fits (view s)"
  then obtain es where "listing (view s ks) p es" "scan_fits es" using assms(2) by (auto simp: store_fits_def)
  then show False using scan_complete [OF assms(1)] assms(3) by simp
qed

lemma collect_tail_outcome:
  assumes "valid s" and "interrupted env J (view s)" and "codecs_ok env" and "ks \<in> journal_keyspaces" and "ks \<noteq> ks_meta"
    and "\<And>es. list_all (\<lambda>e. record_sequence env ks (entry_key e) (entry_value e) \<noteq> None) es \<Longrightarrow>
      collect es = Inr (tail_places env n ks es)"
  shows "tail_outcome env n (view s) ks (rbind (map_err JStorage (snap_scan_prefix ops s ks (keyspace_prefix ks))) collect)"
proof (cases "snap_scan_prefix ops s ks (keyspace_prefix ks)")
  case (Inl err)
  then show ?thesis using scan_fails [OF assms(1,4) Inl] by (simp add: tail_outcome_def)
next
  case (Inr es)
  note listing = scan_sound [OF assms(1) Inr]
  have "collect es = Inr (tail_places env n ks es)"
    using interrupted_entry [OF assms(2-5) listing] assms(6) by (simp add: list_all_iff)
  then show ?thesis using Inr tail_places_set [of "view s" ks, OF listing] by (simp add: tail_outcome_def)
qed

lemma collect_tails_cases:
  assumes "valid s" and "interrupted env J (view s)" and "codecs_ok env"
  shows "(\<exists>ds. collect_tails env ops s n = Inr ds \<and> set ds = deletions_of env n (view s))
    \<or> (\<exists>err. collect_tails env ops s n = Inl (JStorage err)) \<and> \<not> store_fits (view s)"
proof -
  note outcome = collect_tail_outcome [OF assms, where n = n]
  have prefixes: "keyspace_prefix ks_events = EVENT_PREFIX" "keyspace_prefix ks_outbox = OUTBOX_PREFIX"
    "keyspace_prefix ks_mutations = MUTATION_PREFIX" "keyspace_prefix ks_observations = OBSERVATION_PREFIX"
    "keyspace_prefix ks_idempotency = IDEMPOTENCY_PREFIX"
    by (simp_all add: keyspace_prefix_def)
  have "tail_outcome env n (view s) ks_events (rbind (map_err JStorage (snap_scan_prefix ops s ks_events EVENT_PREFIX))
      (collect_keyed_tail ks_events EVENT_PREFIX 0 n))"
    using outcome [of ks_events, OF _ _ collect_keyed_events] by (simp add: prefixes)
  moreover have "tail_outcome env n (view s) ks_outbox (rbind (map_err JStorage (snap_scan_prefix ops s ks_outbox OUTBOX_PREFIX))
      (collect_keyed_tail ks_outbox OUTBOX_PREFIX 4 n))"
    using outcome [of ks_outbox, OF _ _ collect_keyed_outbox] by (simp add: prefixes)
  moreover have "tail_outcome env n (view s) ks_mutations (rbind (map_err JStorage (snap_scan_prefix ops s ks_mutations MUTATION_PREFIX))
      (collect_framed_tail env ks_mutations n))"
    using outcome [of ks_mutations, OF _ _ collect_framed] by (simp add: prefixes)
  moreover have "tail_outcome env n (view s) ks_observations (rbind (map_err JStorage (snap_scan_prefix ops s ks_observations OBSERVATION_PREFIX))
      (collect_framed_tail env ks_observations n))"
    using outcome [of ks_observations, OF _ _ collect_framed] by (simp add: prefixes)
  moreover have "tail_outcome env n (view s) ks_idempotency (rbind (map_err JStorage (snap_scan_prefix ops s ks_idempotency IDEMPOTENCY_PREFIX))
      (collect_framed_tail env ks_idempotency n))"
    using outcome [of ks_idempotency, OF _ _ collect_framed] by (simp add: prefixes)
  ultimately show ?thesis
    unfolding tail_outcome_def collect_tails_def
    by (elim disjE exE conjE) (simp_all add: deletions_of_def tail_keyspaces_def, auto)
qed

end

section \<open>Removing the tail\<close>

definition store_delete :: "(keyspace \<times> bytes) set \<Rightarrow> store \<Rightarrow> store" where
  "store_delete D c = (\<lambda>ks k. if (ks, k) \<in> D then None else c ks k)"

lemma no_tail_head [simp]: "\<not> tail_record env n ks_meta k b"
  by (simp add: tail_record_def record_sequence_def)

lemma deletions_iff:
  assumes "ks \<in> journal_keyspaces"
  shows "(ks, k) \<in> deletions_of env n c \<longleftrightarrow> (\<exists>b. c ks k = Some b \<and> tail_record env n ks k b)"
  using assms by (auto simp: deletions_of_def tail_keyspaces_def journal_keyspaces_def)

lemma represented_no_tail:
  assumes "represents env J c" and "codecs_ok env" and "ks \<in> journal_keyspaces" and "c ks k = Some b"
  shows "\<not> tail_record env (of_nat (length J)) ks k b"
proof (cases "ks = ks_meta")
  case False
  show ?thesis
    by (rule represented_record [OF assms(1-3) False assms(4)]) (simp add: tail_record_def not_less)
qed simp

lemma represents_no_deletions:
  assumes "represents env J c" and "codecs_ok env"
  shows "deletions_of env (of_nat (length J)) c = {}"
proof -
  have "set tail_keyspaces \<subseteq> journal_keyspaces" by (simp add: tail_keyspaces_def)
  then show ?thesis using represented_no_tail [OF assms] by (fastforce simp: deletions_of_def)
qed

lemma interrupted_delete:
  assumes "interrupted env J c" and "codecs_ok env"
  shows "represents env J (store_delete (deletions_of env (of_nat (length J)) c) c)"
proof -
  let ?n = "of_nat (length J)"
  obtain c0 where rep: "represents env J c0" and c0: "\<forall>ks \<in> journal_keyspaces. \<forall>k. c ks k = c0 ks k
      \<or> c0 ks k = None \<and> (\<exists>b. c ks k = Some b \<and> tail_record env ?n ks k b)"
    using assms(1) unfolding interrupted_def by blast
  have "store_delete (deletions_of env ?n c) c ks k = c0 ks k" if ks: "ks \<in> journal_keyspaces" for ks k
  proof (cases "c0 ks k")
    case None
    then show ?thesis using c0 [rule_format, OF ks, of k] deletions_iff [OF ks, of k env ?n c] by (auto simp: store_delete_def)
  next
    case (Some b)
    note represented_no_tail [OF rep assms(2) ks Some]
    then show ?thesis
      using c0 [rule_format, OF ks, of k] deletions_iff [OF ks, of k env ?n c] Some by (auto simp: store_delete_def)
  qed
  then show ?thesis using represents_cong [OF rep] by blast
qed

lemma interrupted_head:
  assumes "interrupted env J c"
  obtains c0 where "represents env J c0" and "c ks_meta = c0 ks_meta"
proof -
  obtain c0 where rep: "represents env J c0" and c0: "\<forall>ks \<in> journal_keyspaces. \<forall>k. c ks k = c0 ks k
      \<or> c0 ks k = None \<and> (\<exists>b. c ks k = Some b \<and> tail_record env (of_nat (length J)) ks k b)"
    using assms unfolding interrupted_def by blast
  have "c ks_meta = c0 ks_meta"
    using c0 [rule_format, OF in_journal_keyspaces(1)] by auto
  then show ?thesis using that rep by blast
qed

lemma store_fits_delete:
  assumes "store_fits c"
  shows "store_fits (store_delete D c)"
  unfolding store_fits_def
proof (intro ballI allI)
  fix ks p assume "ks \<in> journal_keyspaces"
  then obtain es where es: "listing (c ks) p es" "scan_fits es" using assms by (auto simp: store_fits_def)
  let ?P = "\<lambda>e. (ks, entry_key e) \<notin> D"
  have "listing (store_delete D c ks) p (filter ?P es)"
    using es(1) by (auto simp: listing_def store_delete_def sorted_wrt_map intro: sorted_wrt_filter)
  moreover have "entries_bytes (filter ?P es) \<le> entries_bytes es" for es :: "entry list"
    by (induction es) auto
  then have "scan_fits (filter ?P es)"
    using es(2) by (auto simp: scan_fits_def intro: order_trans [OF length_filter_le] order_trans)
  ultimately show "\<exists>es. listing (store_delete D c ks) p es \<and> scan_fits es" by blast
qed

lemma store_delete_empty [simp]: "store_delete {} c = c"
  by (simp add: store_delete_def)

context storage_engine
begin

lemma delete_all_view:
  assumes "tvalid t"
  shows "\<exists>t'. delete_all ops ds t = Inr t' \<and> tvalid t' \<and> tview t' = store_delete (set ds) (tview t)
    \<and> (\<forall>e. based t e \<longrightarrow> based t' e)"
  using assms
proof (induction ds arbitrary: t)
  case (Cons d ds)
  obtain ks k where d: "d = (ks, k)" by (cases d)
  obtain t1 where t1: "tx_delete (eng_transaction ops) ks k t = Inr t1" "tvalid t1"
    "tview t1 = (tview t)(ks := (tview t ks)(k := None))" "\<forall>e. based t e \<longrightarrow> based t1 e"
    using delete_view [OF Cons.prems, of ks k] by blast
  have "store_delete (set ds) (tview t1) = store_delete (set (d # ds)) (tview t)"
    by (auto simp: store_delete_def d t1(3) intro!: ext)
  then show ?case using Cons.IH [OF t1(2)] t1(1,4) by (auto simp: d)
qed simp

lemma remove_tail_cases:
  assumes e: "evalid e" and r: "remove_tail ops n ds e = (e', r)"
  shows "evalid e' \<and> (content e' = content e \<or> content e' = store_delete (set ds) (content e))
    \<and> (r = Inr () \<longrightarrow> content e' = store_delete (set ds) (content e)) \<and> (available e \<longrightarrow> r = Inr ())"
proof (cases "ds = []")
  case True
  then show ?thesis using assms by (simp add: remove_tail_def)
next
  case False
  obtain t0 where t0: "eng_begin_write ops e = Inr t0" "tvalid t0" "tview t0 = content e" "based t0 e"
    using begin_write_latest [OF e] by blast
  obtain t where t: "delete_all ops ds t0 = Inr t" "tvalid t" "tview t = store_delete (set ds) (content e)" "based t e"
    using delete_all_view [OF t0(2)] t0(3,4) by auto
  obtain e1 r1 where c: "tx_commit (eng_transaction ops) Sync t e = (e1, r1)" by fastforce
  note atomic = commit_atomic [OF e t(2,4) c]
  have av: "available e \<Longrightarrow> \<exists>p. r1 = Inr p \<and> receipt_durability p = Sync"
    using commit_available [OF e t(2,4), of Sync] c by auto
  show ?thesis
  proof (cases r1)
    case (Inl err)
    then show ?thesis using r False atomic av t(3) by (auto simp: remove_tail_def t0(1) t(1) c)
  next
    case (Inr p)
    then show ?thesis using r False atomic av t(3) by (auto simp: remove_tail_def t0(1) t(1) c)
  qed
qed

lemma logical_head_interrupted:
  assumes "svalid s" and "interrupted env J (sview s)" and "codecs_ok env"
  shows "logical_head env (eng_snapshot ops) s = Inr (of_nat (length J))"
proof -
  obtain c0 where rep: "represents env J c0" and meta: "sview s ks_meta = c0 ks_meta"
    using interrupted_head [OF assms(2)] by blast
  show ?thesis
  proof (cases "J = []")
    case True
    then show ?thesis using represents_no_head [of env c0] rep meta assms(1) by (simp add: logical_head_def snap.get_view)
  next
    case False
    then obtain b where b: "encode env (head_codec env) KSnapshot (of_nat (length J)) (HeadPayload (of_nat (length J))) = Inr b"
      "c0 ks_meta HEAD_KEY = Some b"
      using represents_head [OF rep] by blast
    then show ?thesis
      using assms(1) meta decode_any_encode(1) [OF codecs_ok_simps(1) [OF assms(3)] b(1)]
      by (simp add: logical_head_def snap.get_view)
  qed
qed

definition recovery_answer ::
  "('o, 'm, 'x, 'w) journal_env \<Rightarrow> (keyspace \<times> bytes) list \<Rightarrow> 'e \<Rightarrow> journal_error + recovery_report" where
  "recovery_answer env ds e = rbind (snapshot env ops JLatest e) (\<lambda>validated.
     Inr \<lparr>rr_commit_seq = js_commit_seq validated, rr_storage_sequence = js_storage_sequence validated,
          rr_removed = u64_len (length ds),
          rr_warnings = (if ds = [] then []
            else [''removed '' @ decimal (unat (u64_len (length ds))) @ '' unpublished tail records''])\<rparr>)"

text \<open>Recovery fails in a scan, or removes the tail and reports what a snapshot then shows.\<close>

lemma recover_cases:
  assumes e: "evalid e" and int: "interrupted env J (content e)" and codecs: "codecs_ok env"
  shows "(\<exists>err. recover env ops e = (e, Inl (JStorage err))) \<and> \<not> store_fits (content e)
    \<or> (\<exists>ds. set ds = deletions_of env (of_nat (length J)) (content e) \<and>
         recover env ops e = (case remove_tail ops (of_nat (length J)) ds e of
           (e', Inl err) \<Rightarrow> (e', Inl err) | (e', Inr _) \<Rightarrow> (e', recovery_answer env ds e')))"
proof -
  obtain s where s: "eng_begin_read ops Latest e = Inr s" "svalid s" "sview s = content e"
    using begin_read_latest [OF e] by blast
  have int': "interrupted env J (sview s)" using int s(3) by simp
  note head = logical_head_interrupted [OF s(2) int' codecs]
  from snap.collect_tails_cases [OF s(2) int' codecs, of "of_nat (length J)"] show ?thesis
  proof (elim disjE exE conjE)
    fix ds assume ds: "collect_tails env (eng_snapshot ops) s (of_nat (length J)) = Inr ds"
      "set ds = deletions_of env (of_nat (length J)) (sview s)"
    then have "recover env ops e = (case remove_tail ops (of_nat (length J)) ds e of
           (e', Inl err) \<Rightarrow> (e', Inl err) | (e', Inr _) \<Rightarrow> (e', recovery_answer env ds e'))"
      by (simp add: recover_def s(1) head recovery_answer_def Let_def split: prod.split sum.split)
    then show ?thesis using ds(2) s(3) by auto
  next
    fix err assume "collect_tails env (eng_snapshot ops) s (of_nat (length J)) = Inl (JStorage err)" "\<not> store_fits (sview s)"
    then show ?thesis by (simp add: recover_def s(1,3) head)
  qed
qed

lemma recovery_answer_sound:
  assumes "evalid e" and "represents env J (content e)" and "codecs_ok env" and "recovery_answer env ds e = Inr report"
  shows "rr_commit_seq report = of_nat (length J) \<and> rr_removed report = u64_len (length ds)"
  using snapshot_sound [OF assms(1-3), of JLatest] assms(4) by (auto simp: recovery_answer_def)

lemma recovery_answer_complete:
  assumes "evalid e" and "represents env J (content e)" and "codecs_ok env" and "store_fits (content e)"
  shows "\<exists>report. recovery_answer env ds e = Inr report"
  using snapshot_complete [OF assms, of JLatest] by (auto simp: recovery_answer_def)

lemma recover_sound:
  assumes e: "evalid e" and int: "interrupted env J (content e)" and codecs: "codecs_ok env"
    and r: "recover env ops e = (e', r)"
  shows "evalid e' \<and> interrupted env J (content e')
    \<and> (\<forall>report. r = Inr report \<longrightarrow> represents env J (content e') \<and> rr_commit_seq report = of_nat (length J))"
  using recover_cases [OF e int codecs]
proof (elim disjE exE conjE)
  fix err assume "recover env ops e = (e, Inl (JStorage err))"
  then show ?thesis using e int r by simp
next
  fix ds assume ds: "set ds = deletions_of env (of_nat (length J)) (content e)"
    and rec: "recover env ops e = (case remove_tail ops (of_nat (length J)) ds e of
           (e', Inl err) \<Rightarrow> (e', Inl err) | (e', Inr _) \<Rightarrow> (e', recovery_answer env ds e'))"
  obtain e1 r1 where rt: "remove_tail ops (of_nat (length J)) ds e = (e1, r1)" by fastforce
  note cleaned = interrupted_delete [OF int codecs, folded ds]
  note tail = remove_tail_cases [OF e rt]
  have int1: "evalid e1 \<and> interrupted env J (content e1)"
    using tail int represents_interrupted [OF cleaned] by auto
  show ?thesis
  proof (cases r1)
    case (Inl err)
    then show ?thesis using r rec rt int1 by auto
  next
    case (Inr u)
    then have "represents env J (content e1)" using tail cleaned by simp
    then show ?thesis using r rec rt Inr int1 recovery_answer_sound [OF _ _ codecs] by auto
  qed
qed

lemma recover_available:
  assumes e: "evalid e" and int: "interrupted env J (content e)" and codecs: "codecs_ok env"
    and av: "available e" and fits: "store_fits (content e)"
  shows "\<exists>e' report. recover env ops e = (e', Inr report)"
  using recover_cases [OF e int codecs]
proof (elim disjE exE conjE)
  fix ds assume ds: "set ds = deletions_of env (of_nat (length J)) (content e)"
    and rec: "recover env ops e = (case remove_tail ops (of_nat (length J)) ds e of
           (e', Inl err) \<Rightarrow> (e', Inl err) | (e', Inr _) \<Rightarrow> (e', recovery_answer env ds e'))"
  obtain e1 r1 where rt: "remove_tail ops (of_nat (length J)) ds e = (e1, r1)" by fastforce
  note tail = remove_tail_cases [OF e rt]
  have "represents env J (content e1)" "store_fits (content e1)"
    using tail av interrupted_delete [OF int codecs, folded ds] store_fits_delete [OF fits] by simp_all
  then show ?thesis using rec rt tail av recovery_answer_complete [OF _ _ codecs] by auto
qed (use fits in simp)

text \<open>On a represented store there is nothing to remove.\<close>

lemma recover_represented:
  assumes e: "evalid e" and rep: "represents env J (content e)" and codecs: "codecs_ok env"
  shows "(\<exists>err. recover env ops e = (e, Inl (JStorage err))) \<and> \<not> store_fits (content e)
    \<or> recover env ops e = (e, recovery_answer env [] e)"
proof -
  have none: "deletions_of env (of_nat (length J)) (content e) = {}" by (rule represents_no_deletions [OF rep codecs])
  show ?thesis
    using recover_cases [OF e represents_interrupted [OF rep] codecs] by (auto simp: none remove_tail_def)
qed

end

section \<open>Verification\<close>

lemma listing_card:
  assumes "listing m p es"
  shows "length es = card {k. \<exists>v. m k = Some v \<and> starts_with k p}"
proof -
  have "distinct (map entry_key es)" using assms by (simp add: listing_def strict_sorted_iff)
  then have "length es = card (set (map entry_key es))" by (metis distinct_card length_map)
  moreover have "set (map entry_key es) = {k. \<exists>v. m k = Some v \<and> starts_with k p}"
    using assms by (auto simp: listing_entry [OF assms]) (metis entry.sel image_eqI listing_entry)
  ultimately show ?thesis by simp
qed

lemma wf_journal_keys_distinct: "wf_journal env J \<Longrightarrow> distinct (map op_key J)"
  by (induction J rule: rev_induct) (auto simp: wf_journal_snoc op_ok_def)

lemma idempotency_count:
  assumes rep: "represents env J c" and "listing (c ks_idempotency) IDEMPOTENCY_PREFIX es"
  shows "length es = length J"
proof -
  have "{k. \<exists>v. c ks_idempotency k = Some v \<and> starts_with k IDEMPOTENCY_PREFIX} = idempotency_key ` set (map op_key J)"
  proof (intro equalityI subsetI)
    fix k assume "k \<in> {k. \<exists>v. c ks_idempotency k = Some v \<and> starts_with k IDEMPOTENCY_PREFIX}"
    then obtain i where "i < length J" "k = idempotency_key (op_key (J ! i))"
      using represents_lookup [OF rep] by (auto simp: record_idempotency key_record_def)
    then show "k \<in> idempotency_key ` set (map op_key J)" by simp
  next
    fix k assume "k \<in> idempotency_key ` set (map op_key J)"
    then show "k \<in> {k. \<exists>v. c ks_idempotency k = Some v \<and> starts_with k IDEMPOTENCY_PREFIX}"
      using idempotency_present [OF rep] by auto
  qed
  moreover have "card (idempotency_key ` set (map op_key J)) = length J"
    using wf_journal_keys_distinct [OF represents_wf [OF rep]]
    by (metis card_image distinct_card idempotency_key_inj inj_onI length_map)
  ultimately show ?thesis using listing_card [OF assms(2)] by simp
qed

definition outbox_total :: "('o, 'm, 'x, 'w) journal_env \<Rightarrow> ('o, 'm, 'x) journal_op list \<Rightarrow> nat" where
  "outbox_total env J = (\<Sum>i < length J. length (op_work env (J ! i)))"

lemma outbox_count:
  assumes rep: "represents env J c" and "listing (c ks_outbox) OUTBOX_PREFIX es"
  shows "length es = outbox_total env J"
proof -
  let ?I = "SIGMA i:{..<length J}. {..<length (op_work env (J ! i))}"
  let ?key = "\<lambda>(i, j). outbox_key (seq i) (of_nat j)"
  note wf = represents_wf [OF rep]
  have "{k. \<exists>v. c ks_outbox k = Some v \<and> starts_with k OUTBOX_PREFIX} = ?key ` ?I"
  proof (intro equalityI subsetI)
    fix k assume "k \<in> {k. \<exists>v. c ks_outbox k = Some v \<and> starts_with k OUTBOX_PREFIX}"
    then obtain i j where "i < length J" "j < length (op_work env (J ! i))" "k = outbox_key (seq i) (of_nat j)"
      using represents_lookup [OF rep] by (auto simp: record_outbox outbox_record_iff)
    then show "k \<in> ?key ` ?I" by force
  next
    fix k assume "k \<in> ?key ` ?I"
    then obtain i j where i: "i < length J" and j: "j < length (op_work env (J ! i))" "k = outbox_key (seq i) (of_nat j)"
      by auto
    then have "\<exists>r. (ks_outbox, k, r) \<in> set (op_records env (seq i) (J ! i))"
      unfolding record_outbox outbox_record_iff by blast
    then have "\<exists>v. c ks_outbox k = Some v" using represents_place [OF rep i] by blast
    then show "k \<in> {k. \<exists>v. c ks_outbox k = Some v \<and> starts_with k OUTBOX_PREFIX}" by (simp add: j(2))
  qed
  moreover have "inj_on ?key ?I"
  proof (rule inj_onI, clarify)
    fix i j i' j'
    assume "i < length J" "j < length (op_work env (J ! i))" "i' < length J" "j' < length (op_work env (J ! i'))"
      and eq: "outbox_key (seq i) (of_nat j) = outbox_key (seq i') (of_nat j')"
    moreover from this have "i = i'" using wf_journal_seq_inj [OF wf] by simp
    moreover have "length (op_work env (J ! i)) < 2 ^ 32" using wf_journal_work [OF wf] calculation by blast
    ultimately show "i = i' \<and> j = j'" using of_nat_word_eq_iff [of j j', where 'a = 32] by simp
  qed
  then have "card (?key ` ?I) = outbox_total env J" by (simp add: card_image outbox_total_def)
  ultimately show ?thesis using listing_card [OF assms(2)] by simp
qed

lemma expected_outbox_sum:
  "unat count + sum_list (map event_outbox_len events) < 2 ^ 64 \<Longrightarrow>
   expected_outbox events count = Inr (of_nat (unat count + sum_list (map event_outbox_len events)))"
proof (induction events arbitrary: count)
  case (Cons event events)
  let ?n = "event_outbox_len event"
  have n: "?n < 2 ^ 64" "unat count + ?n < 2 ^ 64" using Cons.prems by simp_all
  have u: "unat (of_nat ?n :: u64) = ?n" using n(1) by (simp add: unat_of_nat)
  then have add: "checked_add_word count (of_nat ?n) = Some (count + of_nat ?n)" using n(2) by (simp add: checked_add_word_def)
  have "unat (count + of_nat ?n) = unat count + ?n" using unat_checked_add [OF add] u by simp
  then show ?case using Cons.IH [of "count + of_nat ?n"] Cons.prems n(1) by (simp add: add add.assoc)
qed simp

lemma op_event_outbox: "event_outbox_len (op_event env n x) = length (op_work env x)"
  by (cases x) simp_all

lemma journal_events_outbox: "sum_list (map event_outbox_len (journal_events env J)) = outbox_total env J"
  by (simp add: journal_events_def outbox_total_def op_event_outbox comp_def sum_list_distinct_conv_sum_set atLeast0LessThan)

lemma verify_idempotency_represents:
  assumes rep: "represents env J c" and codecs: "codecs_ok env"
    and "listing (c ks_idempotency) IDEMPOTENCY_PREFIX es"
  shows "rall (verify_idempotency_entry env (of_nat (length J))) es = Inr ()"
  unfolding rall_Inr_iff
proof
  fix e assume "e \<in> set es"
  then have "c ks_idempotency (entry_key e) = Some (entry_value e)" using listing_entry [OF assms(3)] by simp
  then obtain i where i: "i < length J" and k: "entry_key e = idempotency_key (op_key (J ! i))"
    and b: "encode env (idempotency_codec env) KSnapshot (seq i) \<lparr>ip_key_digest = op_key (J ! i),
        ip_request_digest = op_digest (J ! i), ip_receipt = op_receipt env (seq i) (J ! i)\<rparr> = Inr (entry_value e)"
    using represents_lookup [OF rep] by (auto simp: record_idempotency key_record_def)
  have "length J < 2 ^ 64" using represents_wf [OF rep] by (simp add: wf_journal_def)
  then have "\<not> seq i > of_nat (length J)" using seq_le_length [OF i] by (simp add: not_less)
  then show "verify_idempotency_entry env (of_nat (length J)) e = Inr ()"
    using decode_any_encode(1) [OF codecs_ok_simps(7) [OF codecs] b] by (simp add: verify_idempotency_entry_def k)
qed

lemma verify_outbox_represents:
  assumes rep: "represents env J c" and codecs: "codecs_ok env" and "listing (c ks_outbox) OUTBOX_PREFIX es"
  shows "rall (verify_outbox_entry env) es = Inr ()"
  unfolding rall_Inr_iff
proof
  fix e assume "e \<in> set es"
  then have "c ks_outbox (entry_key e) = Some (entry_value e)" using listing_entry [OF assms(3)] by simp
  then obtain i j where "entry_key e = outbox_key (seq i) (of_nat j)"
    and b: "encode env (outbox_codec env) KOutbox (seq i) \<lparr>ob_mutation_id = op_target env (J ! i), ob_index = of_nat j,
        ob_work = op_work env (J ! i) ! j\<rparr> = Inr (entry_value e)"
    using represents_lookup [OF rep] by (auto simp: record_outbox outbox_record_iff)
  then show "verify_outbox_entry env e = Inr ()"
    using decode_any_encode(2) [OF codecs_ok_simps(6) [OF codecs] b] by (simp add: verify_outbox_entry_def)
qed

context read_snapshot
begin

lemma scan_fitting:
  assumes "valid s" and "store_fits (view s)" and "ks \<in> journal_keyspaces"
  obtains es where "snap_scan_prefix ops s ks p = Inr es" and "listing (view s ks) p es" and "scan_fits es"
proof -
  obtain es where es: "listing (view s ks) p es" "scan_fits es" using assms(2,3) by (auto simp: store_fits_def)
  then show ?thesis using that scan_complete [OF assms(1) es] by blast
qed

end

lemma LEGACY_SCAN_MAX_ENTRIES_less: "LEGACY_SCAN_MAX_ENTRIES < 2 ^ 64"
  by (simp add: LEGACY_SCAN_MAX_ENTRIES_def)

lemma u64_len_small: "n < 2 ^ 64 \<Longrightarrow> u64_len n = of_nat n"
  by (simp add: u64_len_def)

context storage_engine
begin

lemma verify_represents:
  assumes e: "evalid e" and rep: "represents env J (content e)" and codecs: "codecs_ok env"
    and fits: "store_fits (content e)" and physical: "eng_verify ops mode e = Inr physical"
  shows "verify_journal env ops mode e =
    Inr \<lparr>jv_mode = mode, jv_commit_seq = of_nat (length J), jv_storage_sequence = report_sequence physical,
         jv_events = of_nat (length J), jv_outbox = of_nat (outbox_total env J), jv_idempotency = of_nat (length J),
         jv_warnings = report_warnings physical\<rparr>"
proof -
  obtain s where s: "eng_begin_read ops Latest e = Inr s" "svalid s" "sview s = content e"
    using begin_read_latest [OF e] by blast
  obtain p where snap: "snapshot env ops JLatest e =
      Inr \<lparr>js_commit_seq = of_nat (length J), js_storage_sequence = p, js_events = journal_events env J\<rparr>"
    using snapshot_complete [OF e rep codecs fits, of JLatest] by auto
  have fits': "store_fits (sview s)" using fits s(3) by simp
  obtain ids where ids: "snap_scan_prefix (eng_snapshot ops) s ks_idempotency IDEMPOTENCY_PREFIX = Inr ids"
    "listing (content e ks_idempotency) IDEMPOTENCY_PREFIX ids"
    using snap.scan_fitting [OF s(2) fits', of ks_idempotency IDEMPOTENCY_PREFIX] s(3) by auto
  obtain out where out: "snap_scan_prefix (eng_snapshot ops) s ks_outbox OUTBOX_PREFIX = Inr out"
    "listing (content e ks_outbox) OUTBOX_PREFIX out" "scan_fits out"
    using snap.scan_fitting [OF s(2) fits', of ks_outbox OUTBOX_PREFIX] s(3) by auto
  have len: "length J < 2 ^ 64" using represents_wf [OF rep] by (simp add: wf_journal_def)
  have out_len: "length out = outbox_total env J" by (rule outbox_count [OF rep out(2)])
  then have total: "outbox_total env J < 2 ^ 64"
    using out(3) LEGACY_SCAN_MAX_ENTRIES_less by (simp add: scan_fits_def)
  have "expected_outbox (journal_events env J) 0 = Inr (of_nat (outbox_total env J))"
    using expected_outbox_sum [of 0 "journal_events env J"] total by (simp add: journal_events_outbox)
  then show ?thesis
    using verify_idempotency_represents [OF rep codecs ids(2)] verify_outbox_represents [OF rep codecs out(2)]
      idempotency_count [OF rep ids(2)]
    by (simp add: verify_journal_def physical snap s(1) ids(1) out(1) out_len u64_len_small [OF total] u64_len_small [OF len])
qed

end

end
