(* ===== verification/Journal_Backup.thy ===== *)
theory Journal_Backup
  imports Journal_Recovery
begin

text \<open>
  Portable backups: a backup of a represented journal restores into an empty store, and the restored
  store holds exactly the records of the original.
\<close>

section \<open>Creating a backup\<close>

text \<open>\<open>L\<close> lists the six journal keyspaces of a store.\<close>

definition lists_store :: "(keyspace \<Rightarrow> entry list) \<Rightarrow> store \<Rightarrow> bool" where
  "lists_store L c \<longleftrightarrow> (\<forall>ks \<in> journal_keyspaces. listing (c ks) [] (L ks) \<and> scan_fits (L ks))"

lemma store_fits_lists:
  assumes "store_fits c"
  shows "\<exists>L. lists_store L c"
proof -
  have "\<forall>ks \<in> journal_keyspaces. \<exists>es. listing (c ks) [] es \<and> scan_fits es" using assms by (simp add: store_fits_def)
  from bchoice [OF this] show ?thesis by (simp add: lists_store_def)
qed

lemma lists_store_cong:
  assumes "lists_store L c" and "\<forall>ks \<in> journal_keyspaces. c' ks = c ks"
  shows "lists_store L c'"
  using assms by (simp add: lists_store_def)

lemma store_fits_cong:
  assumes "store_fits c" and "\<forall>ks \<in> journal_keyspaces. c' ks = c ks"
  shows "store_fits c'"
  using assms by (simp add: store_fits_def)

definition sections_of :: "(keyspace \<Rightarrow> entry list) \<Rightarrow> (string \<times> keyspace) list \<Rightarrow> backup_section list" where
  "sections_of L = map (\<lambda>(name, ks). \<lparr>bs_name = name, bs_entries = L ks\<rparr>)"

definition records_of :: "(keyspace \<Rightarrow> entry list) \<Rightarrow> (string \<times> keyspace) list \<Rightarrow> nat" where
  "records_of L pks = (\<Sum>(name, ks) \<leftarrow> pks. length (L ks))"

definition payload_of :: "nat \<Rightarrow> (keyspace \<Rightarrow> entry list) \<Rightarrow> backup_payload" where
  "payload_of n L = \<lparr>bp_schema = BACKUP_SCHEMA_VERSION, bp_commit_seq = of_nat n,
     bp_records = of_nat (records_of L portable_keyspaces), bp_sections = sections_of L portable_keyspaces\<rparr>"

definition container_of :: "('o, 'm, 'x, 'w) journal_env \<Rightarrow> nat \<Rightarrow> (keyspace \<Rightarrow> entry list) \<Rightarrow> bytes \<Rightarrow> portable_backup" where
  "container_of env n L payload = \<lparr>pb_schema = BACKUP_SCHEMA_VERSION, pb_commit_seq = of_nat n,
     pb_records = of_nat (records_of L portable_keyspaces), pb_digest = blake3 env payload, pb_payload = payload\<rparr>"

lemma portable_keyspaces_journal: "(name, ks) \<in> set portable_keyspaces \<Longrightarrow> ks \<in> journal_keyspaces"
  by (auto simp: portable_keyspaces_def)

lemma records_of_Cons [simp]: "records_of L ((name, ks) # pks) = length (L ks) + records_of L pks"
  by (simp add: records_of_def)

lemma records_of_Nil [simp]: "records_of L [] = 0"
  by (simp add: records_of_def)

lemma records_of_bound:
  assumes "lists_store L c"
  shows "records_of L portable_keyspaces < 2 ^ 64"
proof -
  have "length (L ks) \<le> LEGACY_SCAN_MAX_ENTRIES" if "ks \<in> journal_keyspaces" for ks
    using assms that by (auto simp: lists_store_def scan_fits_def)
  then have "length (L ks_meta) \<le> LEGACY_SCAN_MAX_ENTRIES" "length (L ks_events) \<le> LEGACY_SCAN_MAX_ENTRIES"
    "length (L ks_outbox) \<le> LEGACY_SCAN_MAX_ENTRIES" "length (L ks_idempotency) \<le> LEGACY_SCAN_MAX_ENTRIES"
    "length (L ks_observations) \<le> LEGACY_SCAN_MAX_ENTRIES" "length (L ks_mutations) \<le> LEGACY_SCAN_MAX_ENTRIES"
    by simp_all
  then show ?thesis by (simp add: portable_keyspaces_def LEGACY_SCAN_MAX_ENTRIES_def)
qed

lemma count_records_add:
  assumes "unat records + n < 2 ^ 64"
  shows "count_records n records = Inr (records + of_nat n)" and "unat (records + of_nat n) = unat records + n"
proof -
  have u: "unat (of_nat n :: u64) = n" using assms by (simp add: unat_of_nat)
  then have add: "checked_add_word records (of_nat n) = Some (records + of_nat n)"
    using assms by (simp add: checked_add_word_def)
  then show "count_records n records = Inr (records + of_nat n)" using assms by (simp add: count_records_def)
  show "unat (records + of_nat n) = unat records + n" using unat_checked_add [OF add] u by simp
qed

context read_snapshot
begin

lemma backup_sections_lists:
  assumes "valid s" and "lists_store L (view s)" and "\<forall>(name, ks) \<in> set pks. ks \<in> journal_keyspaces"
    and "unat records + records_of L pks < 2 ^ 64"
  shows "backup_sections ops s pks records = Inr (sections_of L pks, records + of_nat (records_of L pks))"
  using assms(3,4)
proof (induction pks arbitrary: records)
  case (Cons q pks)
  obtain name ks where q: "q = (name, ks)" by (cases q)
  have "snap_scan_prefix ops s ks [] = Inr (L ks)"
    using scan_complete [OF assms(1)] assms(2) Cons.prems(1) by (simp add: lists_store_def q)
  moreover have bound: "unat records + length (L ks) < 2 ^ 64" using Cons.prems(2) by (simp add: q)
  moreover have "backup_sections ops s pks (records + of_nat (length (L ks))) =
      Inr (sections_of L pks, records + of_nat (length (L ks)) + of_nat (records_of L pks))"
    using Cons.IH [of "records + of_nat (length (L ks))"] Cons.prems count_records_add(2) [OF bound] by (simp add: q)
  ultimately show ?case by (simp add: q count_records_add(1) sections_of_def add.assoc)
qed (simp add: sections_of_def)

end

context storage_engine
begin

lemma create_backup_represents:
  assumes e: "evalid e" and rep: "represents env J (content e)" and codecs: "codecs_ok env"
    and fits: "store_fits (content e)" and lists: "lists_store L (content e)"
    and physical: "\<exists>p. eng_verify ops Deep e = Inr p"
  shows "create_backup env ops e =
    (case to_vec (backup_codec env) (payload_of (length J) L) of
       None \<Rightarrow> Inl JSerialization | Some payload \<Rightarrow> Inr (container_of env (length J) L payload))"
proof -
  obtain s where s: "eng_begin_read ops Latest e = Inr s" "svalid s" "sview s = content e"
    using begin_read_latest [OF e] by blast
  obtain p where p: "eng_verify ops Deep e = Inr p" using physical by blast
  have "backup_sections (eng_snapshot ops) s portable_keyspaces 0 =
      Inr (sections_of L portable_keyspaces, of_nat (records_of L portable_keyspaces))"
    using snap.backup_sections_lists [OF s(2), of L portable_keyspaces 0] lists s(3) portable_keyspaces_journal
      records_of_bound [OF lists] by auto
  then show ?thesis
    by (simp add: create_backup_def verify_represents [OF e rep codecs fits p] s(1) payload_of_def container_of_def ok_or_def
        split: option.split)
qed

end

section \<open>Validating a backup\<close>

lemma keys_increase_iff: "keys_increase es \<longleftrightarrow> strictly_sorted (map entry_key es)"
proof (induction es rule: keys_increase.induct)
  case (1 a b es)
  then show ?case by (auto intro: order_less_trans)
qed simp_all

lemma represented_key_nonempty:
  assumes "represents env J c" and "codecs_ok env" and "ks \<in> journal_keyspaces" and "c ks k = Some b"
  shows "k \<noteq> []"
proof (cases "ks = ks_meta")
  case True
  then have "journal_record env J (ks_meta, k, Inr b)" using assms by (auto simp: represents_def)
  then have "k = HEAD_KEY" using op_records_keyspace by (fastforce simp: journal_record_def head_record_def)
  then show ?thesis by (simp add: HEAD_KEY_def ascii_def)
next
  case False
  have "keyspace_prefix ks \<noteq> []"
    by (simp add: keyspace_prefix_def EVENT_PREFIX_def OUTBOX_PREFIX_def MUTATION_PREFIX_def OBSERVATION_PREFIX_def
        IDEMPOTENCY_PREFIX_def ascii_def)
  moreover have "starts_with k (keyspace_prefix ks)"
    by (rule represented_record [OF assms(1-3) False assms(4)])
  ultimately show ?thesis by (auto simp: starts_with_iff)
qed

lemma backup_entry_sequence_record:
  assumes "(name, ks) \<in> set portable_keyspaces"
    and "ks = ks_meta \<or> record_sequence env ks (entry_key e) (entry_value e) \<noteq> None"
  shows "backup_entry_sequence env name e = Inr (record_sequence env ks (entry_key e) (entry_value e))"
proof -
  have "name = ''journal_meta'' \<and> ks = ks_meta \<or> name = ''semantic_journal'' \<and> ks = ks_events
      \<or> name = ''journal_outbox'' \<and> ks = ks_outbox \<or> name = ''journal_idempotency'' \<and> ks = ks_idempotency
      \<or> name = ''journal_observation'' \<and> ks = ks_observations \<or> name = ''journal_mutation'' \<and> ks = ks_mutations"
    using assms(1) by (simp add: portable_keyspaces_def)
  then show ?thesis
    using assms(2)
    by (elim disjE conjE; cases "envelope_decode (blake3 env) (entry_value e)")
      (simp_all add: backup_entry_sequence_def record_sequence_def)
qed

lemma validate_entry_represents:
  assumes rep: "represents env J c" and codecs: "codecs_ok env" and pk: "(name, ks) \<in> set portable_keyspaces"
    and e: "c ks (entry_key e) = Some (entry_value e)"
  shows "validate_backup_entry env name (of_nat (length J)) e = Inr ()"
proof (cases "ks = ks_meta")
  case True
  then have "name = ''journal_meta''" using pk by (auto simp: portable_keyspaces_def)
  then show ?thesis by (simp add: validate_backup_entry_def backup_entry_sequence_def)
next
  case False
  obtain q where q: "record_sequence env ks (entry_key e) (entry_value e) = Some q" "q \<le> of_nat (length J)"
    using represented_record [OF rep codecs portable_keyspaces_journal [OF pk] False e] by blast
  then show ?thesis
    using backup_entry_sequence_record [OF pk, of env e] by (simp add: validate_backup_entry_def not_less)
qed

lemma validate_sections_represents:
  assumes rep: "represents env J c" and codecs: "codecs_ok env" and lists: "lists_store L c"
    and "set pks \<subseteq> set portable_keyspaces" and "unat records + records_of L pks < 2 ^ 64"
  shows "validate_sections env (of_nat (length J)) (sections_of L pks) records = Inr (records + of_nat (records_of L pks))"
  using assms(4,5)
proof (induction pks arbitrary: records)
  case (Cons q pks)
  obtain name ks where q: "q = (name, ks)" by (cases q)
  have pk: "(name, ks) \<in> set portable_keyspaces" using Cons.prems(1) by (simp add: q)
  note ks = portable_keyspaces_journal [OF pk]
  have list: "listing (c ks) [] (L ks)" using lists ks by (simp add: lists_store_def)
  then have sorted: "keys_increase (L ks)" by (simp add: keys_increase_iff listing_def)
  have nonempty: "\<not> list_ex (\<lambda>e. entry_key e = []) (L ks)"
    using represented_key_nonempty [OF rep codecs ks] listing_entry [OF list] by (auto simp: list_ex_iff)
  have valid: "rall (validate_backup_entry env name (of_nat (length J))) (L ks) = Inr ()"
    using validate_entry_represents [OF rep codecs pk] listing_entry [OF list] by simp
  have bound: "unat records + length (L ks) < 2 ^ 64" using Cons.prems(2) by (simp add: q)
  have "validate_sections env (of_nat (length J)) (sections_of L pks) (records + of_nat (length (L ks))) =
      Inr (records + of_nat (length (L ks)) + of_nat (records_of L pks))"
    using Cons.IH [of "records + of_nat (length (L ks))"] Cons.prems count_records_add(2) [OF bound] by (simp add: q)
  then show ?case
    using sorted nonempty valid count_records_add(1) [OF bound] by (simp add: q sections_of_def add.assoc)
qed (simp add: sections_of_def)

lemma validate_backup_represents:
  assumes rep: "represents env J c" and codecs: "codecs_ok env" and lists: "lists_store L c"
  shows "validate_backup_payload env (payload_of (length J) L) (container_of env (length J) L payload) = Inr ()"
proof -
  have "map bs_name (sections_of L portable_keyspaces) = map fst portable_keyspaces"
    by (simp add: sections_of_def portable_keyspaces_def)
  then show ?thesis
    using validate_sections_represents [OF rep codecs lists, of portable_keyspaces 0] records_of_bound [OF lists]
    by (simp add: validate_backup_payload_def payload_of_def container_of_def)
qed

section \<open>Restoring\<close>

definition empty_store :: "store \<Rightarrow> bool" where
  "empty_store c \<longleftrightarrow> (\<forall>ks \<in> journal_keyspaces. c ks = Map.empty)"

lemma listing_empty: "listing Map.empty p []"
  by (simp add: listing_def)

lemma scan_fits_Nil [simp]: "scan_fits []"
  by (simp add: scan_fits_def)

lemma empty_store_fits: "empty_store c \<Longrightarrow> store_fits c"
  unfolding store_fits_def empty_store_def by (metis listing_empty scan_fits_Nil)

lemma empty_store_represents: "empty_store c \<Longrightarrow> represents env [] c"
  by (simp add: empty_store_def represents_def journal_record_def)

definition entry_puts :: "keyspace \<Rightarrow> entry list \<Rightarrow> record_put list" where
  "entry_puts ks = map (\<lambda>e. (ks, entry_key e, Inr (entry_value e)))"

definition install_puts :: "(keyspace \<Rightarrow> entry list) \<Rightarrow> (string \<times> keyspace) list \<Rightarrow> record_put list" where
  "install_puts L pks = concat (map (\<lambda>(name, ks). entry_puts ks (L ks)) pks)"

lemma put_entries_records: "put_entries ops ks es t = put_records ops (entry_puts ks es) t"
proof (induction es arbitrary: t)
  case (Cons e es)
  then have "put_entries ops ks es = put_records ops (entry_puts ks es)" by blast
  then show ?case by (simp add: entry_puts_def)
qed (simp add: entry_puts_def)

lemma portable_keyspace_simp: "(name, ks) \<in> set portable_keyspaces \<Longrightarrow> portable_keyspace name = Some ks"
  unfolding portable_keyspace_def by (rule map_of_is_SomeI) (simp_all add: portable_keyspaces_def)

lemma install_sections_records:
  "set pks \<subseteq> set portable_keyspaces \<Longrightarrow> install_sections ops (sections_of L pks) t = put_records ops (install_puts L pks) t"
proof (induction pks arbitrary: t)
  case (Cons q pks)
  obtain name ks where q: "q = (name, ks)" by (cases q)
  have "install_sections ops (sections_of L pks) = put_records ops (install_puts L pks)" using Cons by (intro ext) simp
  then show ?case
    using Cons.prems portable_keyspace_simp [of name ks]
    by (simp add: q sections_of_def install_puts_def put_entries_records put_records_append)
qed (simp add: sections_of_def install_puts_def)

lemma install_puts_iff:
  "(ks, k, r) \<in> set (install_puts L portable_keyspaces) \<longleftrightarrow>
     ks \<in> journal_keyspaces \<and> (\<exists>b. Entry k b \<in> set (L ks) \<and> r = Inr b)"
proof -
  have "(ks, k, r) \<in> set (entry_puts ks' es) \<longleftrightarrow> ks = ks' \<and> (\<exists>b. Entry k b \<in> set es \<and> r = Inr b)" for ks' es
    unfolding entry_puts_def by (force simp: image_iff)
  then show ?thesis by (auto simp: install_puts_def portable_keyspaces_def journal_keyspaces_def)
qed

lemma entry_puts_places: "map put_place (entry_puts ks es) = map (Pair ks) (map entry_key es)"
  by (simp add: entry_puts_def)

lemma install_puts_places: "fst ` set (map put_place (install_puts L pks)) \<subseteq> snd ` set pks"
  by (force simp: install_puts_def entry_puts_def)

lemma install_puts_distinct_list:
  assumes "\<forall>ks \<in> snd ` set pks. distinct (map entry_key (L ks))" and "distinct (map snd pks)"
  shows "distinct (map put_place (install_puts L pks))"
  using assms
proof (induction pks)
  case (Cons q pks)
  obtain name ks where q: "q = (name, ks)" by (cases q)
  have "map put_place (install_puts L (q # pks)) =
      map (Pair ks) (map entry_key (L ks)) @ map put_place (install_puts L pks)"
    unfolding q install_puts_def by (simp only: list.map concat.simps map_append prod.case entry_puts_places)
  moreover have "distinct (map entry_key (L ks))" using Cons.prems(1) by (simp add: q)
  then have "distinct (map (Pair ks) (map entry_key (L ks)))" by (rule distinct_map [THEN iffD2, OF conjI]) (simp add: inj_on_def)
  moreover have "distinct (map put_place (install_puts L pks))" using Cons by simp
  moreover have "set (map (Pair ks) (map entry_key (L ks))) \<inter> set (map put_place (install_puts L pks)) = {}"
  proof -
    have "ks \<notin> snd ` set pks" using Cons.prems(2) by (simp add: q)
    then have "ks \<notin> fst ` set (map put_place (install_puts L pks))" using install_puts_places by blast
    moreover have "fst x = ks" if "x \<in> set (map (Pair ks) (map entry_key (L ks)))" for x using that by auto
    ultimately show ?thesis by blast
  qed
  ultimately show ?case by (simp only: distinct_append)
qed (simp add: install_puts_def)

lemma install_puts_distinct:
  assumes "lists_store L c"
  shows "distinct (map put_place (install_puts L portable_keyspaces))"
proof (rule install_puts_distinct_list)
  show "\<forall>ks \<in> snd ` set portable_keyspaces. distinct (map entry_key (L ks))"
    using assms portable_keyspaces_journal by (auto simp: lists_store_def listing_def strict_sorted_iff)
  show "distinct (map snd portable_keyspaces)" by (simp add: portable_keyspaces_def)
qed

context read_snapshot
begin

lemma target_empty:
  assumes "valid s" and "empty_store (view s)"
  shows "target_is_empty ops s = Inr ()"
proof -
  have "snap_scan_prefix ops s ks [] = Inr []" if "ks \<in> journal_keyspaces" for ks
    using scan_complete [OF assms(1), of ks "[]" "[]"] assms(2) that by (simp add: empty_store_def listing_empty)
  then show ?thesis using portable_keyspaces_journal by (auto simp: target_is_empty_def)
qed

lemma target_not_empty:
  assumes "valid s" and "ks \<in> journal_keyspaces" and "view s ks k = Some b"
  shows "\<exists>err. target_is_empty ops s = Inl err"
proof -
  have "snd ` set portable_keyspaces = journal_keyspaces" by (simp add: journal_keyspaces_def portable_keyspaces_def)
  then obtain name where name: "(name, ks) \<in> set portable_keyspaces" using assms(2) by force
  have "es \<noteq> []" if "snap_scan_prefix ops s ks [] = Inr es" for es
    using scan_sound [OF assms(1) that] assms(3) by (auto simp: listing_def)
  then have "target_is_empty ops s \<noteq> Inr ()"
    using name unfolding target_is_empty_def rall_Inr_iff by (fastforce split: if_splits)
  then show ?thesis by (cases "target_is_empty ops s") simp_all
qed

end

context storage_engine
begin

lemma recover_fitting:
  assumes e: "evalid e" and rep: "represents env J (content e)" and codecs: "codecs_ok env" and fits: "store_fits (content e)"
  obtains report where "recover env ops e = (e, Inr report)" "rr_removed report = 0" "rr_commit_seq report = of_nat (length J)"
proof -
  have "recover env ops e = (e, recovery_answer env [] e)" using recover_represented [OF e rep codecs] fits by blast
  moreover obtain report where "recovery_answer env [] e = Inr report"
    using recovery_answer_complete [OF e rep codecs fits] by blast
  ultimately show ?thesis using that recovery_answer_sound [OF e rep codecs] by (simp add: u64_len_def)
qed

lemma stage_restore_empty:
  assumes e: "evalid e" and target: "empty_store (content e)" and codecs: "codecs_ok env"
    and rep: "represents env J c" and lists: "lists_store L c"
    and payload: "to_vec (backup_codec env) (payload_of (length J) L) = Some payload"
  obtains t where "stage_restore env ops (container_of env (length J) L payload) e = Inr (t, of_nat (length J))"
    "tvalid t" "based t e" "\<forall>ks \<in> journal_keyspaces. tview t ks = c ks"
proof -
  obtain s where s: "eng_begin_read ops Latest e = Inr s" "svalid s" "sview s = content e"
    using begin_read_latest [OF e] by blast
  obtain t0 where t0: "eng_begin_write ops e = Inr t0" "tvalid t0" "tview t0 = content e" "based t0 e"
    using begin_write_latest [OF e] by blast
  let ?rs = "install_puts L portable_keyspaces"
  have "\<forall>(ks, k, r) \<in> set ?rs. \<exists>b. r = Inr b" using install_puts_iff by fastforce
  then obtain t where t: "put_records ops ?rs t0 = Inr t" using put_records_exists [OF t0(2)] by blast
  note view = put_records_stages [OF t0(2) t]
  have slice: "from_slice (backup_codec env) payload = Some (payload_of (length J) L)"
    using codecs_ok_simps(8) [OF codecs] payload by (simp add: codec_ok_def)
  have empty: "target_is_empty (eng_snapshot ops) s = Inr ()" using snap.target_empty [OF s(2)] target s(3) by simp
  have fields: "pb_schema (container_of env (length J) L payload) = BACKUP_SCHEMA_VERSION"
    "pb_digest (container_of env (length J) L payload) = blake3 env payload"
    "pb_payload (container_of env (length J) L payload) = payload"
    "bp_sections (payload_of (length J) L) = sections_of L portable_keyspaces"
    "bp_commit_seq (payload_of (length J) L) = of_nat (length J)"
    by (simp_all add: container_of_def payload_of_def)
  have "stage_restore env ops (container_of env (length J) L payload) e = Inr (t, of_nat (length J))"
    by (simp add: stage_restore_def fields slice validate_backup_represents [OF rep codecs lists] s(1) empty t0(1)
        install_sections_records t)
  moreover have "tview t ks k = c ks k" if ks: "ks \<in> journal_keyspaces" for ks k
  proof -
    have "tview t ks k = Some b \<longleftrightarrow> c ks k = Some b" for b
      using staged_get [OF _ install_puts_distinct [OF lists], of "tview t0" "tview t" ks k b] view ks target t0(3) lists
      by (simp add: install_puts_iff empty_store_def lists_store_def listing_def)
    then show ?thesis by (metis not_None_eq)
  qed
  ultimately show ?thesis using that view t0(4) by blast
qed

lemma backup_restores:
  assumes e: "evalid e" and rep: "represents env J (content e)" and codecs: "codecs_ok env" and fits: "store_fits (content e)"
    and physical: "\<And>e. evalid e \<Longrightarrow> \<exists>p. eng_verify ops Deep e = Inr p"
    and backup: "create_backup env ops e = Inr backup"
    and e2: "evalid e2" and av: "available e2" and target: "empty_store (content e2)"
  shows "\<exists>e3 report. restore_backup env ops backup e2 = (e3, Inr report) \<and> evalid e3
    \<and> (\<forall>ks \<in> journal_keyspaces. content e3 ks = content e ks)
    \<and> rs_commit_seq report = of_nat (length J) \<and> rs_digest report = pb_digest backup"
proof -
  obtain L where lists: "lists_store L (content e)" using store_fits_lists [OF fits] by blast
  obtain payload where payload: "to_vec (backup_codec env) (payload_of (length J) L) = Some payload"
    and container: "backup = container_of env (length J) L payload"
    using create_backup_represents [OF e rep codecs fits lists physical [OF e]] backup by (auto split: option.splits)
  obtain r2 where open2: "recover env ops e2 = (e2, Inr r2)"
    using recover_fitting [OF e2 empty_store_represents [OF target] codecs empty_store_fits [OF target]] by blast
  obtain t where t: "stage_restore env ops backup e2 = Inr (t, of_nat (length J))" "tvalid t" "based t e2"
    "\<forall>ks \<in> journal_keyspaces. tview t ks = content e ks"
    using stage_restore_empty [OF e2 target codecs rep lists payload] container by blast
  obtain e3 c where commit: "tx_commit (eng_transaction ops) Sync t e2 = (e3, Inr c)" "receipt_durability c = Sync"
    using commit_available [OF e2 t(2,3) av] by blast
  have e3: "evalid e3" and "content e3 = tview t" using commit_atomic [OF e2 t(2,3) commit(1)] by blast+
  then have same: "\<forall>ks \<in> journal_keyspaces. content e3 ks = content e ks" using t(4) by simp
  note rep3 = represents_cong [OF rep same] and fits3 = store_fits_cong [OF fits same] and lists3 = lists_store_cong [OF lists same]
  obtain r3 where r3: "recover env ops e3 = (e3, Inr r3)" "rr_removed r3 = 0" "rr_commit_seq r3 = of_nat (length J)"
    using recover_fitting [OF e3 rep3 codecs fits3] by blast
  obtain p3 where p3: "eng_verify ops Deep e3 = Inr p3" using physical [OF e3] by blast
  have again: "create_backup env ops e3 = Inr backup"
    using create_backup_represents [OF e3 rep3 codecs fits3 lists3 physical [OF e3]] payload container by simp
  have "pb_commit_seq backup = of_nat (length J)" by (simp add: container container_of_def)
  then have "check_restored env ops backup (of_nat (length J)) (receipt_sequence c) e3 =
      (e3, Inr \<lparr>rs_commit_seq = of_nat (length J), rs_records = pb_records backup, rs_digest = pb_digest backup,
        rs_storage_sequence = receipt_sequence c\<rparr>)"
    using verify_represents [OF e3 rep3 codecs fits3 p3] by (simp add: check_restored_def r3 again)
  then have "restore_backup env ops backup e2 =
      (e3, Inr \<lparr>rs_commit_seq = of_nat (length J), rs_records = pb_records backup, rs_digest = pb_digest backup,
        rs_storage_sequence = receipt_sequence c\<rparr>)"
    by (simp add: restore_backup_def coordinator_new_def open2 t(1) commit ensure_durability_def)
  then show ?thesis using e3 same by simp
qed

text \<open>A target that already holds a journal is left alone.\<close>

lemma restore_occupied:
  assumes e: "evalid e" and rep: "represents env J (content e)" and codecs: "codecs_ok env" and "J \<noteq> []"
  shows "\<exists>err. restore_backup env ops backup e = (e, Inl err)"
proof -
  obtain r1 where r1: "recover env ops e = (e, r1)"
    using recover_represented [OF e rep codecs] by blast
  obtain s where s: "eng_begin_read ops Latest e = Inr s" "svalid s" "sview s = content e"
    using begin_read_latest [OF e] by blast
  obtain b where "content e ks_meta HEAD_KEY = Some b" using represents_head [OF rep assms(4)] by blast
  then obtain err where "target_is_empty (eng_snapshot ops) s = Inl err"
    using snap.target_not_empty [OF s(2), of ks_meta HEAD_KEY b] s(3) by auto
  then have "\<exists>err. stage_restore env ops backup e = Inl err"
    using s(1) by (cases "stage_restore env ops backup e") (auto simp: stage_restore_def split: if_splits)
  then show ?thesis using r1 by (cases r1) (auto simp: restore_backup_def coordinator_new_def)
qed

end

end
