(* ===== verification/Journal_Example.thy ===== *)
theory Journal_Example
  imports Journal_Backup
begin

text \<open>
  An example environment and a run of the coordinator in it: an observation, a semantic publication
  that refers to it, and a repetition of the observation. The codecs are finite tables; the hash is a
  toy. The run is derived from the lemmas about available engines, and its store is shown to be
  within the scan limits.
\<close>

section \<open>Environment\<close>

definition table_codec :: "('a \<times> bytes) list \<Rightarrow> 'a json_codec" where
  "table_codec t = \<lparr>to_vec = map_of t, from_slice = map_of (map (\<lambda>(x, b). (b, x)) t)\<rparr>"

lemma table_codec_ok:
  assumes "distinct (map snd t)"
  shows "codec_ok (table_codec t)"
proof -
  have "map_of (map (\<lambda>(x, b). (b, x)) t) b = Some x" if "map_of t x = Some b" for x b
  proof (rule map_of_is_SomeI)
    have "map fst (map (\<lambda>(x, b). (b, x)) t) = map snd t" by (induction t) auto
    then show "distinct (map fst (map (\<lambda>(x, b). (b, x)) t))" using assms by metis
    show "(b, x) \<in> set (map (\<lambda>(x, b). (b, x)) t)" using map_of_SomeD [OF that] by force
  qed
  then show ?thesis by (simp add: codec_ok_def table_codec_def)
qed

definition demo_hash :: "bytes \<Rightarrow> bytes" where
  "demo_hash bs = replicate 31 0 @ [of_nat (length bs) + sum_list bs]"

definition demo_obs_digest :: digest where
  "demo_obs_digest = demo_hash (ascii ''observation-accepted-v1'' @ [0] @ [1])"

definition demo_mut_digest :: digest where
  "demo_mut_digest = demo_hash (ascii ''semantic-publication-v1'' @ [0] @ [2])"

definition demo_key_a :: digest where "demo_key_a = demo_hash (ascii ''a'')"
definition demo_key_b :: digest where "demo_key_b = demo_hash (ascii ''b'')"

abbreviation demo_receipt_a :: stored_receipt where
  "demo_receipt_a \<equiv> StoredObservation \<lparr>or_observation_id = 7, or_commit_seq = 1, or_durability = Sync,
     or_replayed = False, or_request_digest = demo_obs_digest\<rparr>"

abbreviation demo_receipt_b :: stored_receipt where
  "demo_receipt_b \<equiv> StoredPublication \<lparr>pr_mutation_id = 9, pr_publication_id = 5, pr_commit_seq = 2,
     pr_durability = Sync, pr_outbox_count = 1, pr_replayed = False, pr_mutation_digest = demo_mut_digest\<rparr>"

text \<open>The frames of the observation, as the backup of the journal after it lists them.\<close>

definition demo_frame :: "record_kind \<Rightarrow> bytes" where
  "demo_frame kind = projr (envelope_encode demo_hash (record_kind_u16 kind) SCHEMA_VERSION 0 1 [1])"

definition demo_listing :: "keyspace \<Rightarrow> entry list" where
  "demo_listing ks =
     (if ks = ks_meta then [Entry HEAD_KEY (demo_frame KSnapshot)]
      else if ks = ks_events then [Entry (event_key 1) (demo_frame KObservation)]
      else if ks = ks_idempotency then [Entry (idempotency_key demo_key_a) (demo_frame KSnapshot)]
      else if ks = ks_observations then [Entry (observation_key 7) (demo_frame KSnapshot)]
      else [])"

definition demo_env :: "(nat, nat, nat, nat) journal_env" where
  "demo_env = \<lparr>blake3 = demo_hash,
     head_codec = table_codec [(HeadPayload 1, [1]), (HeadPayload 2, [2])],
     index_codec = table_codec [(\<lparr>ii_commit_seq = 1, ii_digest = demo_obs_digest\<rparr>, [1])],
     observation_codec = table_codec [(\<lparr>of_observation_id = 7, of_digest = demo_obs_digest, of_bytes = [1]\<rparr>, [1])],
     mutation_codec = table_codec [(\<lparr>mf_mutation_id = 9, mf_digest = demo_mut_digest, mf_bytes = [2]\<rparr>, [1])],
     publication_codec = table_codec
       [(\<lparr>pf_mutation_id = 9, pf_publication_id = 5, pf_digest = demo_mut_digest, pf_outbox_count = 1\<rparr>, [1])],
     outbox_codec = table_codec [(\<lparr>ob_mutation_id = 9, ob_index = 0, ob_work = 3\<rparr>, [1])],
     idempotency_codec = table_codec
       [(\<lparr>ip_key_digest = demo_key_a, ip_request_digest = demo_obs_digest, ip_receipt = demo_receipt_a\<rparr>, [1]),
        (\<lparr>ip_key_digest = demo_key_b, ip_request_digest = demo_mut_digest, ip_receipt = demo_receipt_b\<rparr>, [2])],
     backup_codec = table_codec [(payload_of 1 demo_listing, [1])],
     observations = \<lparr>obs_codec = table_codec [(7, [1])], obs_validate = \<lambda>_. Inr (), obs_id = of_nat\<rparr>,
     semantic = \<lparr>mut_codec = table_codec [(9, [2])], mut_validate = \<lambda>_. Inr (), mut_id = of_nat,
       mut_base = \<lambda>_. 1, mut_refs = \<lambda>_. [7], mut_appends_empty = \<lambda>_. True, mut_work = \<lambda>_. [3]\<rparr>,
     maintenance = \<lparr>mnt_codec = table_codec [], mnt_validate = \<lambda>_. Inr (), mnt_id = of_nat, mnt_base = \<lambda>_. 0,
       mnt_work = \<lambda>_. []\<rparr>\<rparr>"

lemma demo_codecs: "codecs_ok demo_env"
  unfolding codecs_ok_def demo_env_def journal_env.select_convs by (intro conjI table_codec_ok) simp_all

section \<open>Requests and operations\<close>

abbreviation demo_call_a :: journal_call where
  "demo_call_a \<equiv> AcceptObservation ''a'' [1] commit_options_default"

abbreviation demo_call_b :: journal_call where
  "demo_call_b \<equiv> PublishSemantic ''b'' [2] 5 commit_options_default"

definition demo_op_a :: "(nat, nat, nat) journal_op" where
  "demo_op_a = JObs demo_key_a Sync \<lparr>vo_bytes = [1], vo_observation = 7, vo_digest = demo_obs_digest\<rparr>"

definition demo_op_b :: "(nat, nat, nat) journal_op" where
  "demo_op_b = JSem demo_key_b Sync 5 \<lparr>vm_bytes = [2], vm_mutation = 9, vm_digest = demo_mut_digest\<rparr>"

lemma demo_keys_distinct: "demo_key_a \<noteq> demo_key_b"
  by (simp add: demo_key_a_def demo_key_b_def demo_hash_def ascii_def)

lemma demo_call_ops: "call_op demo_env demo_call_a = Inr demo_op_a" "call_op demo_env demo_call_b = Inr demo_op_b"
  by (simp_all add: idempotency_key_new_def is_blank_def ascii_white_def idempotency_digest_def observation_from_json_def
      mutation_from_json_def operation_digest_def commit_options_default_def demo_env_def demo_op_a_def demo_op_b_def
      demo_key_a_def demo_key_b_def demo_obs_digest_def demo_mut_digest_def table_codec_def)

lemma encode_exists:
  assumes "to_vec codec x = Some p" and "length p < 100"
  shows "\<exists>b. encode env codec kind n x = Inr b"
  using assms by (simp add: encode_def envelope_encode_def)

lemma encodable_iff: "encodable rs = Inr () \<longleftrightarrow> (\<forall>(ks, k, r) \<in> set rs. \<exists>b. r = Inr b)"
  by (auto simp: encodable_def)

lemma demo_seq: "seq 0 = 1" "seq (Suc 0) = 2"
  by (simp_all add: seq_def)

lemma demo_ids:
  "vo_id demo_env \<lparr>vo_bytes = [1], vo_observation = 7, vo_digest = demo_obs_digest\<rparr> = 7"
  "vm_id demo_env \<lparr>vm_bytes = [2], vm_mutation = 9, vm_digest = demo_mut_digest\<rparr> = 9"
  "mut_work (semantic demo_env) 9 = [3]" "mut_base (semantic demo_env) 9 = 1" "mut_refs (semantic demo_env) 9 = [7]"
  by (simp_all add: vo_id_def vm_id_def demo_env_def)

lemma demo_to_vec:
  "to_vec (head_codec demo_env) (HeadPayload 1) = Some [1]" "to_vec (head_codec demo_env) (HeadPayload 2) = Some [2]"
  "to_vec (index_codec demo_env) \<lparr>ii_commit_seq = 1, ii_digest = demo_obs_digest\<rparr> = Some [1]"
  "to_vec (observation_codec demo_env) \<lparr>of_observation_id = 7, of_digest = demo_obs_digest, of_bytes = [1]\<rparr> = Some [1]"
  "to_vec (mutation_codec demo_env) \<lparr>mf_mutation_id = 9, mf_digest = demo_mut_digest, mf_bytes = [2]\<rparr> = Some [1]"
  "to_vec (publication_codec demo_env)
     \<lparr>pf_mutation_id = 9, pf_publication_id = 5, pf_digest = demo_mut_digest, pf_outbox_count = 1\<rparr> = Some [1]"
  "to_vec (outbox_codec demo_env) \<lparr>ob_mutation_id = 9, ob_index = 0, ob_work = 3\<rparr> = Some [1]"
  "to_vec (idempotency_codec demo_env)
     \<lparr>ip_key_digest = demo_key_a, ip_request_digest = demo_obs_digest, ip_receipt = demo_receipt_a\<rparr> = Some [1]"
  "to_vec (idempotency_codec demo_env)
     \<lparr>ip_key_digest = demo_key_b, ip_request_digest = demo_mut_digest, ip_receipt = demo_receipt_b\<rparr> = Some [2]"
  by (simp_all add: demo_env_def table_codec_def)

lemmas demo_encode = demo_to_vec [THEN encode_exists, simplified]

lemma demo_receipts: "op_receipt demo_env 1 demo_op_a = demo_receipt_a" "op_receipt demo_env 2 demo_op_b = demo_receipt_b"
  by (simp_all add: demo_op_a_def demo_op_b_def demo_ids)

lemma demo_encodable:
  "encodable (op_records demo_env 1 demo_op_a @ [head_record demo_env 1]) = Inr ()"
  "encodable (op_records demo_env 2 demo_op_b @ [head_record demo_env 2]) = Inr ()"
  unfolding encodable_iff
  by (simp_all add: demo_op_a_def demo_op_b_def demo_ids key_record_def head_record_def outbox_records_def demo_encode)

lemma demo_admit: "admit demo_env [] demo_op_a = Inr ()" "admit demo_env [demo_op_a] demo_op_b = Inr ()"
  by (simp_all add: demo_op_a_def demo_op_b_def demo_ids)

lemma demo_op_keys: "op_key demo_op_a = demo_key_a" "op_key demo_op_b = demo_key_b"
  "op_durability demo_op_a = Sync" "op_durability demo_op_b = Sync"
  by (simp_all add: demo_op_a_def demo_op_b_def)

lemma demo_specs:
  "call_spec demo_env [] demo_call_a = ([demo_op_a], Inr demo_receipt_a)"
  "call_spec demo_env [demo_op_a] demo_call_b = ([demo_op_a, demo_op_b], Inr demo_receipt_b)"
  "call_spec demo_env [demo_op_a, demo_op_b] demo_call_a = ([demo_op_a, demo_op_b], Inr (replayed demo_receipt_a))"
  unfolding call_spec_def demo_call_ops
  using demo_keys_distinct demo_encodable demo_admit
  by (simp_all add: journal_spec_def demo_op_keys demo_seq demo_receipts journal_fail_if_def commit_options_default_def)

section \<open>Availability\<close>

text \<open>A commit operation commits at most one transaction.\<close>

lemma op_spec_commits:
  "\<exists>d t. fst (op_spec env ops J x options e) \<in> {e, fst (tx_commit (eng_transaction ops) d t e)}"
proof (cases "key_position J (op_key x)")
  case None
  show ?thesis
  proof (cases "stage_spec env ops J x (fail_at options) e")
    case (Inr prepared)
    obtain t n receipt where p: "prepared = (t, n, receipt)" by (cases prepared)
    have "fst (finish_commit ops options prepared e) \<in> {e, fst (tx_commit (eng_transaction ops) (opt_durability options) t e)}"
      by (auto simp: p finish_commit_def split: prod.splits sum.splits)
    then show ?thesis using None Inr by (auto simp: op_spec_def)
  qed (use None in \<open>simp add: op_spec_def\<close>)
next
  case (Some i)
  have sync: "\<exists>d t. fst (synchronize_retry_if_required ops n d' e) \<in> {e, fst (tx_commit (eng_transaction ops) d t e)}" for n d'
  proof (cases "eng_begin_write ops e")
    case (Inr t)
    then have "fst (synchronize_retry_if_required ops n d' e) \<in> {e, fst (tx_commit (eng_transaction ops) Sync t e)}"
      by (auto simp: synchronize_retry_if_required_def split: prod.splits sum.splits)
    then show ?thesis by blast
  qed (simp add: synchronize_retry_if_required_def)
  have "fst (retry_spec env ops i y x e) \<in> {e, fst (synchronize_retry_if_required ops (seq i) (op_durability x) e)}" for y
    by (auto simp: retry_spec_def split: prod.splits sum.splits)
  then show ?thesis using sync [of "seq i" "op_durability x"] Some by (auto simp: op_spec_def) metis
qed

text \<open>After at most \<open>k\<close> commits and without scheduled faults, the wrapped backend is available.\<close>

definition fresh_within :: "nat \<Rightarrow> mem_state fault_storage \<Rightarrow> bool" where
  "fresh_within k f \<longleftrightarrow> fault_actions f = [] \<and> unat (mem_head (fault_engine f)) \<le> k"

lemma mem_commit_head: "unat (mem_head (fst (mem_tx_commit d t st))) \<le> Suc (unat (mem_head st))"
  by (auto simp: mem_tx_commit_def Let_def dest: unat_checked_add split: option.splits)

lemma fresh_within_commit:
  assumes "fresh_within k f"
  shows "fresh_within (Suc k) (fst (tx_commit (eng_transaction (fault_ops memory_ops)) d t f))"
proof -
  have "tx_commit (eng_transaction (fault_ops memory_ops)) d t f = fault_inner_commit memory_ops d t f"
    using assms by (simp add: fault_ops_def fault_transaction_ops_def fault_commit_def fault_take_def fresh_within_def)
  then show ?thesis
    using assms mem_commit_head [of d "fault_inner t" "fault_engine f"]
    by (auto simp: fresh_within_def fault_inner_commit_def memory_ops_simps mem_transaction_ops_def split: prod.splits)
qed

lemma fresh_within_available:
  assumes "fresh_within k f" and "Suc k < 2 ^ 64"
  shows "fault_actions f = [] \<and> mem_available (fault_engine f)"
  using assms by (simp add: fresh_within_def mem_available_def checked_add_word_def)

lemma fresh_call:
  assumes ok: "mem_ok (fault_engine f)" and rep: "represents env J (mem_content (fault_engine f))" and codecs: "codecs_ok env"
    and fresh: "fresh_within k f" "Suc k < 2 ^ 64" and spec: "call_spec env J call = (J', r)"
  shows "\<exists>f'. do_call env (fault_ops memory_ops) call f = (f', r) \<and> mem_ok (fault_engine f')
    \<and> represents env J' (mem_content (fault_engine f')) \<and> fresh_within (Suc k) f'"
proof -
  obtain f' where f': "do_call env (fault_ops memory_ops) call f = (f', r)" "mem_ok (fault_engine f')"
    "represents env J' (mem_content (fault_engine f'))"
    using fault_memory.do_call_available [OF ok fresh_within_available [OF fresh] rep codecs spec] by blast
  have "f' = f \<or> (\<exists>d t. f' = fst (tx_commit (eng_transaction (fault_ops memory_ops)) d t f))"
    using f'(1) op_spec_commits [of env "fault_ops memory_ops" J _ "call_options call" f]
    by (auto simp: fault_memory.do_call_op_spec [OF ok rep codecs] split: sum.splits) (metis fst_conv)
  then have "fresh_within (Suc k) f'" using fresh_within_commit [OF fresh(1)] fresh(1) by (auto simp: fresh_within_def)
  then show ?thesis using f' by blast
qed

section \<open>The run\<close>

abbreviation demo_start :: "mem_state fault_storage" where
  "demo_start \<equiv> \<lparr>fault_engine = memory_new, fault_actions = []\<rparr>"

abbreviation demo_calls :: "journal_call list" where
  "demo_calls \<equiv> [demo_call_a, demo_call_b, demo_call_a]"

lemma memory_new_empty: "mem_content memory_new = (\<lambda>ks k. None)"
  by (intro ext) (simp add: mem_content_def memory_new_def tables_get_def)

lemma start_represents: "represents env [] (mem_content (fault_engine \<lparr>fault_engine = memory_new, fault_actions = acts\<rparr>))"
  by (simp add: memory_new_empty represents_Nil)

lemma demo_run:
  obtains f1 f where "run_calls demo_env (fault_ops memory_ops) [demo_call_a] demo_start = (f1, [Inr demo_receipt_a])"
    and "mem_ok (fault_engine f1)" and "represents demo_env [demo_op_a] (mem_content (fault_engine f1))" and "fresh_within 1 f1"
    and "run_calls demo_env (fault_ops memory_ops) demo_calls demo_start =
      (f, [Inr demo_receipt_a, Inr demo_receipt_b, Inr (replayed demo_receipt_a)])"
    and "run_calls demo_env (fault_ops memory_ops) [demo_call_b, demo_call_a] f1 =
      (f, [Inr demo_receipt_b, Inr (replayed demo_receipt_a)])"
    and "mem_ok (fault_engine f)" and "represents demo_env [demo_op_a, demo_op_b] (mem_content (fault_engine f))"
    and "fresh_within 3 f"
proof -
  have start: "mem_ok (fault_engine demo_start)" by (simp add: mem_ok_new)
  have fresh: "fresh_within 0 demo_start" by (simp add: fresh_within_def memory_new_def)
  obtain f1 where f1: "do_call demo_env (fault_ops memory_ops) demo_call_a demo_start = (f1, Inr demo_receipt_a)"
    "mem_ok (fault_engine f1)" "represents demo_env [demo_op_a] (mem_content (fault_engine f1))" "fresh_within 1 f1"
    using fresh_call [OF start start_represents demo_codecs fresh _ demo_specs(1)] by auto
  obtain f2 where f2: "do_call demo_env (fault_ops memory_ops) demo_call_b f1 = (f2, Inr demo_receipt_b)"
    "mem_ok (fault_engine f2)" "represents demo_env [demo_op_a, demo_op_b] (mem_content (fault_engine f2))" "fresh_within (Suc 1) f2"
    using fresh_call [OF f1(2,3) demo_codecs f1(4) _ demo_specs(2)] by (auto simp del: do_call.simps)
  obtain f3 where f3: "do_call demo_env (fault_ops memory_ops) demo_call_a f2 = (f3, Inr (replayed demo_receipt_a))"
    "mem_ok (fault_engine f3)" "represents demo_env [demo_op_a, demo_op_b] (mem_content (fault_engine f3))" "fresh_within (Suc (Suc 1)) f3"
    using fresh_call [OF f2(2,3) demo_codecs f2(4) _ demo_specs(3)] by (auto simp del: do_call.simps)
  show ?thesis
    using that [of f1 f3] f1 f2 f3 by (simp add: eval_nat_numeral del: do_call.simps replayed.simps)
qed

section \<open>Small stores\<close>

lemma entries_bytes_bound: "\<forall>e \<in> set es. entry_bytes e \<le> n \<Longrightarrow> entries_bytes es \<le> n * length es"
  by (induction es) auto

lemma scan_fits_small:
  assumes "length es \<le> 1000" and "\<forall>e \<in> set es. entry_bytes e \<le> 1000"
  shows "scan_fits es"
  using assms entries_bytes_bound [OF assms(2)]
  by (fastforce simp: scan_fits_def LEGACY_SCAN_MAX_ENTRIES_def LEGACY_SCAN_MAX_BYTES_def LEGACY_SCAN_PAGE_BYTES_def)

text \<open>A store with at most \<open>n\<close> short records in each journal keyspace.\<close>

definition small_store :: "nat \<Rightarrow> store \<Rightarrow> bool" where
  "small_store n c \<longleftrightarrow> (\<forall>ks \<in> journal_keyspaces. \<exists>A. finite A \<and> card A \<le> n
     \<and> (\<forall>k b. c ks k = Some b \<longrightarrow> k \<in> A \<and> length k + length b \<le> 1000))"

lemma small_store_fits:
  assumes "small_store n c" and "n \<le> 1000"
  shows "store_fits c"
  unfolding store_fits_def
proof (intro ballI allI)
  fix ks p assume "ks \<in> journal_keyspaces"
  then obtain A where A: "finite A" "card A \<le> 1000" "\<And>k b. c ks k = Some b \<Longrightarrow> k \<in> A \<and> length k + length b \<le> 1000"
    using assms unfolding small_store_def by (meson order_trans)
  let ?K = "{k \<in> A. c ks k \<noteq> None \<and> starts_with k p}"
  let ?es = "map (\<lambda>k. Entry k (the (c ks k))) (sorted_list_of_set ?K)"
  have K: "finite ?K" "card ?K \<le> 1000" using A(1,2) card_mono [OF A(1), of ?K] by auto
  have keys: "map entry_key ?es = sorted_list_of_set ?K" by (simp add: comp_def)
  have "listing (c ks) p ?es"
    unfolding listing_def keys using A(3) K(1) by (auto simp: strict_sorted_iff)
  moreover have bytes: "entry_bytes e \<le> 1000" if "e \<in> set ?es" for e
    using that A(3) K(1) by (auto simp: entry_bytes_def)
  then have "scan_fits ?es" using K(2) by (intro scan_fits_small ballI) simp_all
  ultimately show "\<exists>es. listing (c ks) p es \<and> scan_fits es" by blast
qed

lemma small_store_put:
  assumes "small_store n c" and "length k + length b \<le> 1000"
  shows "small_store (Suc n) (store_put ks k b c)"
  unfolding small_store_def
proof
  fix ks' assume "ks' \<in> journal_keyspaces"
  then obtain A where A: "finite A" "card A \<le> n" "\<And>k b. c ks' k = Some b \<Longrightarrow> k \<in> A \<and> length k + length b \<le> 1000"
    using assms(1) unfolding small_store_def by blast
  have "card (insert k A) \<le> Suc n" using A(1,2) by (simp add: card_insert_if)
  then show "\<exists>A. finite A \<and> card A \<le> Suc n
      \<and> (\<forall>k' b'. store_put ks k b c ks' k' = Some b' \<longrightarrow> k' \<in> A \<and> length k' + length b' \<le> 1000)"
    using A(1,3) assms(2) by (intro exI [of _ "insert k A"]) (auto simp: store_put_def split: if_splits)
qed

definition record_list :: "('o, 'm, 'x, 'w) journal_env \<Rightarrow> ('o, 'm, 'x) journal_op list \<Rightarrow> record_put list" where
  "record_list env J = concat (map (\<lambda>i. op_records env (seq i) (J ! i)) [0..<length J])
     @ (if J = [] then [] else [head_record env (of_nat (length J))])"

lemma record_list_iff: "journal_record env J p \<longleftrightarrow> p \<in> set (record_list env J)"
  by (auto simp: journal_record_def record_list_def)

lemma represents_small:
  assumes rep: "represents env J c" and "length (record_list env J) \<le> n"
    and "\<forall>(ks, k, r) \<in> set (record_list env J). \<forall>b. r = Inr b \<longrightarrow> length k + length b \<le> 1000"
  shows "small_store n c"
  unfolding small_store_def
proof (intro ballI exI conjI allI impI)
  let ?A = "(\<lambda>(ks, k, r). k) ` set (record_list env J)"
  show "finite ?A" by simp
  show "card ?A \<le> n"
    using card_image_le [of "set (record_list env J)"] card_length [of "record_list env J"] assms(2)
    by (meson List.finite_set le_trans)
  fix ks k b assume "ks \<in> journal_keyspaces" "c ks k = Some b"
  then have "(ks, k, Inr b) \<in> set (record_list env J)" using rep by (simp add: represents_def record_list_iff)
  then show "k \<in> ?A" "length k + length b \<le> 1000" using assms(3) by force+
qed

lemma encode_length:
  assumes "to_vec codec x = Some p" and "encode env codec kind n x = Inr b"
  shows "length b = 32 + length p"
  using assms header_of_encode(2) by (fastforce simp: encode_def)

lemmas demo_encode_length = demo_to_vec [THEN encode_length, simplified]

lemma demo_hash_length [simp]: "length demo_key_a = 32" "length demo_key_b = 32"
  by (simp_all add: demo_key_a_def demo_key_b_def demo_hash_def)

lemma demo_key_lengths [simp]:
  "length HEAD_KEY = 4" "length (event_key n) = 9" "length (outbox_key n i) = 13" "length (idempotency_key kd) = Suc (length kd)"
  "length (observation_key a) = 17" "length (mutation_key a) = 17"
  by (simp_all add: HEAD_KEY_def event_key_def outbox_key_def idempotency_key_def observation_key_def mutation_key_def
      sequence_key_def uuid_key_def EVENT_PREFIX_def OUTBOX_PREFIX_def IDEMPOTENCY_PREFIX_def OBSERVATION_PREFIX_def
      MUTATION_PREFIX_def ascii_def)

lemma demo_small:
  assumes "represents demo_env J c" and "J = [demo_op_a] \<or> J = [demo_op_a, demo_op_b]"
  shows "small_store 100 c"
  using assms(2)
proof
  assume J: "J = [demo_op_a]"
  show ?thesis
    by (intro represents_small [OF assms(1)])
      (auto simp: J record_list_def demo_seq demo_op_a_def demo_ids key_record_def head_record_def
        dest!: demo_encode_length)
next
  assume J: "J = [demo_op_a, demo_op_b]"
  show ?thesis
    by (intro represents_small [OF assms(1)])
      (auto simp: J record_list_def demo_seq demo_op_a_def demo_op_b_def demo_ids key_record_def head_record_def outbox_records_def
        dest!: demo_encode_length)
qed

lemma demo_fits:
  assumes "represents demo_env J c" and "J = [demo_op_a] \<or> J = [demo_op_a, demo_op_b]"
  shows "store_fits c"
  using small_store_fits [OF demo_small [OF assms]] by simp

section \<open>An interrupted store\<close>

lemma demo_no_second_event:
  assumes "represents demo_env [demo_op_a] c"
  shows "c ks_events (event_key 2) = None"
proof (cases "c ks_events (event_key 2)")
  case (Some b)
  then show ?thesis using represents_lookup [OF assms, of ks_events] by (simp add: record_event demo_seq)
qed

text \<open>The store after the observation, with the event record of a next sequence that no head names.\<close>

lemma demo_interrupted:
  obtains f where "mem_ok (fault_engine f)" and "interrupted demo_env [demo_op_a] (mem_content (fault_engine f))"
    and "mem_content (fault_engine f) ks_events (event_key 2) = Some [0]" and "fresh_within 2 f"
    and "store_fits (mem_content (fault_engine f))"
proof (rule demo_run)
  fix f1 assume f1: "mem_ok (fault_engine f1)" "represents demo_env [demo_op_a] (mem_content (fault_engine f1))" "fresh_within 1 f1"
  let ?t = "eng_transaction (fault_ops memory_ops)"
  obtain t0 :: "mem_transaction fault_transaction" where t0: "mem_tx_ok (fault_inner t0)" "mem_tx_view (fault_inner t0) = mem_content (fault_engine f1)"
    "mem_based (fault_inner t0) (fault_engine f1)"
    using fault_memory.begin_write_latest [OF f1(1)] by blast
  obtain t :: "mem_transaction fault_transaction" where t: "mem_tx_ok (fault_inner t)"
    "mem_tx_view (fault_inner t) = store_put ks_events (event_key 2) [0] (mem_content (fault_engine f1))"
    "mem_based (fault_inner t) (fault_engine f1)"
    using fault_memory.put_store [OF t0(1), of ks_events "event_key 2" "[0]"] t0(2,3) by metis
  have av: "fault_actions f1 = [] \<and> mem_available (fault_engine f1)" by (rule fresh_within_available [OF f1(3)]) simp
  obtain f c where commit: "tx_commit ?t Sync t f1 = (f, Inr c)"
    using fault_memory.commit_available [OF f1(1) t(1,3) av] by blast
  have ok: "mem_ok (fault_engine f)"
    and f: "mem_content (fault_engine f) = store_put ks_events (event_key 2) [0] (mem_content (fault_engine f1))"
    using fault_memory.commit_atomic [OF f1(1) t(1,3) commit] t(2) by simp_all
  have "tail_record demo_env 1 ks_events (event_key 2) [0]"
    by (simp add: tail_record_def keyspace_prefix_def record_sequence_def)
  then have "interrupted demo_env [demo_op_a] (mem_content (fault_engine f))"
    unfolding interrupted_def using demo_no_second_event [OF f1(2)]
    by (intro exI [of _ "mem_content (fault_engine f1)"] conjI f1(2)) (auto simp: f store_put_def)
  moreover have "store_fits (mem_content (fault_engine f))"
    unfolding f by (rule small_store_fits [OF small_store_put [OF demo_small [OF f1(2)]]]) simp_all
  moreover have "fresh_within 2 f"
    using fresh_within_commit [OF f1(3), of Sync t] commit by (simp add: numeral_2_eq_2)
  ultimately show ?thesis using that [OF ok] by (simp add: f store_put_def)
qed

section \<open>The backup\<close>

lemma demo_frame_encode:
  assumes "to_vec codec x = Some [1]"
  shows "encode demo_env codec kind 1 x = Inr (demo_frame kind)"
  using assms by (simp add: encode_def demo_frame_def envelope_encode_def demo_env_def)

lemma demo_records:
  "record_list demo_env [demo_op_a] =
     [(ks_events, event_key 1, Inr (demo_frame KObservation)), (ks_observations, observation_key 7, Inr (demo_frame KSnapshot)),
      (ks_idempotency, idempotency_key demo_key_a, Inr (demo_frame KSnapshot)), (ks_meta, HEAD_KEY, Inr (demo_frame KSnapshot))]"
  using demo_to_vec
  by (simp add: record_list_def demo_seq demo_op_a_def demo_ids key_record_def head_record_def demo_frame_encode)

lemma demo_backup_codec: "to_vec (backup_codec demo_env) (payload_of (Suc 0) demo_listing) = Some [1]"
  by (simp add: demo_env_def table_codec_def)

lemma demo_frame_length: "length (demo_frame kind) = 33"
  by (simp add: demo_frame_def envelope_encode_def MAGIC_def)

lemma demo_lists_store:
  assumes "represents demo_env [demo_op_a] c"
  shows "lists_store demo_listing c"
proof -
  have c: "c ks k = Some b \<longleftrightarrow> (ks, k, Inr b) \<in> set (record_list demo_env [demo_op_a])" if "ks \<in> journal_keyspaces" for ks k b
    using assms that by (simp add: represents_def record_list_iff)
  have "listing (c ks) [] (demo_listing ks)" if ks: "ks \<in> journal_keyspaces" for ks
    using ks unfolding journal_keyspaces_def listing_def c [OF ks] demo_records by (auto simp: demo_listing_def)
  moreover have "scan_fits (demo_listing ks)" for ks
    by (rule scan_fits_small) (auto simp: demo_listing_def entry_bytes_def demo_frame_length)
  ultimately show ?thesis by (simp add: lists_store_def)
qed

end
