(* ===== verification/Journal_Properties.thy ===== *)
theory Journal_Properties
  imports Journal_Example
begin

text \<open>
  The properties of the journal, for the in-memory backend behind the fault-injecting wrapper: the
  lemmas of the preceding theories at the interpretation \<open>fault_memory\<close>, so that every one of
  them also covers lost responses, refused commits and weakened durability receipts.
\<close>

section \<open>Runs\<close>

abbreviation fops :: "(mem_state fault_storage, mem_snapshot, mem_transaction fault_transaction) storage_engine_ops" where
  "fops \<equiv> fault_ops memory_ops"

abbreviation fcontent :: "mem_state fault_storage \<Rightarrow> store" where
  "fcontent f \<equiv> mem_content (fault_engine f)"

abbreviation faulty :: "fault_action list \<Rightarrow> mem_state fault_storage" where
  "faulty actions \<equiv> \<lparr>fault_engine = memory_new, fault_actions = actions\<rparr>"

lemma faulty_run:
  assumes "codecs_ok env" and "run_calls env fops calls (faulty actions) = (f, rs)"
  obtains J where "mem_ok (fault_engine f)" and "represents env J (fcontent f)" and "journal_run env [] calls J rs"
  using fault_memory.run_calls_simulate [OF _ start_represents assms(1,2)] mem_ok_new by auto

lemma wf_journal_key_position:
  assumes "wf_journal env J" and "i < length J"
  shows "key_position J (op_key (J ! i)) = Some i"
proof -
  obtain j where j: "key_position J (op_key (J ! i)) = Some j"
    using assms(2) key_position_None [of J "op_key (J ! i)"] by fastforce
  then have "j < length J" "op_key (J ! j) = op_key (J ! i)" using key_position_Some by blast+
  then have "j = i" using wf_journal_keys_distinct [OF assms(1)] assms(2)
    by (metis distinct_conv_nth length_map nth_map)
  then show ?thesis using j by simp
qed

fun receipt_commit_seq :: "stored_receipt \<Rightarrow> u64" where
  "receipt_commit_seq (StoredObservation r) = or_commit_seq r"
| "receipt_commit_seq (StoredPublication r) = pr_commit_seq r"
| "receipt_commit_seq (StoredMaintenance r) = mr_commit_seq r"

lemma receipt_commit_seq_op [simp]: "receipt_commit_seq (op_receipt env n x) = n"
  by (cases x) simp_all

lemma receipt_commit_seq_replayed [simp]: "receipt_commit_seq (replayed r) = receipt_commit_seq r"
  by (cases r) simp_all

lemma replayed_twice [simp]: "replayed (replayed r) = replayed r"
  by (cases r) simp_all

context storage_engine
begin

lemma retry_available:
  assumes e: "evalid e" and av: "available e" and rep: "represents env J (content e)" and codecs: "codecs_ok env"
    and ack: "acknowledges env J call receipt"
  shows "\<exists>e'. do_call env ops call e = (e', Inr (replayed receipt)) \<and> content e' = content e"
proof -
  obtain x i where x: "call_op env call = Inr x" "i < length J" "same_request x (J ! i)"
    "op_durability x = Sync \<longrightarrow> op_durability (J ! i) = Sync"
    "receipt = op_receipt env (seq i) (J ! i) \<or> receipt = replayed (op_receipt env (seq i) (J ! i))"
    using ack by (auto simp: acknowledges_def)
  have position: "key_position J (op_key x) = Some i"
    using wf_journal_key_position [OF represents_wf [OF rep] x(2)] x(3) by (simp add: same_request_def)
  obtain e' where s: "synchronize_retry_if_required ops (seq i) (op_durability x) e = (e', Inr ())"
    using synchronize_retry_available [OF e av] by blast
  have "op_spec env ops J x (call_options call) e = (e', Inr (replayed (op_receipt env (seq i) (J ! i))))"
    using x(3,4) by (simp add: op_spec_def position retry_spec_def s ensure_durability_def)
  then show ?thesis
    using synchronize_retry_content [OF e s] x(1,5) by (auto simp: do_call_op_spec [OF e rep codecs])
qed

end

lemma mem_verify_total:
  assumes "mem_ok (fault_engine f)"
  shows "\<exists>p. eng_verify fops mode f = Inr p"
  using mem_ok_get [OF assms order_refl]
  by (auto simp: fault_ops_def memory_ops_def mem_verify_def mem_begin_read_def)

lemma memory_new_available: "mem_available memory_new"
  by (simp add: mem_available_def memory_new_def checked_add_word_def)

section \<open>Properties\<close>

text \<open>C1.
  The coordinator refines the abstract journal. Whatever requests are made of a new store, and
  whatever faults strike its commits, the answers are those of a run of the abstract machine, in
  which each request appends its operation, repeats one, or fails; and the store represents the
  journal of that run, which is well formed: keys and identities are unique, every publication was
  based on the journal before it and refers to accepted observations only.
\<close>

theorem journal_refines_machine:
  assumes "codecs_ok env" and "run_calls env fops calls (faulty actions) = (f, rs)"
  shows "\<exists>J. journal_run env [] calls J rs \<and> wf_journal env J \<and> represents env J (fcontent f)"
  using faulty_run [OF assms] represents_wf by metis

theorem journal_refines_machine_witness:
  "\<exists>J. journal_run demo_env [] demo_calls J
      (snd (run_calls demo_env fops demo_calls (faulty [LoseResponseAfterCommit, NoSpaceBeforeCommit])))
    \<and> wf_journal demo_env J
    \<and> represents demo_env J
      (fcontent (fst (run_calls demo_env fops demo_calls (faulty [LoseResponseAfterCommit, NoSpaceBeforeCommit]))))"
  by (rule journal_refines_machine [OF demo_codecs]) (rule prod.collapse [symmetric])

text \<open>C2.
  No acknowledged request is lost. After any sequence of requests, under any schedule of faults,
  the latest snapshot shows, at the sequence of the receipt, the event of an operation with the
  key, the kind and the exact digest of the acknowledged request, and that operation was durable
  if the request asked for it.
\<close>

theorem acknowledged_requests_survive:
  assumes "codecs_ok env" and "run_calls env fops calls (faulty actions) = (f, rs)"
    and "(call, Inr receipt) \<in> set (zip calls rs)" and "snapshot env fops JLatest f = Inr snap"
  shows "\<exists>x y i. call_op env call = Inr x \<and> same_request x y \<and> (op_durability x = Sync \<longrightarrow> op_durability y = Sync)
    \<and> receipt_commit_seq receipt = seq i \<and> i < length (js_events snap) \<and> js_events snap ! i = op_event env (seq i) y"
proof -
  obtain J where J: "mem_ok (fault_engine f)" "represents env J (fcontent f)" "journal_run env [] calls J rs"
    using faulty_run [OF assms(1,2)] .
  obtain x i where x: "call_op env call = Inr x" "i < length J" "same_request x (J ! i)"
    "op_durability x = Sync \<longrightarrow> op_durability (J ! i) = Sync" "receipt_commit_seq receipt = seq i"
    using journal_run_acknowledges [OF J(3) assms(3)] by (auto simp: acknowledges_def)
  have "js_events snap = journal_events env J"
    using fault_memory.snapshot_sound [OF J(1,2) assms(1,4)] by auto
  then have "i < length (js_events snap) \<and> js_events snap ! i = op_event env (seq i) (J ! i)"
    using x(2) by (simp add: journal_events_def)
  with x show ?thesis by blast
qed

lemma demo_snapshot:
  assumes "mem_ok (fault_engine f)" and "represents demo_env [demo_op_a, demo_op_b] (fcontent f)"
  obtains snap where "snapshot demo_env fops JLatest f = Inr snap"
  using fault_memory.snapshot_complete [OF assms demo_codecs demo_fits [OF assms(2)], of JLatest] by auto

theorem acknowledged_requests_survive_witness:
  "\<exists>f snap x y i. run_calls demo_env fops demo_calls (faulty []) =
      (f, [Inr demo_receipt_a, Inr demo_receipt_b, Inr (replayed demo_receipt_a)])
    \<and> snapshot demo_env fops JLatest f = Inr snap \<and> call_op demo_env demo_call_b = Inr x \<and> same_request x y
    \<and> receipt_commit_seq demo_receipt_b = seq i \<and> i < length (js_events snap)
    \<and> js_events snap ! i = op_event demo_env (seq i) y"
proof (rule demo_run)
  fix f assume run: "run_calls demo_env fops demo_calls demo_start =
      (f, [Inr demo_receipt_a, Inr demo_receipt_b, Inr (replayed demo_receipt_a)])"
    and f: "mem_ok (fault_engine f)" "represents demo_env [demo_op_a, demo_op_b] (fcontent f)"
  obtain snap where snap: "snapshot demo_env fops JLatest f = Inr snap" using demo_snapshot [OF f] .
  have "(demo_call_b, Inr demo_receipt_b) \<in> set (zip demo_calls
      [Inr demo_receipt_a, Inr demo_receipt_b, Inr (replayed demo_receipt_a)])" by simp
  from acknowledged_requests_survive [OF demo_codecs run this snap] run snap show ?thesis by blast
qed

text \<open>C3.
  The three commit operations compute the abstract answer. On a store that represents a journal,
  when the backend can commit and no fault is due, a request gets exactly the answer of the
  specification: the validation error, the replayed receipt or the conflict of a known key, the
  rejection of a stale base, a missing reference, a duplicate or an exhausted sequence, the
  injected failure, or the receipt of the new operation; and the store then represents exactly
  the journal of the specification.
\<close>

theorem commit_operations_exact:
  assumes "codecs_ok env" and "mem_ok (fault_engine f)" and "represents env J (fcontent f)"
    and "fault_actions f = []" and "mem_available (fault_engine f)"
  shows "\<exists>f'. do_call env fops call f = (f', snd (call_spec env J call))
    \<and> mem_ok (fault_engine f') \<and> represents env (fst (call_spec env J call)) (fcontent f')"
  using fault_memory.do_call_available [OF assms(2) _ assms(3,1), of call] assms(4,5) by (metis prod.collapse)

theorem commit_operations_exact_witness:
  "\<exists>f'. do_call demo_env fops demo_call_a (faulty []) = (f', Inr demo_receipt_a)
    \<and> mem_ok (fault_engine f') \<and> represents demo_env [demo_op_a] (fcontent f')"
proof -
  have "fault_actions (faulty []) = []" "mem_available (fault_engine (faulty []))"
    by (simp_all add: memory_new_available)
  from commit_operations_exact [OF demo_codecs _ start_represents this, of demo_call_a] show ?thesis
    by (simp add: mem_ok_new demo_specs(1) del: do_call.simps)
qed

text \<open>C4.
  A retry is answered. After any run, however many faults struck, a request that was acknowledged
  before gets its original receipt again, marked as replayed, as soon as the backend can commit,
  and the retry changes nothing in the store.
\<close>

theorem retry_is_answered:
  assumes "codecs_ok env" and "run_calls env fops calls (faulty actions) = (f, rs)"
    and "(call, Inr receipt) \<in> set (zip calls rs)" and "fault_actions f = []" and "mem_available (fault_engine f)"
  shows "\<exists>f'. do_call env fops call f = (f', Inr (replayed receipt)) \<and> fcontent f' = fcontent f"
proof -
  obtain J where J: "mem_ok (fault_engine f)" "represents env J (fcontent f)" "journal_run env [] calls J rs"
    using faulty_run [OF assms(1,2)] .
  have "fault_actions f = [] \<and> mem_available (fault_engine f)" using assms(4,5) ..
  from fault_memory.retry_available [OF J(1) this J(2) assms(1) journal_run_acknowledges [OF J(3) assms(3)]]
  show ?thesis .
qed

theorem retry_is_answered_witness:
  "\<exists>f f'. run_calls demo_env fops demo_calls (faulty []) =
      (f, [Inr demo_receipt_a, Inr demo_receipt_b, Inr (replayed demo_receipt_a)])
    \<and> do_call demo_env fops demo_call_b f = (f', Inr (replayed demo_receipt_b)) \<and> fcontent f' = fcontent f"
proof (rule demo_run)
  fix f assume run: "run_calls demo_env fops demo_calls demo_start =
      (f, [Inr demo_receipt_a, Inr demo_receipt_b, Inr (replayed demo_receipt_a)])"
    and fresh: "fresh_within 3 f"
  have "(demo_call_b, Inr demo_receipt_b) \<in> set (zip demo_calls
      [Inr demo_receipt_a, Inr demo_receipt_b, Inr (replayed demo_receipt_a)])" by simp
  note ack = this
  have "fault_actions f = []" "mem_available (fault_engine f)" using fresh_within_available [OF fresh] by simp_all
  from retry_is_answered [OF demo_codecs run ack this] run show ?thesis by blast
qed

text \<open>C5.
  An idempotency key names one operation. In any run under any faults, two acknowledged requests
  with the same key are of one kind, have the same exact request digest, and hold receipts for the
  same commit sequence.
\<close>

theorem key_names_one_operation:
  assumes "codecs_ok env" and "run_calls env fops calls (faulty actions) = (f, rs)"
    and "(call, Inr receipt) \<in> set (zip calls rs)" and "(call', Inr receipt') \<in> set (zip calls rs)"
    and "call_op env call = Inr x" and "call_op env call' = Inr x'" and "op_key x = op_key x'"
  shows "same_request x x' \<and> receipt_commit_seq receipt = receipt_commit_seq receipt'"
proof -
  obtain J where J: "represents env J (fcontent f)" "journal_run env [] calls J rs"
    using faulty_run [OF assms(1,2)] by metis
  obtain i where i: "i < length J" "same_request x (J ! i)" "receipt_commit_seq receipt = seq i"
    using journal_run_acknowledges [OF J(2) assms(3)] assms(5) by (auto simp: acknowledges_def)
  obtain i' where i': "i' < length J" "same_request x' (J ! i')" "receipt_commit_seq receipt' = seq i'"
    using journal_run_acknowledges [OF J(2) assms(4)] assms(6) by (auto simp: acknowledges_def)
  have "op_key (J ! i) = op_key (J ! i')" using i(2) i'(2) assms(7) by (simp add: same_request_def)
  then have "i = i'" using wf_journal_key_position [OF represents_wf [OF J(1)]] i(1) i'(1) by (metis option.inject)
  moreover have "same_kind x x'" if "same_kind x y" "same_kind x' y" for y :: "('a, 'b, 'c) journal_op"
    using that by (cases x; cases x'; cases y) simp_all
  ultimately show ?thesis using i i' assms(7) by (auto simp: same_request_def)
qed

theorem key_names_one_operation_witness:
  "same_request demo_op_a demo_op_a \<and> receipt_commit_seq demo_receipt_a = receipt_commit_seq (replayed demo_receipt_a)"
proof (rule demo_run)
  fix f assume run: "run_calls demo_env fops demo_calls demo_start =
      (f, [Inr demo_receipt_a, Inr demo_receipt_b, Inr (replayed demo_receipt_a)])"
  show ?thesis
    by (rule key_names_one_operation [OF demo_codecs run, of demo_call_a _ demo_call_a])
      (simp_all add: demo_call_ops del: replayed.simps call_op.simps)
qed

text \<open>C6.
  Published history does not change. A snapshot at a sequence shows the same events, as many as
  the sequence says, before and after any further requests, under any faults.
\<close>

theorem history_is_immutable:
  assumes "codecs_ok env" and "run_calls env fops calls (faulty actions) = (f, rs)"
    and "run_calls env fops calls' f = (f', rs')"
    and "snapshot env fops (JAt q) f = Inr snap" and "snapshot env fops (JAt q) f' = Inr snap'"
  shows "js_events snap' = js_events snap \<and> length (js_events snap) = unat q \<and> js_commit_seq snap' = js_commit_seq snap"
proof -
  obtain J where J: "mem_ok (fault_engine f)" "represents env J (fcontent f)"
    using faulty_run [OF assms(1,2)] by metis
  obtain J' where J': "mem_ok (fault_engine f')" "represents env J' (fcontent f')" "journal_run env J calls' J' rs'"
    using fault_memory.run_calls_simulate [OF J assms(1,3)] by blast
  obtain K where K: "J' = J @ K" using journal_run_extends [OF J'(3)] by blast
  have q: "unat q \<le> length J" and s: "js_events snap = take (unat q) (journal_events env J)" "js_commit_seq snap = of_nat (unat q)"
    using fault_memory.snapshot_sound [OF J assms(1,4)] by (auto split: if_splits)
  have s': "js_events snap' = take (unat q) (journal_events env J')" "js_commit_seq snap' = of_nat (unat q)"
    using fault_memory.snapshot_sound [OF J'(1,2) assms(1,5)] by (auto split: if_splits)
  have "take (unat q) (journal_events env J') = take (unat q) (journal_events env J)"
    using q by (simp add: journal_events_take K nth_append)
  then show ?thesis using q s s' by simp
qed

theorem history_is_immutable_witness:
  "\<exists>f1 f s1 s. run_calls demo_env fops [demo_call_a] (faulty []) = (f1, [Inr demo_receipt_a])
    \<and> run_calls demo_env fops [demo_call_b, demo_call_a] f1 = (f, [Inr demo_receipt_b, Inr (replayed demo_receipt_a)])
    \<and> snapshot demo_env fops (JAt 1) f1 = Inr s1 \<and> snapshot demo_env fops (JAt 1) f = Inr s
    \<and> js_events s = js_events s1 \<and> length (js_events s1) = 1"
proof (rule demo_run)
  fix f1 f
  assume run1: "run_calls demo_env fops [demo_call_a] demo_start = (f1, [Inr demo_receipt_a])"
    and f1: "mem_ok (fault_engine f1)" "represents demo_env [demo_op_a] (fcontent f1)"
    and run2: "run_calls demo_env fops [demo_call_b, demo_call_a] f1 = (f, [Inr demo_receipt_b, Inr (replayed demo_receipt_a)])"
    and f: "mem_ok (fault_engine f)" "represents demo_env [demo_op_a, demo_op_b] (fcontent f)"
  obtain s1 where s1: "snapshot demo_env fops (JAt 1) f1 = Inr s1"
    using fault_memory.snapshot_complete [OF f1 demo_codecs demo_fits [OF f1(2)], of "JAt 1"] by auto
  obtain s where s: "snapshot demo_env fops (JAt 1) f = Inr s"
    using fault_memory.snapshot_complete [OF f demo_codecs demo_fits [OF f(2)], of "JAt 1"] by auto
  from history_is_immutable [OF demo_codecs run1 run2 s1 s] run1 run2 s1 s show ?thesis by auto
qed

text \<open>C7.
  Snapshots and replay are exact and total. On a store that represents a journal within the scan
  limits, a selector beyond the head is refused, and every other one yields the events of exactly
  the selected prefix; replay yields the exact bytes and digests of its semantic publications, in
  commit order.
\<close>

theorem snapshot_and_replay_exact:
  assumes "codecs_ok env" and "mem_ok (fault_engine f)" and "represents env J (fcontent f)" and "store_fits (fcontent f)"
  shows "case selected (length J) selector of
      Inl err \<Rightarrow> snapshot env fops selector f = Inl err \<and> replay_mutations env fops selector f = Inl err
    | Inr k \<Rightarrow>
        (\<exists>p. snapshot env fops selector f =
           Inr \<lparr>js_commit_seq = of_nat k, js_storage_sequence = p, js_events = take k (journal_events env J)\<rparr>)
        \<and> replay_mutations env fops selector f =
           Inr (List.map_filter (\<lambda>i. op_replay_mutation env (seq i) (J ! i)) [0..<k])"
proof (cases "selected (length J) selector")
  case (Inl err)
  then have "snapshot env fops selector f = Inl err"
    using fault_memory.snapshot_complete [OF assms(2,3,1,4), of selector] by simp
  then show ?thesis using Inl by (simp add: replay_mutations_def)
next
  case (Inr k)
  then obtain p where snap: "snapshot env fops selector f =
      Inr \<lparr>js_commit_seq = of_nat k, js_storage_sequence = p, js_events = take k (journal_events env J)\<rparr>"
    using fault_memory.snapshot_complete [OF assms(2,3,1,4), of selector] by auto
  then obtain ms where ms: "replay_mutations env fops selector f = Inr ms" by (simp add: replay_mutations_def)
  show ?thesis using fault_memory.replay_sound(1) [OF assms(2,3,1) ms] Inr snap ms by auto
qed

theorem snapshot_and_replay_exact_witness:
  "\<exists>f. replay_mutations demo_env fops JLatest f =
      Inr [\<lparr>rm_commit_seq = 2, rm_mutation_id = 9, rm_digest = demo_mut_digest, rm_bytes = [2]\<rparr>]
    \<and> snapshot demo_env fops (JAt 3) f = Inl (JSnapshotUnavailable 3 2)"
proof (rule demo_run)
  fix f assume f: "mem_ok (fault_engine f)" "represents demo_env [demo_op_a, demo_op_b] (fcontent f)"
  note exact = snapshot_and_replay_exact [OF demo_codecs f demo_fits [OF f(2)]]
  have "replay_mutations demo_env fops JLatest f =
      Inr [\<lparr>rm_commit_seq = 2, rm_mutation_id = 9, rm_digest = demo_mut_digest, rm_bytes = [2]\<rparr>]"
    using exact [of JLatest] by (simp add: demo_seq demo_op_a_def demo_op_b_def demo_ids List.map_filter_def)
  moreover have "snapshot demo_env fops (JAt 3) f = Inl (JSnapshotUnavailable 3 2)"
    using exact [of "JAt 3"] by simp
  ultimately show ?thesis by blast
qed

text \<open>C8.
  Recovery keeps the published journal and removes the rest. On a store that holds a journal and,
  beside it, records of later sequences that no head names, recovery never touches the journal,
  whatever faults strike its commit; when it reports success, the store represents exactly the
  journal and the report names its head. It does report success when no fault is due, the backend
  can commit and the store is within the scan limits.
\<close>

theorem recovery_keeps_journal:
  assumes "codecs_ok env" and "mem_ok (fault_engine f)" and "interrupted env J (fcontent f)"
    and "recover env fops f = (f', r)"
  shows "interrupted env J (fcontent f')
    \<and> (\<forall>report. r = Inr report \<longrightarrow> represents env J (fcontent f') \<and> rr_commit_seq report = of_nat (length J))
    \<and> (fault_actions f = [] \<and> mem_available (fault_engine f) \<and> store_fits (fcontent f) \<longrightarrow> (\<exists>report. r = Inr report))"
  using fault_memory.recover_sound [OF assms(2,3,1,4)] fault_memory.recover_available [OF assms(2,3,1)] assms(4) by auto

theorem recovery_keeps_journal_witness:
  "\<exists>f f' report. fcontent f ks_events (event_key 2) = Some [0] \<and> recover demo_env fops f = (f', Inr report)
    \<and> fcontent f' ks_events (event_key 2) = None \<and> represents demo_env [demo_op_a] (fcontent f')
    \<and> rr_commit_seq report = 1"
proof (rule demo_interrupted)
  fix f assume f: "mem_ok (fault_engine f)" "interrupted demo_env [demo_op_a] (fcontent f)"
    "fcontent f ks_events (event_key 2) = Some [0]" "fresh_within 2 f" "store_fits (fcontent f)"
  obtain f' r where rec: "recover demo_env fops f = (f', r)" by fastforce
  note keeps = recovery_keeps_journal [OF demo_codecs f(1,2) rec]
  then obtain report where report: "r = Inr report" "represents demo_env [demo_op_a] (fcontent f')" "rr_commit_seq report = 1"
    using fresh_within_available [OF f(4)] f(5) by auto
  have "fcontent f' ks_events (event_key 2) = None" using demo_no_second_event [OF report(2)] .
  with f(3) rec report show ?thesis by blast
qed

text \<open>C10.
  Verification accepts every published journal: its report names the head and counts the events,
  the derived work items and the idempotency records of exactly that journal.
\<close>

theorem verification_accepts_journal:
  assumes "codecs_ok env" and "mem_ok (fault_engine f)" and "represents env J (fcontent f)" and "store_fits (fcontent f)"
  shows "\<exists>report. verify_journal env fops mode f = Inr report \<and> jv_commit_seq report = of_nat (length J)
    \<and> jv_events report = of_nat (length J) \<and> jv_outbox report = of_nat (outbox_total env J)
    \<and> jv_idempotency report = of_nat (length J)"
proof -
  obtain p where "eng_verify fops mode f = Inr p" using mem_verify_total [OF assms(2), of mode] by blast
  from fault_memory.verify_represents [OF assms(2,3,1,4) this] show ?thesis by simp
qed

theorem verification_accepts_journal_witness:
  "\<exists>f report. verify_journal demo_env fops Deep f = Inr report \<and> jv_events report = 2 \<and> jv_outbox report = 1"
proof (rule demo_run)
  fix f assume f: "mem_ok (fault_engine f)" "represents demo_env [demo_op_a, demo_op_b] (fcontent f)"
  from verification_accepts_journal [OF demo_codecs f demo_fits [OF f(2)], of Deep] show ?thesis
    by (auto simp: outbox_total_def lessThan_Suc numeral_2_eq_2 demo_op_a_def demo_op_b_def demo_ids)
qed

text \<open>C9.
  Backup and restore are inverse. A backup made of a store that represents a journal, restored
  into a store whose journal keyspaces are empty and whose backend can commit, succeeds, and then
  the target holds in every journal keyspace exactly the records of the source; the report names
  the head of the journal and the digest of the backup.
\<close>

theorem backup_restore_roundtrip:
  assumes "codecs_ok env" and "mem_ok (fault_engine f)" and "represents env J (fcontent f)" and "store_fits (fcontent f)"
    and "create_backup env fops f = Inr backup"
    and "mem_ok (fault_engine g)" and "fault_actions g = []" and "mem_available (fault_engine g)"
    and "empty_store (fcontent g)"
  shows "\<exists>g' report. restore_backup env fops backup g = (g', Inr report)
    \<and> (\<forall>ks \<in> journal_keyspaces. fcontent g' ks = fcontent f ks)
    \<and> rs_commit_seq report = of_nat (length J) \<and> rs_digest report = pb_digest backup"
proof -
  have "\<exists>p. eng_verify fops Deep h = Inr p" if "mem_ok (fault_engine h)" for h :: "mem_state fault_storage"
    using mem_verify_total [OF that, of Deep] by blast
  then show ?thesis
    using fault_memory.backup_restores [OF assms(2,3,1,4) _ assms(5,6) _ assms(9)] assms(7,8) by blast
qed

theorem backup_restore_roundtrip_witness:
  "\<exists>f backup g' report. create_backup demo_env fops f = Inr backup
    \<and> restore_backup demo_env fops backup (faulty []) = (g', Inr report)
    \<and> fcontent g' ks_events (event_key 1) \<noteq> None \<and> rs_commit_seq report = 1"
proof (rule demo_run)
  fix f assume f: "mem_ok (fault_engine f)" "represents demo_env [demo_op_a] (fcontent f)"
  obtain p where "eng_verify fops Deep f = Inr p" using mem_verify_total [OF f(1), of Deep] by blast
  then have backup: "create_backup demo_env fops f = Inr (container_of demo_env 1 demo_listing [1])"
    using fault_memory.create_backup_represents [OF f demo_codecs demo_fits [OF f(2)] demo_lists_store [OF f(2)]]
    by (auto simp: demo_backup_codec)
  have "mem_available (fault_engine (faulty []))" "mem_ok (fault_engine (faulty []))" "empty_store (fcontent (faulty []))"
    by (simp_all add: memory_new_available mem_ok_new memory_new_empty empty_store_def)
  then obtain g' report where g': "restore_backup demo_env fops (container_of demo_env 1 demo_listing [1]) (faulty []) = (g', Inr report)"
    "fcontent g' ks_events = fcontent f ks_events" "rs_commit_seq report = 1"
    using backup_restore_roundtrip [OF demo_codecs f demo_fits [OF f(2)] backup, of "faulty []"] by auto
  obtain b where "fcontent f ks_events (event_key (seq 0)) = Some b" using represents_event [OF f(2), of 0] by auto
  then have "fcontent g' ks_events (event_key 1) \<noteq> None" using g'(2) by (simp add: demo_seq)
  then show ?thesis using backup g'(1,3) by blast
qed

text \<open>C11.
  A restore never overwrites. When the target already holds a published journal, a restore of any
  backup, valid or not, fails and leaves the target as it was, whatever faults are due.
\<close>

theorem restore_never_overwrites:
  assumes "codecs_ok env" and "mem_ok (fault_engine f)" and "represents env J (fcontent f)" and "J \<noteq> []"
  shows "\<exists>err. restore_backup env fops backup f = (f, Inl err)"
  using fault_memory.restore_occupied [OF assms(2,3,1,4)] .

theorem restore_never_overwrites_witness:
  "\<exists>f err. mem_content (fault_engine f) ks_meta HEAD_KEY \<noteq> None
    \<and> restore_backup demo_env fops \<lparr>pb_schema = 1, pb_commit_seq = 0, pb_records = 0, pb_digest = [], pb_payload = []\<rparr> f
      = (f, Inl err)"
proof (rule demo_run)
  fix f assume f: "mem_ok (fault_engine f)" "represents demo_env [demo_op_a, demo_op_b] (fcontent f)"
  have "fcontent f ks_meta HEAD_KEY \<noteq> None" using represents_head [OF f(2)] by auto
  with restore_never_overwrites [OF demo_codecs f] show ?thesis by blast
qed

end
