(* ===== verification/Security_Base.thy ===== *)
theory Security_Base
  imports ContextDB_Prelude
begin

text \<open>
  What the parts of \<open>crates/contextdb-security\<close> share: the error type and the validators of
  \<open>error.rs\<close>, and the keys of \<open>backup.rs\<close> with their domain-separated signatures. BLAKE3, Ed25519
  and XChaCha20-Poly1305 are third-party packages: they are the functions of a record \<open>crypto\<close>,
  and \<open>crypto_ok\<close> states what their documentation promises of them. No collision resistance is
  assumed; a theorem that needs it concludes with the pair of byte strings that collide. The
  canonical JSON of a value is a partial function passed to the operations that serialise it.
  The locale \<open>guarded_machine\<close> is the contract of the crate's stateful objects: every call keeps
  an invariant and lets the state only grow in a preorder.
\<close>

section \<open>Errors and validators\<close>

datatype security_error =
    InvalidInput string
  | PolicyDenied string
  | SecretRejected
  | ResourceExhausted string
  | CryptographicFailure
  | IntegrityFailure string
  | DeletionIncomplete string
  | Serialization

text \<open>
  \<open>chars().any(char::is_control)\<close> on the bytes of a UTF-8 string: the control characters are
  U+0000 to U+001F, U+007F and U+0080 to U+009F, whose encoding is the byte 194 followed by a
  byte from 128 to 159.
\<close>

fun has_control_code :: "nat list \<Rightarrow> bool" where
  "has_control_code [] = False"
| "has_control_code [a] = (a < 32 \<or> a = 127)"
| "has_control_code (a # b # cs) =
     (a < 32 \<or> a = 127 \<or> a = 194 \<and> 128 \<le> b \<and> b \<le> 159 \<or> has_control_code (b # cs))"

definition has_control :: "string \<Rightarrow> bool" where
  "has_control s = has_control_code (map of_char s)"

definition require_label :: "string \<Rightarrow> string \<Rightarrow> security_error + unit" where
  "require_label v field =
     rguard (\<not> (is_blank v \<or> 512 < length v \<or> has_control v)) (InvalidInput field)"

definition is_lower_hex :: "char \<Rightarrow> bool" where
  "is_lower_hex c \<longleftrightarrow> is_ascii_digit c \<or> CHR ''a'' \<le> c \<and> c \<le> CHR ''f''"

definition require_digest :: "string \<Rightarrow> string \<Rightarrow> security_error + unit" where
  "require_digest v field =
     rguard (\<not> (length v \<noteq> 64 \<or> \<not> list_all is_lower_hex v)) (InvalidInput field)"

text \<open>A validator applied to the content of an optional field.\<close>

definition require_opt :: "('a \<Rightarrow> security_error + unit) \<Rightarrow> 'a option \<Rightarrow> security_error + unit" where
  "require_opt f v = (case v of None \<Rightarrow> Inr () | Some x \<Rightarrow> f x)"

text \<open>\<open>u64::try_from\<close> of a length.\<close>

definition u64_of_usize :: "nat \<Rightarrow> u64 option" where
  "u64_of_usize n = (if n < 2 ^ 64 then Some (of_nat n) else None)"

definition str_bytes :: "string \<Rightarrow> bytes" where
  "str_bytes s = map of_char s"

section \<open>Cryptographic packages\<close>

record crypto =
  blake3_hex :: "bytes \<Rightarrow> string"
  blake3_keyed_hex :: "bytes \<Rightarrow> bytes \<Rightarrow> string"
  ed25519_public :: "bytes \<Rightarrow> bytes"
  ed25519_sign :: "bytes \<Rightarrow> bytes \<Rightarrow> bytes"
  ed25519_point :: "bytes \<Rightarrow> bool"
  ed25519_verify_strict :: "bytes \<Rightarrow> bytes \<Rightarrow> bytes \<Rightarrow> bool"
  xchacha_encrypt :: "bytes \<Rightarrow> bytes \<Rightarrow> bytes \<Rightarrow> bytes \<Rightarrow> bytes option"
  xchacha_decrypt :: "bytes \<Rightarrow> bytes \<Rightarrow> bytes \<Rightarrow> bytes \<Rightarrow> bytes option"

text \<open>
  The documented behaviour of the packages: a hash prints as 64 lower-case hexadecimal digits;
  an Ed25519 signature has 64 bytes and the key derived from the signing seed is a valid point
  that accepts it; the AEAD appends a tag of 16 bytes and decrypts what it has encrypted under the
  same key, nonce and associated data.
\<close>

definition hash_ok :: "crypto \<Rightarrow> bool" where
  "hash_ok c \<longleftrightarrow> (\<forall>m. length (blake3_hex c m) = 64 \<and> list_all is_lower_hex (blake3_hex c m))"

definition signing_ok :: "crypto \<Rightarrow> bool" where
  "signing_ok c \<longleftrightarrow>
     (\<forall>seed m. length (ed25519_sign c seed m) = 64 \<and> ed25519_point c (ed25519_public c seed) \<and>
        ed25519_verify_strict c (ed25519_public c seed) m (ed25519_sign c seed m))"

definition aead_ok :: "crypto \<Rightarrow> bool" where
  "aead_ok c \<longleftrightarrow>
     (\<forall>key nonce m aad ct. xchacha_encrypt c key nonce m aad = Some ct \<longrightarrow>
        length ct = length m + 16 \<and> xchacha_decrypt c key nonce ct aad = Some m)"

definition crypto_ok :: "crypto \<Rightarrow> bool" where
  "crypto_ok c \<longleftrightarrow> hash_ok c \<and> signing_ok c \<and> aead_ok c"

definition canonical_json :: "('a \<Rightarrow> bytes option) \<Rightarrow> 'a \<Rightarrow> security_error + bytes" where
  "canonical_json js x = ok_or Serialization (js x)"

definition digest :: "crypto \<Rightarrow> bytes \<Rightarrow> string" where
  "digest c m = blake3_hex c m"

text \<open>Distinct values have distinct canonical JSON, as a serialisation of all fields has.\<close>

definition json_inj :: "('a \<Rightarrow> bytes option) \<Rightarrow> bool" where
  "json_inj js \<longleftrightarrow> (\<forall>x y b. js x = Some b \<and> js y = Some b \<longrightarrow> x = y)"

text \<open>Two different byte strings with one digest.\<close>

definition collides :: "crypto \<Rightarrow> bytes \<Rightarrow> bytes \<Rightarrow> bool" where
  "collides c a b \<longleftrightarrow> a \<noteq> b \<and> digest c a = digest c b"

section \<open>Keys\<close>

record backup_encryption_key =
  encryption_key_id :: string
  encryption_generation :: u64
  encryption_bytes :: bytes

record backup_signing_key =
  signing_key_id :: string
  signing_generation :: u64
  signing_bytes :: bytes

record backup_verifying_key =
  verifying_key_id :: string
  verifying_generation :: u64
  verifying_bytes :: bytes

definition encryption_key_new_with_generation ::
    "string \<Rightarrow> u64 \<Rightarrow> bytes \<Rightarrow> security_error + backup_encryption_key" where
  "encryption_key_new_with_generation key_id generation key =
     rbind (require_label key_id ''encryption_key_id'') (\<lambda>_.
     rbind (rguard (\<not> (generation = 0 \<or> list_all (\<lambda>b. b = 0) key))
       (InvalidInput ''encryption key generation must be nonzero and key cannot be all zero'')) (\<lambda>_.
     Inr \<lparr>encryption_key_id = key_id, encryption_generation = generation, encryption_bytes = key\<rparr>))"

definition encryption_key_new :: "string \<Rightarrow> bytes \<Rightarrow> security_error + backup_encryption_key" where
  "encryption_key_new key_id key = encryption_key_new_with_generation key_id 1 key"

text \<open>The random bytes are those the operating system returned, or none when it failed.\<close>

definition encryption_key_generate_with_generation ::
    "string \<Rightarrow> u64 \<Rightarrow> bytes option \<Rightarrow> security_error + backup_encryption_key" where
  "encryption_key_generate_with_generation key_id generation random =
     rbind (ok_or CryptographicFailure random)
       (\<lambda>key. encryption_key_new_with_generation key_id generation key)"

definition signing_key_new_with_generation ::
    "string \<Rightarrow> u64 \<Rightarrow> bytes \<Rightarrow> security_error + backup_signing_key" where
  "signing_key_new_with_generation key_id generation key =
     rbind (require_label key_id ''signing_key_id'') (\<lambda>_.
     rbind (rguard (\<not> (generation = 0 \<or> list_all (\<lambda>b. b = 0) key))
       (InvalidInput ''signing key generation must be nonzero and key cannot be all zero'')) (\<lambda>_.
     Inr \<lparr>signing_key_id = key_id, signing_generation = generation, signing_bytes = key\<rparr>))"

definition signing_key_new :: "string \<Rightarrow> bytes \<Rightarrow> security_error + backup_signing_key" where
  "signing_key_new key_id key = signing_key_new_with_generation key_id 1 key"

definition signing_key_generate_with_generation ::
    "string \<Rightarrow> u64 \<Rightarrow> bytes option \<Rightarrow> security_error + backup_signing_key" where
  "signing_key_generate_with_generation key_id generation random =
     rbind (ok_or CryptographicFailure random)
       (\<lambda>key. signing_key_new_with_generation key_id generation key)"

definition verifying_key :: "crypto \<Rightarrow> backup_signing_key \<Rightarrow> backup_verifying_key" where
  "verifying_key c k =
     \<lparr>verifying_key_id = signing_key_id k, verifying_generation = signing_generation k,
      verifying_bytes = ed25519_public c (signing_bytes k)\<rparr>"

definition sign_domain :: "crypto \<Rightarrow> backup_signing_key \<Rightarrow> bytes \<Rightarrow> bytes \<Rightarrow> bytes" where
  "sign_domain c k domain payload = ed25519_sign c (signing_bytes k) (domain @ payload)"

definition verify_domain ::
    "crypto \<Rightarrow> backup_verifying_key \<Rightarrow> bytes \<Rightarrow> bytes \<Rightarrow> bytes \<Rightarrow> security_error + unit" where
  "verify_domain c k domain payload signature =
     rbind (rguard (length signature = 64) (IntegrityFailure ''invalid signature length'')) (\<lambda>_.
     rbind (rguard (ed25519_point c (verifying_bytes k)) CryptographicFailure) (\<lambda>_.
     rguard (ed25519_verify_strict c (verifying_bytes k) (domain @ payload) signature)
       CryptographicFailure))"

text \<open>The keys the constructors return: a valid label and a nonzero generation.\<close>

definition signing_key_ok :: "backup_signing_key \<Rightarrow> bool" where
  "signing_key_ok k \<longleftrightarrow> require_label (signing_key_id k) ''signing_key_id'' = Inr () \<and> signing_generation k \<noteq> 0"

section \<open>Guarded state machines\<close>

text \<open>
  A stateful object seen through its calls: \<open>step\<close> is the effect of one call on the state, failed
  calls included. Every call keeps \<open>inv\<close> and moves the state up in the preorder \<open>grows\<close>.
\<close>

locale guarded_machine =
  fixes step :: "'c \<Rightarrow> 's \<Rightarrow> 's"
    and inv :: "'s \<Rightarrow> bool"
    and grows :: "'s \<Rightarrow> 's \<Rightarrow> bool"
  assumes step_inv: "inv s \<Longrightarrow> inv (step c s)"
    and step_grows: "inv s \<Longrightarrow> grows s (step c s)"
    and grows_refl: "grows s s"
    and grows_trans: "grows s t \<Longrightarrow> grows t u \<Longrightarrow> grows s u"
begin

lemma run_inv: "inv s \<Longrightarrow> inv (fold step cs s)"
  by (induction cs arbitrary: s) (simp_all add: step_inv)

lemma run_grows: "inv s \<Longrightarrow> grows s (fold step cs s)"
proof (induction cs arbitrary: s)
  case (Cons c cs)
  then show ?case using step_inv step_grows grows_trans by (metis fold_simps(2))
qed (simp add: grows_refl)

text \<open>The states of one run grow along it.\<close>

lemma run_between: "inv s \<Longrightarrow> grows (fold step cs s) (fold step (cs @ ds) s)"
  by (simp add: run_inv run_grows)

end

section \<open>Lemmas\<close>

lemma require_label_Inr_iff: "require_label v f = Inr u \<longleftrightarrow> require_label v g = Inr ()"
  by (simp add: require_label_def)

lemma require_label_cong: "require_label v f = Inr u \<Longrightarrow> require_label v g = Inr ()"
  by (simp add: require_label_def)

lemma require_digest_cong: "require_digest v f = Inr u \<Longrightarrow> require_digest v g = Inr ()"
  by (simp add: require_digest_def)

lemma require_opt_Inr_iff [simp]: "require_opt f v = Inr u \<longleftrightarrow> (\<forall>x. v = Some x \<longrightarrow> f x = Inr ())"
  by (cases v) (simp_all add: require_opt_def)

lemma canonical_json_Inr_iff [simp]: "canonical_json js x = Inr b \<longleftrightarrow> js x = Some b"
  by (simp add: canonical_json_def)

lemma digest_valid: "hash_ok c \<Longrightarrow> require_digest (digest c m) f = Inr ()"
  by (simp add: hash_ok_def require_digest_def digest_def)

text \<open>What a key signs, its verifying key accepts in the same domain.\<close>

lemma verify_sign_domain:
  "signing_ok c \<Longrightarrow> verify_domain c (verifying_key c k) d m (sign_domain c k d m) = Inr ()"
  by (simp add: signing_ok_def verify_domain_def verifying_key_def sign_domain_def)

lemma verifying_key_simps [simp]:
  "verifying_key_id (verifying_key c k) = signing_key_id k"
  "verifying_generation (verifying_key c k) = signing_generation k"
  by (simp_all add: verifying_key_def)

text \<open>Every constructor of a signing key returns a usable one.\<close>

lemma signing_key_new_ok:
  "signing_key_new_with_generation i g b = Inr k \<Longrightarrow> signing_key_ok k"
  by (auto simp: signing_key_new_with_generation_def signing_key_ok_def)

text \<open>Equal digests of two encodings mean equal values, or a collision.\<close>

lemma digest_eq_cases:
  assumes "json_inj js" and "js x = Some a" and "js y = Some b" and "digest c a = digest c b"
  shows "x = y \<or> collides c a b"
  using assms by (auto simp: collides_def json_inj_def)

lemma u64_of_usize_Some_iff: "u64_of_usize n = Some w \<longleftrightarrow> n < 2 ^ 64 \<and> unat w = n"
  by (auto simp: u64_of_usize_def unat_of_nat take_bit_nat_eq_self)

lemma bt_insert_mem: "e \<in> set (bt_insert k v m) \<Longrightarrow> e = (k, v) \<or> e \<in> set m"
  by (induction k v m rule: bt_insert.induct) (auto split: if_splits)

text \<open>The one-based position after an index, as \<open>u64::try_from(index)\<close> and \<open>checked_add(1)\<close> give it.\<close>

lemma successor_of_usize:
  "Option.bind (u64_of_usize i) (\<lambda>v. checked_add_word v 1) = Some g \<longleftrightarrow> Suc i < 2 ^ 64 \<and> unat g = Suc i"
proof (cases "i < 2 ^ 64")
  case True
  then have i: "u64_of_usize i = Some (of_nat i)" "unat (of_nat i :: u64) = i"
    by (simp_all add: u64_of_usize_def unat_of_nat)
  have "checked_add_word (of_nat i :: u64) 1 = Some g \<longleftrightarrow> Suc i < 2 ^ 64 \<and> unat g = Suc i"
    using i(2) by (auto simp: checked_add_word_def word_unat_eq_iff unat_word_ariths)
  then show ?thesis by (simp add: i(1))
qed (simp add: u64_of_usize_def)

section \<open>A concrete instance\<close>

text \<open>
  An instance of the packages that satisfies \<open>crypto_ok\<close>: the hash prints the byte sum, a
  signature is a fixed string, and encryption appends a tag.
\<close>

definition demo_crypto :: crypto where
  "demo_crypto =
     \<lparr>blake3_hex = (\<lambda>m. replicate 63 (CHR ''0'') @ [if even (sum_list m) then CHR ''0'' else CHR ''1'']),
      blake3_keyed_hex = (\<lambda>k m. replicate 64 (CHR ''0'')),
      ed25519_public = (\<lambda>seed. seed),
      ed25519_sign = (\<lambda>seed m. replicate 64 7),
      ed25519_point = (\<lambda>p. True),
      ed25519_verify_strict = (\<lambda>p m s. s = replicate 64 7),
      xchacha_encrypt = (\<lambda>k n m a. Some (m @ replicate 16 9)),
      xchacha_decrypt = (\<lambda>k n ct a. Some (take (length ct - 16) ct))\<rparr>"

lemma demo_crypto_ok: "crypto_ok demo_crypto"
  by (simp add: crypto_ok_def hash_ok_def signing_ok_def aead_ok_def demo_crypto_def is_lower_hex_def
      is_ascii_digit_def list_all_iff)

definition demo_key :: backup_signing_key where
  "demo_key = \<lparr>signing_key_id = ''signing-key'', signing_generation = 1, signing_bytes = replicate 32 9\<rparr>"

end
