(* ===== verification/Security_Admission.thy ===== *)
theory Security_Admission
  imports Security_Base
begin

text \<open>
  The admission controller of \<open>crates/contextdb-security/src/admission.rs\<close>: workspace-partitioned,
  expiring leases under hard limits, with a caller-supplied clock. Quantities are 64-bit words and
  every addition is checked, as in the code. \<open>admit\<close> returns the controller with its result,
  because it reaps expired leases and creates the workspace partition before it can fail; the
  other calls leave the controller as it was when they fail. The JSON of the controller is a
  parameter of \<open>admission_to_json\<close> and \<open>from_json_bounded\<close>.
\<close>

section \<open>Claims, limits and leases\<close>

definition MAX_ADMISSION_STATE_BYTES :: nat where
  "MAX_ADMISSION_STATE_BYTES = 1024 * 1024"

record resource_claim =
  request_id :: string
  workspace_id :: string
  input_bytes :: u64
  candidates :: u64
  frontier :: u64
  graph_hops :: u64
  model_attempts :: u64
  snapshot_ttl_millis :: u64

record resource_limits =
  concurrent_requests :: u64
  inflight_bytes :: u64
  request_bytes :: u64
  candidates_limit :: u64
  frontier_limit :: u64
  graph_hops_limit :: u64
  model_attempts_limit :: u64
  snapshot_ttl_limit :: u64

definition resource_limits_default :: resource_limits where
  "resource_limits_default =
     \<lparr>concurrent_requests = 32, inflight_bytes = 32 * 1024 * 1024, request_bytes = 16 * 1024 * 1024,
      candidates_limit = 10000, frontier_limit = 100000, graph_hops_limit = 8,
      model_attempts_limit = 3, snapshot_ttl_limit = 5 * 60 * 1000\<rparr>"

record active_lease =
  lease_claim :: resource_claim
  admitted_at_millis :: u64
  expires_at_millis :: u64

type_synonym workspace = "(string, active_lease) btree_map"

record admission_controller =
  active :: "(string, workspace) btree_map"
  last_observed_millis :: u64

definition admission_default :: admission_controller where
  "admission_default = \<lparr>active = [], last_observed_millis = 0\<rparr>"

definition validate_limits :: "resource_limits \<Rightarrow> security_error + unit" where
  "validate_limits limits =
     rbind (rguard (\<not> (concurrent_requests limits = 0 \<or> inflight_bytes limits = 0 \<or> request_bytes limits = 0))
       (InvalidInput ''resource limits cannot disable all admission'')) (\<lambda>_.
     rguard (\<not> inflight_bytes limits < request_bytes limits)
       (InvalidInput ''per-request byte limit exceeds workspace in-flight limit''))"

definition validate_claim :: "resource_claim \<Rightarrow> resource_limits \<Rightarrow> security_error + unit" where
  "validate_claim claim limits =
     rbind (require_label (request_id claim) ''request_id'') (\<lambda>_.
     rbind (require_label (workspace_id claim) ''workspace_id'') (\<lambda>_.
     rbind (validate_limits limits) (\<lambda>_.
     rall (\<lambda>(actual, maximum, name).
         rguard (\<not> (maximum < actual \<or> name = ''snapshot TTL'' \<and> actual = 0)) (ResourceExhausted name))
       [(input_bytes claim, request_bytes limits, ''request bytes''),
        (candidates claim, candidates_limit limits, ''candidate budget''),
        (frontier claim, frontier_limit limits, ''frontier budget''),
        (graph_hops claim, graph_hops_limit limits, ''graph hop budget''),
        (model_attempts claim, model_attempts_limit limits, ''model attempt budget''),
        (snapshot_ttl_millis claim, snapshot_ttl_limit limits, ''snapshot TTL'')])))"

text \<open>The body of the loop of \<open>validate_workspace\<close> over the leases, with the running byte total.\<close>

definition validate_lease ::
    "string \<Rightarrow> resource_limits \<Rightarrow> u64 \<Rightarrow> string \<times> active_lease \<Rightarrow> u64 \<Rightarrow> security_error + u64" where
  "validate_lease ws limits now = (\<lambda>(rid, lease) used.
     rbind (validate_claim (lease_claim lease) limits) (\<lambda>_.
     rbind (rguard (\<not> (workspace_id (lease_claim lease) \<noteq> ws \<or> request_id (lease_claim lease) \<noteq> rid))
       (IntegrityFailure ''admission partition identity mismatch'')) (\<lambda>_.
     rbind (rguard (\<not> (expires_at_millis lease \<le> admitted_at_millis lease \<or>
           checked_add_word (admitted_at_millis lease) (snapshot_ttl_millis (lease_claim lease))
             \<noteq> Some (expires_at_millis lease) \<or>
           expires_at_millis lease \<le> now))
       (IntegrityFailure ''admission lease timing is invalid or expired'')) (\<lambda>_.
     ok_or (ResourceExhausted ''workspace in-flight byte overflow'')
       (checked_add_word used (input_bytes (lease_claim lease)))))))"

definition validate_workspace ::
    "string \<Rightarrow> workspace \<Rightarrow> resource_limits \<Rightarrow> u64 \<Rightarrow> security_error + unit" where
  "validate_workspace ws leases limits now =
     rbind (require_label ws ''workspace_id'') (\<lambda>_.
     rbind (ok_or (ResourceExhausted ''workspace request count overflow'') (u64_of_usize (length leases)))
       (\<lambda>active_count.
     rbind (rguard (\<not> concurrent_requests limits < active_count)
       (ResourceExhausted ''workspace concurrent request quota'')) (\<lambda>_.
     rbind (rfold (validate_lease ws limits now) leases 0) (\<lambda>active_bytes.
     rguard (\<not> inflight_bytes limits < active_bytes)
       (ResourceExhausted ''workspace in-flight byte quota'')))))"

section \<open>The controller\<close>

definition is_live :: "u64 \<Rightarrow> string \<times> active_lease \<Rightarrow> bool" where
  "is_live now e \<longleftrightarrow> now < expires_at_millis (snd e)"

definition reap_expired :: "u64 \<Rightarrow> admission_controller \<Rightarrow> security_error + admission_controller" where
  "reap_expired now c =
     rbind (rguard (\<not> now < last_observed_millis c)
       (IntegrityFailure ''admission logical time regressed'')) (\<lambda>_.
     Inr \<lparr>active = filter (\<lambda>(_, leases). leases \<noteq> [])
            (map (\<lambda>(ws, leases). (ws, filter (is_live now) leases)) (active c)),
          last_observed_millis = now\<rparr>)"

text \<open>The closure of the \<open>try_fold\<close> over the leases of a workspace.\<close>

definition add_lease_bytes :: "string \<times> active_lease \<Rightarrow> u64 \<Rightarrow> security_error + u64" where
  "add_lease_bytes e used =
     ok_or (ResourceExhausted ''workspace in-flight byte overflow'')
       (checked_add_word used (input_bytes (lease_claim (snd e))))"

text \<open>
  The decision of \<open>admit\<close> on the leases of the claim's workspace: \<open>None\<close> for an exact replay, or
  the lease to insert.
\<close>

definition admit_lease ::
    "resource_claim \<Rightarrow> resource_limits \<Rightarrow> u64 \<Rightarrow> workspace \<Rightarrow> security_error + active_lease option" where
  "admit_lease claim limits now leases =
     rbind (validate_workspace (workspace_id claim) leases limits now) (\<lambda>_.
     case bt_get leases (request_id claim) of
       Some existing \<Rightarrow>
         if lease_claim existing = claim then Inr None
         else Inl (InvalidInput ''admission request ID was reused with a different resource claim'')
     | None \<Rightarrow>
         rbind (rguard (\<not> concurrent_requests limits \<le>
             (case u64_of_usize (length leases) of None \<Rightarrow> - 1 | Some n \<Rightarrow> n))
           (ResourceExhausted ''workspace concurrent request quota'')) (\<lambda>_.
         rbind (rfold add_lease_bytes leases 0) (\<lambda>active_bytes.
         rbind (rguard (case checked_add_word active_bytes (input_bytes claim) of
               None \<Rightarrow> False | Some used \<Rightarrow> \<not> inflight_bytes limits < used)
           (ResourceExhausted ''workspace in-flight byte quota'')) (\<lambda>_.
         rbind (ok_or (ResourceExhausted ''admission lease overflow'')
             (checked_add_word now (snapshot_ttl_millis claim))) (\<lambda>expires.
         Inr (Some \<lparr>lease_claim = claim, admitted_at_millis = now, expires_at_millis = expires\<rparr>))))))"

text \<open>
  \<open>active.entry(ws).or_default()\<close>: the leases of a workspace, and the partition written through
  the reference.
\<close>

definition leases_of :: "admission_controller \<Rightarrow> string \<Rightarrow> workspace" where
  "leases_of c ws = (case bt_get (active c) ws of None \<Rightarrow> [] | Some w \<Rightarrow> w)"

definition set_workspace :: "string \<Rightarrow> workspace \<Rightarrow> admission_controller \<Rightarrow> admission_controller" where
  "set_workspace ws w c = c\<lparr>active := bt_insert ws w (active c)\<rparr>"

definition admit ::
    "resource_claim \<Rightarrow> resource_limits \<Rightarrow> u64 \<Rightarrow> admission_controller
      \<Rightarrow> admission_controller \<times> (security_error + unit)" where
  "admit claim limits now c =
     (case reap_expired now c of
        Inl e \<Rightarrow> (c, Inl e)
      | Inr c1 \<Rightarrow>
          (case validate_claim claim limits of
             Inl e \<Rightarrow> (c1, Inl e)
           | Inr _ \<Rightarrow>
               let ws = workspace_id claim; leases = leases_of c1 ws
               in (case admit_lease claim limits now leases of
                     Inl e \<Rightarrow> (set_workspace ws leases c1, Inl e)
                   | Inr None \<Rightarrow> (set_workspace ws leases c1, Inr ())
                   | Inr (Some lease) \<Rightarrow>
                       (set_workspace ws (bt_insert (request_id claim) lease leases) c1, Inr ()))))"

definition admission_release ::
    "string \<Rightarrow> string \<Rightarrow> admission_controller \<Rightarrow> security_error + admission_controller" where
  "admission_release ws rid c =
     rbind (ok_or (InvalidInput ''unknown admission workspace'') (bt_get (active c) ws)) (\<lambda>leases.
     rbind (rguard (bt_contains leases rid) (InvalidInput ''unknown admitted request'')) (\<lambda>_.
     let rest = bt_remove rid leases
     in Inr (c\<lparr>active := if rest = [] then bt_remove ws (active c) else bt_insert ws rest (active c)\<rparr>)))"

definition active_request_ids ::
    "string \<Rightarrow> u64 \<Rightarrow> admission_controller \<Rightarrow> security_error + (admission_controller \<times> string btree_set)" where
  "active_request_ids ws now c =
     rbind (reap_expired now c) (\<lambda>c1.
     Inr (c1, case bt_get (active c1) ws of None \<Rightarrow> [] | Some leases \<Rightarrow> map fst leases))"

definition admission_validate ::
    "resource_limits \<Rightarrow> u64 \<Rightarrow> admission_controller \<Rightarrow> security_error + unit" where
  "admission_validate limits now c =
     rbind (validate_limits limits) (\<lambda>_.
     rbind (rguard (\<not> now < last_observed_millis c)
       (IntegrityFailure ''admission logical time regressed'')) (\<lambda>_.
     rall (\<lambda>(ws, leases). validate_workspace ws leases limits now) (active c)))"

definition admission_to_json ::
    "(admission_controller \<Rightarrow> bytes option) \<Rightarrow> resource_limits \<Rightarrow> u64 \<Rightarrow> admission_controller
      \<Rightarrow> security_error + bytes" where
  "admission_to_json js limits now c =
     rbind (admission_validate limits now c) (\<lambda>_.
     rbind (ok_or Serialization (js c)) (\<lambda>b.
     rbind (rguard (\<not> MAX_ADMISSION_STATE_BYTES < length b)
       (ResourceExhausted ''serialized admission state exceeds byte budget'')) (\<lambda>_.
     Inr b)))"

definition from_json_bounded ::
    "(bytes \<Rightarrow> admission_controller option) \<Rightarrow> bytes \<Rightarrow> resource_limits \<Rightarrow> u64
      \<Rightarrow> security_error + admission_controller" where
  "from_json_bounded parse b limits now =
     rbind (rguard (\<not> (b = [] \<or> MAX_ADMISSION_STATE_BYTES < length b))
       (ResourceExhausted ''serialized admission state exceeds byte budget'')) (\<lambda>_.
     rbind (ok_or Serialization (parse b)) (\<lambda>wire.
     rbind (reap_expired now wire) (\<lambda>c.
     rbind (admission_validate limits now c) (\<lambda>_.
     Inr c))))"

text \<open>The calls of a host that uses one limit profile, and their effect on the controller.\<close>

datatype admission_call =
    Admit resource_claim u64
  | Release string string
  | ActiveIds string u64

fun admission_step :: "resource_limits \<Rightarrow> admission_call \<Rightarrow> admission_controller \<Rightarrow> admission_controller" where
  "admission_step limits (Admit claim now) c = fst (admit claim limits now c)"
| "admission_step limits (Release ws rid) c =
     (case admission_release ws rid c of Inl _ \<Rightarrow> c | Inr c' \<Rightarrow> c')"
| "admission_step limits (ActiveIds ws now) c =
     (case active_request_ids ws now c of Inl _ \<Rightarrow> c | Inr (c', _) \<Rightarrow> c')"

section \<open>What the controller promises\<close>

definition live_leases :: "u64 \<Rightarrow> admission_controller \<Rightarrow> string \<Rightarrow> workspace" where
  "live_leases now c ws = filter (is_live now) (leases_of c ws)"

definition total_bytes :: "workspace \<Rightarrow> nat" where
  "total_bytes leases = (\<Sum>e\<leftarrow>leases. unat (input_bytes (lease_claim (snd e))))"

definition lease_ok :: "resource_limits \<Rightarrow> u64 \<Rightarrow> string \<Rightarrow> string \<times> active_lease \<Rightarrow> bool" where
  "lease_ok limits now ws e \<longleftrightarrow>
     validate_claim (lease_claim (snd e)) limits = Inr () \<and>
     workspace_id (lease_claim (snd e)) = ws \<and> request_id (lease_claim (snd e)) = fst e \<and>
     admitted_at_millis (snd e) < expires_at_millis (snd e) \<and>
     checked_add_word (admitted_at_millis (snd e)) (snapshot_ttl_millis (lease_claim (snd e)))
       = Some (expires_at_millis (snd e)) \<and>
     now < expires_at_millis (snd e)"

definition workspace_ok :: "resource_limits \<Rightarrow> u64 \<Rightarrow> string \<Rightarrow> workspace \<Rightarrow> bool" where
  "workspace_ok limits now ws leases \<longleftrightarrow>
     bt_ok leases \<and> require_label ws ''workspace_id'' = Inr () \<and>
     length leases \<le> unat (concurrent_requests limits) \<and>
     total_bytes leases \<le> unat (inflight_bytes limits) \<and>
     (\<forall>e \<in> set leases. lease_ok limits now ws e)"

text \<open>The invariant; no lease was admitted in the future of the controller's clock.\<close>

definition admission_ok :: "resource_limits \<Rightarrow> admission_controller \<Rightarrow> bool" where
  "admission_ok limits c \<longleftrightarrow>
     validate_limits limits = Inr () \<and> bt_ok (active c) \<and>
     (\<forall>(ws, leases) \<in> set (active c).
        workspace_ok limits (last_observed_millis c) ws leases \<and>
        (\<forall>e \<in> set leases. admitted_at_millis (snd e) \<le> last_observed_millis c))"

section \<open>Validation decides the invariant\<close>

lemma total_bytes_simps [simp]:
  "total_bytes [] = 0"
  "total_bytes (e # es) = unat (input_bytes (lease_claim (snd e))) + total_bytes es"
  by (simp_all add: total_bytes_def)

lemma checked_add_word_Some_iff:
  "checked_add_word a b = Some c \<longleftrightarrow> unat a + unat b < 2 ^ LENGTH('a) \<and> unat c = unat a + unat b"
  for a b c :: "'a::len word"
  by (auto simp: checked_add_word_def word_unat_eq_iff unat_word_ariths)

lemma validate_lease_Inr_iff:
  "validate_lease ws L now e t = Inr t' \<longleftrightarrow>
     lease_ok L now ws e \<and> checked_add_word t (input_bytes (lease_claim (snd e))) = Some t'"
  by (cases e) (auto simp: validate_lease_def lease_ok_def not_le)

text \<open>A fold of checked additions: it succeeds exactly when the sum fits, and returns it.\<close>

lemma rfold_checked_sum:
  fixes g :: "'e \<Rightarrow> u64"
  assumes f: "\<And>e t t'. f e t = Inr t' \<longleftrightarrow> P e \<and> checked_add_word t (g e) = Some t'"
  shows "rfold f es s = Inr t \<longleftrightarrow>
     (\<forall>e \<in> set es. P e) \<and> unat s + (\<Sum>e\<leftarrow>es. unat (g e)) < 2 ^ 64 \<and> unat t = unat s + (\<Sum>e\<leftarrow>es. unat (g e))"
proof (induction es arbitrary: s)
  case Nil
  show ?case using unsigned_less [of s, where 'a = nat] by (auto simp: word_unat_eq_iff)
next
  case (Cons e es)
  show ?case
  proof (cases "checked_add_word s (g e)")
    case None
    then have "\<not> unat s + unat (g e) < 2 ^ 64" by (auto simp: checked_add_word_def split: if_splits)
    moreover have "\<not> rfold f (e # es) s = Inr t" using None f by auto
    ultimately show ?thesis by simp
  next
    case (Some x)
    then have x: "unat x = unat s + unat (g e)" by (rule unat_checked_add)
    have "rfold f (e # es) s = Inr t \<longleftrightarrow> P e \<and> rfold f es x = Inr t" using Some f by auto
    then show ?thesis using x by (auto simp: Cons.IH add.assoc)
  qed
qed

lemma rfold_bytes_Inr_iff:
  "rfold add_lease_bytes es s = Inr t \<longleftrightarrow>
     unat s + total_bytes es < 2 ^ 64 \<and> unat t = unat s + total_bytes es"
  using rfold_checked_sum [where f = add_lease_bytes and P = "\<lambda>_. True" and es = es and s = s and t = t
      and g = "\<lambda>e. input_bytes (lease_claim (snd e))"]
  by (simp add: add_lease_bytes_def total_bytes_def)

lemma rfold_validate_Inr_iff:
  "rfold (validate_lease ws L now) es s = Inr t \<longleftrightarrow>
     (\<forall>e \<in> set es. lease_ok L now ws e) \<and> unat s + total_bytes es < 2 ^ 64 \<and> unat t = unat s + total_bytes es"
  unfolding total_bytes_def by (rule rfold_checked_sum) (rule validate_lease_Inr_iff)

lemma validate_workspace_Inr_iff:
  assumes "bt_ok leases"
  shows "validate_workspace ws leases L now = Inr u \<longleftrightarrow> workspace_ok L now ws leases"
proof -
  have conc: "unat (concurrent_requests L) < 2 ^ 64" and infl: "unat (inflight_bytes L) < 2 ^ 64"
    using unsigned_less [of "concurrent_requests L", where 'a = nat]
      unsigned_less [of "inflight_bytes L", where 'a = nat] by simp_all
  have count: "(\<exists>n. u64_of_usize (length leases) = Some n \<and> n \<le> concurrent_requests L) \<longleftrightarrow>
      length leases \<le> unat (concurrent_requests L)"
    using conc by (auto simp: u64_of_usize_def word_le_nat_alt unat_of_nat)
  have used: "(\<exists>t. rfold (validate_lease ws L now) leases 0 = Inr t \<and> t \<le> inflight_bytes L) \<longleftrightarrow>
      (\<forall>e \<in> set leases. lease_ok L now ws e) \<and> total_bytes leases \<le> unat (inflight_bytes L)"
  proof
    assume r: "(\<forall>e \<in> set leases. lease_ok L now ws e) \<and> total_bytes leases \<le> unat (inflight_bytes L)"
    then have "rfold (validate_lease ws L now) leases 0 = Inr (of_nat (total_bytes leases))"
      using infl by (simp add: rfold_validate_Inr_iff unat_of_nat)
    moreover have "(of_nat (total_bytes leases) :: u64) \<le> inflight_bytes L"
      using r infl by (simp add: word_le_nat_alt unat_of_nat)
    ultimately show "\<exists>t. rfold (validate_lease ws L now) leases 0 = Inr t \<and> t \<le> inflight_bytes L"
      by blast
  qed (auto simp: rfold_validate_Inr_iff word_le_nat_alt)
  show ?thesis
    using assms count used by (auto simp: validate_workspace_def workspace_ok_def not_less)
qed

lemma admission_validate_iff:
  assumes "bt_ok (active c)" and "\<And>ws leases. (ws, leases) \<in> set (active c) \<Longrightarrow> bt_ok leases"
  shows "admission_validate L now c = Inr u \<longleftrightarrow>
     validate_limits L = Inr () \<and> last_observed_millis c \<le> now \<and>
     (\<forall>(ws, leases) \<in> set (active c). workspace_ok L now ws leases)"
  using assms by (auto simp: admission_validate_def validate_workspace_Inr_iff not_less split_beta)

lemma admission_ok_default: "validate_limits L = Inr () \<Longrightarrow> admission_ok L admission_default"
  by (simp add: admission_ok_def admission_default_def)

section \<open>Reaping\<close>

lemma total_bytes_filter: "total_bytes (filter P es) \<le> total_bytes es"
  by (induction es) auto

lemma workspace_ok_filter:
  assumes "workspace_ok L now ws leases" and "\<And>e. e \<in> set leases \<Longrightarrow> P e \<Longrightarrow> is_live now' e"
  shows "workspace_ok L now' ws (filter P leases)"
proof -
  have "length (filter P leases) \<le> unat (concurrent_requests L)"
      "total_bytes (filter P leases) \<le> unat (inflight_bytes L)"
    using assms(1) length_filter_le [of P leases] total_bytes_filter [of P leases]
    unfolding workspace_ok_def by linarith+
  moreover have "lease_ok L now' ws e" if "e \<in> set leases" "P e" for e
    using that assms by (auto simp: workspace_ok_def lease_ok_def is_live_def)
  ultimately show ?thesis
    using assms(1) by (auto simp: workspace_ok_def intro: bt_ok_filter)
qed

lemma map_of_reaped:
  "distinct (map fst m) \<Longrightarrow>
     map_of (filter (\<lambda>(_, l). l \<noteq> []) (map (\<lambda>(k, l). (k, f l)) m)) k =
       (case map_of m k of None \<Rightarrow> None | Some l \<Rightarrow> if f l = [] then None else Some (f l))"
proof (induction m)
  case (Cons e m)
  obtain a l where e: "e = (a, l)" by (cases e)
  have "map_of m a = None" using Cons.prems by (simp add: e map_of_eq_None_iff)
  then show ?case using Cons by (cases "k = a") (simp_all add: e)
qed simp

lemma reap_observed: "reap_expired now c = Inr c' \<Longrightarrow> last_observed_millis c' = now \<and> last_observed_millis c \<le> now"
  by (auto simp: reap_expired_def not_less)

lemma reap_leases_of:
  assumes "reap_expired now c = Inr c'" and "bt_ok (active c)"
  shows "leases_of c' ws = live_leases now c ws"
  using assms
  by (auto simp: reap_expired_def leases_of_def live_leases_def map_of_reaped bt_ok_distinct split: option.split if_splits)

lemma reap_admission_ok:
  assumes "reap_expired now c = Inr c'" and ok: "admission_ok L c"
  shows "admission_ok L c'"
proof -
  have le: "last_observed_millis c \<le> now" and c': "last_observed_millis c' = now"
      "active c' = filter (\<lambda>(_, l). l \<noteq> []) (map (\<lambda>(ws, l). (ws, filter (is_live now) l)) (active c))"
    using assms(1) by (auto simp: reap_expired_def not_less)
  have "map fst (map (\<lambda>(ws, l). (ws, filter (is_live now) l)) (active c)) = map fst (active c)"
    by (simp add: case_prod_beta)
  then have "bt_ok (active c')"
    using ok by (simp only: c' admission_ok_def bt_ok_def [of "map _ _"] bt_ok_def [of "active c"] bt_ok_filter)
  moreover have "workspace_ok L now ws leases \<and> (\<forall>e \<in> set leases. admitted_at_millis (snd e) \<le> now)"
    if "(ws, leases) \<in> set (active c')" for ws leases
  proof -
    from that obtain all where "leases = filter (is_live now) all" "(ws, all) \<in> set (active c)"
      by (auto simp: c')
    moreover from this have "workspace_ok L (last_observed_millis c) ws all"
        "\<forall>e \<in> set all. admitted_at_millis (snd e) \<le> last_observed_millis c"
      using ok by (auto simp: admission_ok_def)
    ultimately show ?thesis using le by (auto intro: workspace_ok_filter order_trans)
  qed
  ultimately show ?thesis using ok by (auto simp: admission_ok_def c'(1))
qed

section \<open>Admission\<close>

lemma bt_insert_new_length: "bt_get m k = None \<Longrightarrow> length (bt_insert k v m) = Suc (length m)"
  by (induction k v m rule: bt_insert.induct) (auto split: if_splits)

lemma bt_insert_new_bytes:
  "bt_get m k = None \<Longrightarrow> total_bytes (bt_insert k v m) = unat (input_bytes (lease_claim v)) + total_bytes m"
  by (induction k v m rule: bt_insert.induct) (auto split: if_splits)

lemma admission_ok_workspace:
  "admission_ok L c \<Longrightarrow> bt_get (active c) ws = Some w \<Longrightarrow> workspace_ok L (last_observed_millis c) ws w"
  using map_of_SomeD by (fastforce simp: admission_ok_def)

lemma admission_ok_leases:
  assumes "admission_ok L c"
  shows "bt_ok (leases_of c ws)"
    and "length (leases_of c ws) \<le> unat (concurrent_requests L)"
    and "total_bytes (leases_of c ws) \<le> unat (inflight_bytes L)"
    and "e \<in> set (leases_of c ws) \<Longrightarrow> lease_ok L (last_observed_millis c) ws e"
    and "e \<in> set (leases_of c ws) \<Longrightarrow> admitted_at_millis (snd e) \<le> last_observed_millis c"
proof -
  show "bt_ok (leases_of c ws)" "length (leases_of c ws) \<le> unat (concurrent_requests L)"
      "total_bytes (leases_of c ws) \<le> unat (inflight_bytes L)"
      "e \<in> set (leases_of c ws) \<Longrightarrow> lease_ok L (last_observed_millis c) ws e"
    using admission_ok_workspace [OF assms, of ws]
    by (cases "bt_get (active c) ws"; simp add: leases_of_def workspace_ok_def)+
  show "e \<in> set (leases_of c ws) \<Longrightarrow> admitted_at_millis (snd e) \<le> last_observed_millis c"
    using assms by (cases "bt_get (active c) ws") (auto simp: leases_of_def admission_ok_def dest!: map_of_SomeD)
qed

text \<open>Replacing one workspace by a valid one keeps the invariant.\<close>

lemma admission_ok_enter:
  assumes "admission_ok L c" and "workspace_ok L (last_observed_millis c) ws w"
    and "\<And>e. e \<in> set w \<Longrightarrow> admitted_at_millis (snd e) \<le> last_observed_millis c"
  shows "admission_ok L (set_workspace ws w c)"
  using assms by (auto simp: admission_ok_def set_workspace_def intro: bt_ok_insert dest!: bt_insert_mem)

lemma admission_ok_workspace_of:
  assumes "admission_ok L c" and "require_label ws ''workspace_id'' = Inr ()"
  shows "workspace_ok L (last_observed_millis c) ws (leases_of c ws)"
  using assms admission_ok_leases [OF assms(1)] by (simp add: workspace_ok_def)

lemma leases_of_enter [simp]:
  "leases_of (set_workspace ws w c) ws' = (if ws' = ws then w else leases_of c ws')"
  "last_observed_millis (set_workspace ws w c) = last_observed_millis c"
  by (simp_all add: leases_of_def set_workspace_def)

text \<open>The decision on a workspace in order, every check of the code written as a comparison of numbers.\<close>

lemma admit_lease_eq:
  assumes ok: "workspace_ok L now (workspace_id claim) leases"
  shows "admit_lease claim L now leases =
     (case bt_get leases (request_id claim) of
        Some existing \<Rightarrow>
          if lease_claim existing = claim then Inr None
          else Inl (InvalidInput ''admission request ID was reused with a different resource claim'')
      | None \<Rightarrow>
          if unat (concurrent_requests L) \<le> length leases
          then Inl (ResourceExhausted ''workspace concurrent request quota'')
          else if unat (inflight_bytes L) < total_bytes leases + unat (input_bytes claim)
          then Inl (ResourceExhausted ''workspace in-flight byte quota'')
          else if 2 ^ 64 \<le> unat now + unat (snapshot_ttl_millis claim)
          then Inl (ResourceExhausted ''admission lease overflow'')
          else Inr (Some \<lparr>lease_claim = claim, admitted_at_millis = now,
                      expires_at_millis = now + snapshot_ttl_millis claim\<rparr>))"
proof -
  have conc: "unat (concurrent_requests L) < 2 ^ 64" and infl: "unat (inflight_bytes L) < 2 ^ 64"
    using unsigned_less [of "concurrent_requests L", where 'a = nat]
      unsigned_less [of "inflight_bytes L", where 'a = nat] by simp_all
  have len: "length leases < 2 ^ 64" and total: "total_bytes leases < 2 ^ 64"
    using ok conc infl by (auto simp: workspace_ok_def)
  have v: "validate_workspace (workspace_id claim) leases L now = Inr ()"
    using ok by (simp add: validate_workspace_Inr_iff workspace_ok_def)
  have count: "concurrent_requests L \<le> (case u64_of_usize (length leases) of None \<Rightarrow> - 1 | Some n \<Rightarrow> n) \<longleftrightarrow>
      unat (concurrent_requests L) \<le> length leases"
    using len by (simp add: u64_of_usize_def word_le_nat_alt unat_of_nat)
  have sum: "rfold add_lease_bytes leases 0 = Inr (of_nat (total_bytes leases))"
    using total by (simp add: rfold_bytes_Inr_iff unat_of_nat)
  have quota: "(case checked_add_word (of_nat (total_bytes leases)) (input_bytes claim) of
        None \<Rightarrow> False | Some used \<Rightarrow> \<not> inflight_bytes L < used) \<longleftrightarrow>
      \<not> unat (inflight_bytes L) < total_bytes leases + unat (input_bytes claim)"
    using total infl
    by (auto simp: checked_add_word_def unat_of_nat word_less_nat_alt unat_word_ariths)
  have expiry: "checked_add_word now (snapshot_ttl_millis claim) =
      (if 2 ^ 64 \<le> unat now + unat (snapshot_ttl_millis claim) then None
       else Some (now + snapshot_ttl_millis claim))"
    by (simp add: checked_add_word_def)
  show ?thesis
    by (simp add: admit_lease_def v count sum quota expiry split: option.split)
qed

lemma workspace_ok_insert:
  assumes ok: "workspace_ok L now ws leases" and new: "bt_get leases rid = None"
    and "lease_ok L now ws (rid, lease)"
    and "length leases < unat (concurrent_requests L)"
    and "total_bytes leases + unat (input_bytes (lease_claim lease)) \<le> unat (inflight_bytes L)"
  shows "workspace_ok L now ws (bt_insert rid lease leases)"
  using assms
  by (auto simp: workspace_ok_def bt_insert_new_length bt_insert_new_bytes intro: bt_ok_insert dest!: bt_insert_mem)

lemma lease_ok_new:
  assumes "validate_claim claim L = Inr ()" and "unat now + unat (snapshot_ttl_millis claim) < 2 ^ 64"
  shows "lease_ok L now (workspace_id claim)
     (request_id claim, \<lparr>lease_claim = claim, admitted_at_millis = now,
                          expires_at_millis = now + snapshot_ttl_millis claim\<rparr>)"
proof -
  have "0 < unat (snapshot_ttl_millis claim)"
    using assms(1) by (auto simp: validate_claim_def unat_gt_0)
  then have "now < now + snapshot_ttl_millis claim"
    using assms(2) by (simp add: word_less_nat_alt unat_word_ariths)
  then show ?thesis using assms by (simp add: lease_ok_def checked_add_word_def)
qed

text \<open>The complete effect of \<open>admit\<close>, in terms of the leases that are live at the time of the call.\<close>

lemma admit_regressed:
  "now < last_observed_millis c \<Longrightarrow>
     admit claim L now c = (c, Inl (IntegrityFailure ''admission logical time regressed''))"
  by (simp add: admit_def reap_expired_def)

lemma admit_observed: "last_observed_millis (fst (admit claim L now c)) = max now (last_observed_millis c)"
proof (cases "reap_expired now c")
  case (Inl e)
  then have "now < last_observed_millis c" by (simp add: reap_expired_def rbind_Inl_iff)
  then show ?thesis by (simp add: admit_regressed max_absorb2 less_imp_le)
next
  case (Inr c1)
  then show ?thesis
    using reap_observed [OF Inr]
    by (simp add: admit_def Let_def max_absorb1 split: sum.split option.split)
qed

lemma reap_obtain:
  assumes "admission_ok L c" and "last_observed_millis c \<le> now"
  obtains c1 where "reap_expired now c = Inr c1" "admission_ok L c1" "last_observed_millis c1 = now"
    "leases_of c1 = live_leases now c"
proof -
  obtain c1 where c1: "reap_expired now c = Inr c1"
    using assms(2) by (simp add: reap_expired_def not_less)
  show thesis
  proof (rule that [OF c1])
    show "leases_of c1 = live_leases now c"
      using reap_leases_of [OF c1] assms(1) by (auto simp: admission_ok_def)
  qed (use reap_admission_ok [OF c1 assms(1)] reap_observed [OF c1] in simp_all)
qed

lemma admit_eq:
  assumes "reap_expired now c = Inr c1" and "leases_of c1 = live_leases now c"
  shows "admit claim L now c =
       (case validate_claim claim L of Inl e \<Rightarrow> (c1, Inl e)
        | Inr _ \<Rightarrow>
          (let ws = workspace_id claim; leases = live_leases now c ws
           in (case admit_lease claim L now leases of
                Inl e \<Rightarrow> (set_workspace ws leases c1, Inl e)
              | Inr None \<Rightarrow> (set_workspace ws leases c1, Inr ())
              | Inr (Some lease) \<Rightarrow>
                  (set_workspace ws (bt_insert (request_id claim) lease leases) c1, Inr ()))))"
  by (cases "validate_claim claim L") (simp_all add: admit_def assms Let_def split: sum.split option.split)

lemma admit_lease_new:
  assumes w: "workspace_ok L now (workspace_id claim) w" and claim: "validate_claim claim L = Inr ()"
    and decided: "admit_lease claim L now w = Inr (Some lease)"
  shows "workspace_ok L now (workspace_id claim) (bt_insert (request_id claim) lease w)"
    and "admitted_at_millis lease = now"
proof -
  have new: "bt_get w (request_id claim) = None" "length w < unat (concurrent_requests L)"
      "total_bytes w + unat (input_bytes claim) \<le> unat (inflight_bytes L)"
      "unat now + unat (snapshot_ttl_millis claim) < 2 ^ 64"
    and lease: "lease = \<lparr>lease_claim = claim, admitted_at_millis = now,
      expires_at_millis = now + snapshot_ttl_millis claim\<rparr>"
    using decided by (auto simp: admit_lease_eq [OF w] split: option.splits if_splits)
  show "workspace_ok L now (workspace_id claim) (bt_insert (request_id claim) lease w)"
    using workspace_ok_insert [OF w new(1), of lease] lease_ok_new [OF claim new(4)] new(2,3)
    by (simp add: lease)
  show "admitted_at_millis lease = now" by (simp add: lease)
qed

lemma admit_admission_ok:
  assumes ok: "admission_ok L c"
  shows "admission_ok L (fst (admit claim L now c)) \<and>
         last_observed_millis c \<le> last_observed_millis (fst (admit claim L now c))"
proof (cases "now < last_observed_millis c")
  case True
  then show ?thesis using ok by (simp add: admit_regressed)
next
  case False
  then have time: "last_observed_millis c \<le> now" by simp
  obtain c1 where c1: "reap_expired now c = Inr c1" "admission_ok L c1" "last_observed_millis c1 = now"
      "leases_of c1 = live_leases now c"
    by (rule reap_obtain [OF ok time])
  let ?ws = "workspace_id claim"
  let ?w = "live_leases now c ?ws"
  show ?thesis
  proof (cases "validate_claim claim L = Inr ()")
    case False
    then have "fst (admit claim L now c) = c1"
      by (simp add: admit_eq [OF c1(1,4)] split: sum.split)
    then show ?thesis using c1 time by simp
  next
    case claim: True
    then have label: "require_label ?ws ''workspace_id'' = Inr ()" by (simp add: validate_claim_def)
    have w: "workspace_ok L now ?ws ?w" "\<forall>e \<in> set ?w. admitted_at_millis (snd e) \<le> now"
      using admission_ok_workspace_of [OF c1(2) label] admission_ok_leases(5) [OF c1(2), of _ ?ws] c1(3,4)
      by simp_all
    have "\<exists>w'. fst (admit claim L now c) = set_workspace ?ws w' c1 \<and>
        (w' = ?w \<or> (\<exists>l. admit_lease claim L now ?w = Inr (Some l) \<and> w' = bt_insert (request_id claim) l ?w))"
      using claim by (auto simp: admit_eq [OF c1(1,4)] Let_def split: sum.split option.split)
    then obtain w' where w': "fst (admit claim L now c) = set_workspace ?ws w' c1"
        "w' = ?w \<or> (\<exists>l. admit_lease claim L now ?w = Inr (Some l) \<and> w' = bt_insert (request_id claim) l ?w)"
      by blast
    then have "workspace_ok L now ?ws w' \<and> (\<forall>e \<in> set w'. admitted_at_millis (snd e) \<le> now)"
      using w admit_lease_new [OF w(1) claim] by (force dest: bt_insert_mem)
    then show ?thesis
      using admission_ok_enter [OF c1(2), of ?ws w'] c1(3) w'(1) time by simp
  qed
qed

section \<open>The other calls\<close>

lemma release_leases_of:
  assumes "admission_release ws rid c = Inr c'"
  shows "leases_of c' ws' = (if ws' = ws then bt_remove rid (leases_of c ws) else leases_of c ws')"
    and "last_observed_millis c' = last_observed_millis c"
  using assms by (auto simp: admission_release_def Let_def leases_of_def)

lemma release_admission_ok:
  assumes "admission_release ws rid c = Inr c'" and ok: "admission_ok L c"
  shows "admission_ok L c'"
proof -
  obtain leases where leases: "bt_get (active c) ws = Some leases"
    and c': "c' = c\<lparr>active := if bt_remove rid leases = [] then bt_remove ws (active c)
                        else bt_insert ws (bt_remove rid leases) (active c)\<rparr>"
    using assms(1) by (auto simp: admission_release_def Let_def)
  have w: "workspace_ok L (last_observed_millis c) ws leases"
    by (rule admission_ok_workspace [OF ok leases])
  have "workspace_ok L (last_observed_millis c) ws (bt_remove rid leases)"
    unfolding bt_remove_def
    by (rule workspace_ok_filter [OF w]) (use w in \<open>auto simp: workspace_ok_def lease_ok_def is_live_def\<close>)
  moreover have "admitted_at_millis (snd e) \<le> last_observed_millis c" if "e \<in> set (bt_remove rid leases)" for e
    using that admission_ok_leases(5) [OF ok, of e ws] leases by (simp add: bt_remove_def leases_of_def)
  ultimately have "admission_ok L (set_workspace ws (bt_remove rid leases) c)"
    by (rule admission_ok_enter [OF ok])
  moreover have "admission_ok L (c\<lparr>active := bt_remove ws (active c)\<rparr>)"
    using ok by (auto simp: admission_ok_def bt_remove_def intro: bt_ok_filter)
  ultimately show ?thesis by (simp add: c' set_workspace_def)
qed

lemma admission_step_ok:
  assumes "admission_ok L c"
  shows "admission_ok L (admission_step L call c) \<and>
         last_observed_millis c \<le> last_observed_millis (admission_step L call c)"
proof (cases call)
  case (Admit claim now)
  then show ?thesis using admit_admission_ok [OF assms] by simp
next
  case (Release ws rid)
  then show ?thesis
    using assms release_admission_ok [OF _ assms] release_leases_of(2) by (auto split: sum.split)
next
  case (ActiveIds ws now)
  then show ?thesis
    using assms reap_admission_ok [OF _ assms] reap_observed
    by (auto simp: active_request_ids_def split: sum.split)
qed

interpretation admission: guarded_machine "admission_step L" "admission_ok L"
    "\<lambda>c c'. last_observed_millis c \<le> last_observed_millis c'" for L
  by unfold_locales (use admission_step_ok in auto)

section \<open>Properties\<close>

definition demo_claim :: resource_claim where
  "demo_claim = \<lparr>request_id = ''request-1'', workspace_id = ''alice'', input_bytes = 4096, candidates = 10,
     frontier = 10, graph_hops = 2, model_attempts = 1, snapshot_ttl_millis = 1000\<rparr>"

text \<open>The states a controller reaches under one valid limit profile.\<close>

definition admission_run :: "resource_limits \<Rightarrow> admission_call list \<Rightarrow> admission_controller" where
  "admission_run L calls = fold (admission_step L) calls admission_default"

lemma admission_run_ok: "validate_limits L = Inr () \<Longrightarrow> admission_ok L (admission_run L calls)"
  unfolding admission_run_def by (rule admission.run_inv [OF admission_ok_default])

lemma lease_lifetime:
  assumes "admission_ok L c" and "e \<in> set (leases_of c ws)"
  shows "unat (expires_at_millis (snd e)) \<le> unat (last_observed_millis c) + unat (snapshot_ttl_limit L)"
proof -
  have e: "lease_ok L (last_observed_millis c) ws e" "admitted_at_millis (snd e) \<le> last_observed_millis c"
    using admission_ok_leases(4,5) [OF assms(1)] assms(2) by auto
  have "unat (expires_at_millis (snd e)) =
      unat (admitted_at_millis (snd e)) + unat (snapshot_ttl_millis (lease_claim (snd e)))"
    using e(1) by (auto simp: lease_ok_def dest: unat_checked_add)
  moreover have "snapshot_ttl_millis (lease_claim (snd e)) \<le> snapshot_ttl_limit L"
    using e(1) by (simp add: lease_ok_def validate_claim_def not_less)
  ultimately show ?thesis using e(2) by (simp add: word_le_nat_alt)
qed

text \<open>C19. The admission controller never exceeds its quotas: after any sequence of calls under one
  valid limit profile, in every workspace the admitted requests are at most
  \<open>concurrent_requests\<close>, their input bytes sum to at most \<open>inflight_bytes\<close> as numbers (no sum wraps
  around), each lease is within the per-request limits and unexpired at the last observed time, and
  the controller's own deep validation accepts the state.\<close>

theorem admission_quotas_hold:
  assumes "validate_limits L = Inr ()" and "c = admission_run L calls"
  shows "admission_validate L (last_observed_millis c) c = Inr () \<and>
     length (leases_of c ws) \<le> unat (concurrent_requests L) \<and>
     (\<Sum>e\<leftarrow>leases_of c ws. unat (input_bytes (lease_claim (snd e)))) \<le> unat (inflight_bytes L) \<and>
     (\<forall>(rid, l) \<in> set (leases_of c ws). validate_claim (lease_claim l) L = Inr () \<and>
        request_id (lease_claim l) = rid \<and> workspace_id (lease_claim l) = ws \<and>
        last_observed_millis c < expires_at_millis l)"
proof (intro conjI)
  have ok: "admission_ok L c" unfolding assms(2) by (rule admission_run_ok [OF assms(1)])
  have "bt_ok leases" if "(w, leases) \<in> set (active c)" for w leases
    using ok that by (auto simp: admission_ok_def workspace_ok_def)
  then show "admission_validate L (last_observed_millis c) c = Inr ()"
    using ok by (subst admission_validate_iff) (auto simp: admission_ok_def)
  show "length (leases_of c ws) \<le> unat (concurrent_requests L)"
    by (rule admission_ok_leases [OF ok])
  show "(\<Sum>e\<leftarrow>leases_of c ws. unat (input_bytes (lease_claim (snd e)))) \<le> unat (inflight_bytes L)"
    using admission_ok_leases(3) [OF ok] by (simp add: total_bytes_def)
  show "\<forall>(rid, l) \<in> set (leases_of c ws). validate_claim (lease_claim l) L = Inr () \<and>
      request_id (lease_claim l) = rid \<and> workspace_id (lease_claim l) = ws \<and>
      last_observed_millis c < expires_at_millis l"
    using admission_ok_leases(4) [OF ok] by (auto simp: lease_ok_def)
qed

theorem admission_quotas_hold_witness:
  "validate_limits resource_limits_default = Inr () \<and>
   admission_validate resource_limits_default
     (last_observed_millis (admission_run resource_limits_default [Admit demo_claim 10, Release ''alice'' ''request-2'']))
     (admission_run resource_limits_default [Admit demo_claim 10, Release ''alice'' ''request-2'']) = Inr () \<and>
   length (leases_of (admission_run resource_limits_default [Admit demo_claim 10, Release ''alice'' ''request-2'']) ''alice'') \<le> 32"
proof -
  have "validate_limits resource_limits_default = Inr ()"
    by (simp add: validate_limits_def resource_limits_default_def)
  with admission_quotas_hold [OF this refl, where calls = "[Admit demo_claim 10, Release ''alice'' ''request-2'']"]
  show ?thesis by (simp add: resource_limits_default_def)
qed

lemma admit_decision:
  assumes ok: "admission_ok L c" and time: "last_observed_millis c \<le> now" and r: "admit claim L now c = (c', r)"
  shows "r = Inr () \<longleftrightarrow> validate_claim claim L = Inr () \<and>
           (case bt_get (live_leases now c (workspace_id claim)) (request_id claim) of
              Some l \<Rightarrow> lease_claim l = claim
            | None \<Rightarrow>
                length (live_leases now c (workspace_id claim)) < unat (concurrent_requests L) \<and>
                total_bytes (live_leases now c (workspace_id claim)) + unat (input_bytes claim) \<le> unat (inflight_bytes L) \<and>
                unat now + unat (snapshot_ttl_millis claim) < 2 ^ 64)" (is "_ \<longleftrightarrow> ?accept")
    and "leases_of c' ws =
           (if r = Inr () \<and> ws = workspace_id claim \<and> bt_get (live_leases now c ws) (request_id claim) = None
            then bt_insert (request_id claim)
                   \<lparr>lease_claim = claim, admitted_at_millis = now, expires_at_millis = now + snapshot_ttl_millis claim\<rparr>
                   (live_leases now c ws)
            else live_leases now c ws)"
proof -
  obtain c1 where c1: "reap_expired now c = Inr c1" "admission_ok L c1" "last_observed_millis c1 = now"
      "leases_of c1 = live_leases now c"
    by (rule reap_obtain [OF ok time])
  let ?ws = "workspace_id claim"
  let ?w = "live_leases now c ?ws"
  have w: "workspace_ok L now ?ws ?w" if "validate_claim claim L = Inr ()"
    using admission_ok_workspace_of [OF c1(2), of ?ws] c1(3,4) that by (simp add: validate_claim_def)
  show "r = Inr () \<longleftrightarrow> ?accept"
  proof (cases "validate_claim claim L = Inr ()")
    case True
    then show ?thesis
      using r admit_lease_eq [OF w [OF True]]
      by (auto simp: admit_eq [OF c1(1,4)] Let_def not_le not_less split: option.splits if_splits)
  next
    case False
    then show ?thesis using r by (auto simp: admit_eq [OF c1(1,4)] split: sum.splits)
  qed
  show "leases_of c' ws =
      (if r = Inr () \<and> ws = ?ws \<and> bt_get (live_leases now c ws) (request_id claim) = None
       then bt_insert (request_id claim)
              \<lparr>lease_claim = claim, admitted_at_millis = now, expires_at_millis = now + snapshot_ttl_millis claim\<rparr>
              (live_leases now c ws)
       else live_leases now c ws)"
  proof (cases "validate_claim claim L = Inr ()")
    case True
    then show ?thesis
      using r admit_lease_eq [OF w [OF True]] c1(4)
      by (auto simp: admit_eq [OF c1(1,4)] Let_def split: option.splits if_splits)
  next
    case False
    then show ?thesis using r c1(4) by (auto simp: admit_eq [OF c1(1,4)] split: sum.splits)
  qed
qed

text \<open>C20. The exact decision of \<open>admit\<close>: at a time that does not regress, a claim is admitted
  exactly when it is valid under the limits and either replays a live request with the same claim,
  or its request identity is free, the workspace has a free slot, the byte quota holds with the
  claim added, and its expiry does not overflow. A new lease is the only change besides dropping
  what has expired, in every workspace.\<close>

theorem admission_decision_exact:
  assumes "validate_limits L = Inr ()" and "c = admission_run L calls" and "last_observed_millis c \<le> now"
    and "admit claim L now c = (c', r)"
  shows "(r = Inr () \<longleftrightarrow> validate_claim claim L = Inr () \<and>
      (case bt_get (live_leases now c (workspace_id claim)) (request_id claim) of
         Some l \<Rightarrow> lease_claim l = claim
       | None \<Rightarrow>
           length (live_leases now c (workspace_id claim)) < unat (concurrent_requests L) \<and>
           total_bytes (live_leases now c (workspace_id claim)) + unat (input_bytes claim) \<le> unat (inflight_bytes L) \<and>
           unat now + unat (snapshot_ttl_millis claim) < 2 ^ 64)) \<and>
    (\<forall>ws. leases_of c' ws =
       (if r = Inr () \<and> ws = workspace_id claim \<and> bt_get (live_leases now c ws) (request_id claim) = None
        then bt_insert (request_id claim)
               \<lparr>lease_claim = claim, admitted_at_millis = now, expires_at_millis = now + snapshot_ttl_millis claim\<rparr>
               (live_leases now c ws)
        else live_leases now c ws))"
  using admit_decision [OF admission_run_ok [OF assms(1)], of calls now claim c' r] assms(2-4) by blast

theorem admission_decision_exact_witness:
  "\<exists>c'. admit demo_claim resource_limits_default 10 (admission_run resource_limits_default []) = (c', Inr ()) \<and>
     leases_of c' ''alice'' =
       [(''request-1'', \<lparr>lease_claim = demo_claim, admitted_at_millis = 10, expires_at_millis = 1010\<rparr>)]"
proof -
  let ?c = "admission_run resource_limits_default []"
  have limits: "validate_limits resource_limits_default = Inr ()"
    by (simp add: validate_limits_def resource_limits_default_def)
  have c: "?c = admission_default" by (simp add: admission_run_def)
  have claim: "validate_claim demo_claim resource_limits_default = Inr ()" by code_simp
  obtain c' r where r: "admit demo_claim resource_limits_default 10 ?c = (c', r)" by fastforce
  have "last_observed_millis ?c \<le> 10" "live_leases 10 ?c ws = []" for ws
    by (simp_all add: c admission_default_def live_leases_def leases_of_def)
  with admission_decision_exact [OF limits refl this(1) r] claim r show ?thesis
    by (simp add: demo_claim_def resource_limits_default_def)
qed

text \<open>C21. A blocked workspace recovers without any release: whatever the calls so far, once the
  clock has advanced by the snapshot lifetime limit, every lease has expired and each valid claim
  is admitted, provided its own expiry does not overflow the clock. Leaked leases cannot starve a
  workspace.\<close>

theorem admission_recovers:
  assumes "validate_limits L = Inr ()" and "c = admission_run L calls" and "validate_claim claim L = Inr ()"
    and "unat (last_observed_millis c) + unat (snapshot_ttl_limit L) \<le> unat now"
    and "unat now + unat (snapshot_ttl_millis claim) < 2 ^ 64"
  shows "snd (admit claim L now c) = Inr ()"
proof -
  have ok: "admission_ok L c" unfolding assms(2) by (rule admission_run_ok [OF assms(1)])
  have time: "last_observed_millis c \<le> now" using assms(4) by (simp add: word_le_nat_alt)
  have "\<not> is_live now e" if "e \<in> set (leases_of c ws)" for e ws
    using lease_lifetime [OF ok that] assms(4) by (simp add: is_live_def not_less word_le_nat_alt)
  then have none: "live_leases now c ws = []" for ws by (simp add: live_leases_def filter_empty_conv)
  have L: "0 < unat (concurrent_requests L)" "unat (request_bytes L) \<le> unat (inflight_bytes L)"
    using assms(1) by (auto simp: validate_limits_def unat_gt_0 not_less word_le_nat_alt)
  moreover have "unat (input_bytes claim) \<le> unat (request_bytes L)"
    using assms(3) by (simp add: validate_claim_def not_less word_le_nat_alt)
  ultimately show ?thesis
    using admit_decision(1) [OF ok time surjective_pairing [of "admit claim L now c"]] assms(3,5) none by simp
qed

theorem admission_recovers_witness:
  "snd (admit demo_claim resource_limits_default 300000
     (admission_run resource_limits_default [Admit demo_claim 0, Admit (demo_claim\<lparr>request_id := ''b''\<rparr>) 0])) = Inr ()"
proof -
  let ?calls = "[Admit demo_claim 0, Admit (demo_claim\<lparr>request_id := ''b''\<rparr>) 0]"
  have limits: "validate_limits resource_limits_default = Inr ()"
    by (simp add: validate_limits_def resource_limits_default_def)
  have claim: "validate_claim demo_claim resource_limits_default = Inr ()" by code_simp
  have "last_observed_millis (admission_run resource_limits_default ?calls) = 0"
    by (simp add: admission_run_def admit_observed admission_default_def)
  then show ?thesis
    by (intro admission_recovers [OF limits refl claim]) (simp_all add: resource_limits_default_def demo_claim_def)
qed

text \<open>
  The JSON of a controller, as \<open>serde_json\<close> promises it: an object is never the empty string, and
  parsing a serialised controller gives it back.
\<close>

definition admission_codec ::
    "(admission_controller \<Rightarrow> bytes option) \<Rightarrow> (bytes \<Rightarrow> admission_controller option) \<Rightarrow> bool" where
  "admission_codec js parse \<longleftrightarrow> (\<forall>c b. js c = Some b \<longrightarrow> b \<noteq> [] \<and> parse b = Some c)"

lemma reap_validates:
  assumes "admission_ok L c" and "reap_expired now c = Inr c1"
  shows "admission_validate L now c1 = Inr ()"
proof -
  have c1: "admission_ok L c1" "last_observed_millis c1 = now"
    using reap_admission_ok [OF assms(2,1)] reap_observed [OF assms(2)] by simp_all
  have "bt_ok leases" if "(w, leases) \<in> set (active c1)" for w leases
    using c1(1) that by (auto simp: admission_ok_def workspace_ok_def)
  then show ?thesis using c1 by (subst admission_validate_iff) (auto simp: admission_ok_def)
qed

text \<open>
  A crash checkpoint of the admission state restores exactly the leases that are still
  live: a checkpoint written at any time is accepted at any later time, and the restored controller
  is the one the running host would have after dropping expired leases at that time.
\<close>

theorem admission_checkpoint_roundtrip:
  assumes "admission_codec js parse" and "validate_limits L = Inr ()" and "c = admission_run L calls"
    and "admission_to_json js L now c = Inr b" and "now \<le> now'"
  shows "\<exists>c'. from_json_bounded parse b L now' = Inr c' \<and> reap_expired now' c = Inr c' \<and>
    (\<forall>ws. leases_of c' ws = live_leases now' c ws)"
proof -
  have ok: "admission_ok L c" unfolding assms(3) by (rule admission_run_ok [OF assms(2)])
  have b: "js c = Some b" "length b \<le> MAX_ADMISSION_STATE_BYTES" "last_observed_millis c \<le> now"
    using assms(4) by (auto simp: admission_to_json_def admission_validate_def not_less)
  then have parsed: "b \<noteq> []" "parse b = Some c" using assms(1) by (auto simp: admission_codec_def)
  have "last_observed_millis c \<le> now'" using b(3) assms(5) by simp
  then obtain c1 where c1: "reap_expired now' c = Inr c1" "leases_of c1 = live_leases now' c"
    by (rule reap_obtain [OF ok])
  then show ?thesis
    using b(2) parsed reap_validates [OF ok c1(1)] by (auto simp: from_json_bounded_def not_less)
qed

theorem admission_checkpoint_roundtrip_witness:
  "\<exists>js parse c'. admission_codec js parse \<and>
     admission_to_json js resource_limits_default 10 (admission_run resource_limits_default [ActiveIds ''a'' 5]) = Inr [1] \<and>
     from_json_bounded parse [1] resource_limits_default 20 = Inr c' \<and> last_observed_millis c' = 20"
proof -
  let ?c = "admission_run resource_limits_default [ActiveIds ''a'' 5]"
  let ?js = "\<lambda>c. if c = ?c then Some [1] else None" and ?parse = "\<lambda>b. Some ?c"
  have codec: "admission_codec ?js ?parse" by (simp add: admission_codec_def)
  have limits: "validate_limits resource_limits_default = Inr ()"
    by (simp add: validate_limits_def resource_limits_default_def)
  have c: "?c = \<lparr>active = [], last_observed_millis = 5\<rparr>"
    by (simp add: admission_run_def admission_default_def active_request_ids_def reap_expired_def)
  have json: "admission_to_json ?js resource_limits_default 10 ?c = Inr [1]"
    using limits by (simp add: admission_to_json_def admission_validate_def c MAX_ADMISSION_STATE_BYTES_def)
  have "(10 :: u64) \<le> 20" by simp
  from admission_checkpoint_roundtrip [OF codec limits refl json this] obtain c' where
    "from_json_bounded ?parse [1] resource_limits_default 20 = Inr c'" "reap_expired 20 ?c = Inr c'" by blast
  then show ?thesis using codec json reap_observed by blast
qed

end
