(* ===== verification/Security_Policy.thy ===== *)
theory Security_Policy
  imports Security_Base
begin

text \<open>
  The live policy overlay of \<open>crates/contextdb-security/src/policy.rs\<close>: the current deny set with
  its transition history, signed checkpoints of the overlay, authorisation before candidate
  generation, and the merge of a live overlay into a restored database. Times are only compared,
  so an \<open>i64\<close> is an \<open>int\<close>. The canonical JSON of an overlay and of an unsigned checkpoint are the
  functions of the record \<open>policy_json\<close>.
\<close>

section \<open>Transitions, overlays and checkpoints\<close>

datatype live_deny_reason = HardDelete | ConsentRevoked | Suppressed | RetentionExpired | SecurityQuarantine

text \<open>The \<open>Debug\<close> name of a reason.\<close>

fun reason_name :: "live_deny_reason \<Rightarrow> string" where
  "reason_name HardDelete = ''HardDelete''"
| "reason_name ConsentRevoked = ''ConsentRevoked''"
| "reason_name Suppressed = ''Suppressed''"
| "reason_name RetentionExpired = ''RetentionExpired''"
| "reason_name SecurityQuarantine = ''SecurityQuarantine''"

record live_policy_transition =
  tr_generation :: u64
  tr_identity :: string
  tr_reason :: "live_deny_reason option"
  tr_policy_digest :: string
  tr_at_micros :: int

type_synonym deny_map = "(string, live_deny_reason) btree_map"

record live_policy_overlay =
  database_id :: string
  workspace_id :: string
  generation :: u64
  denied :: deny_map
  transitions :: "live_policy_transition list"

record unsigned_policy_checkpoint =
  uc_database_id :: string
  uc_workspace_id :: string
  uc_generation :: u64
  uc_overlay_digest :: string
  uc_signing_key_id :: string
  uc_signing_key_generation :: u64

record live_policy_checkpoint = unsigned_policy_checkpoint +
  uc_signature :: bytes

record policy_json =
  overlay_json :: "live_policy_overlay \<Rightarrow> bytes option"
  checkpoint_json :: "unsigned_policy_checkpoint \<Rightarrow> bytes option"

definition LIVE_POLICY_CHECKPOINT_DOMAIN :: bytes where
  "LIVE_POLICY_CHECKPOINT_DOMAIN = str_bytes ''contextdb/live-policy-checkpoint/v1'' @ [0]"

section \<open>Validation\<close>

text \<open>
  One step of the loop of \<open>validate\<close>: the state is the reconstructed deny set and the time of the
  previous transition.
\<close>

definition validate_transition ::
    "nat \<times> live_policy_transition \<Rightarrow> deny_map \<times> int option \<Rightarrow> security_error + (deny_map \<times> int option)" where
  "validate_transition = (\<lambda>(index, t) (reconstructed, previous_time).
     rbind (ok_or (ResourceExhausted ''live policy generation overflow'')
       (Option.bind (u64_of_usize index) (\<lambda>v. checked_add_word v 1))) (\<lambda>expected.
     rbind (require_label (tr_identity t) ''live_policy.identity'') (\<lambda>_.
     rbind (require_digest (tr_policy_digest t) ''live_policy.policy_digest'') (\<lambda>_.
     rbind (rguard (\<not> (tr_generation t \<noteq> expected \<or>
           (case previous_time of None \<Rightarrow> False | Some time \<Rightarrow> tr_at_micros t < time)))
       (IntegrityFailure ''live policy transition ordering is invalid'')) (\<lambda>_.
     case tr_reason t of
       Some reason \<Rightarrow>
         rbind (rguard (\<not> (bt_get reconstructed (tr_identity t) = Some HardDelete \<and> reason \<noteq> HardDelete))
           (IntegrityFailure ''live policy history weakens a hard deletion'')) (\<lambda>_.
         Inr (bt_insert (tr_identity t) reason reconstructed, Some (tr_at_micros t)))
     | None \<Rightarrow>
         rbind (rguard (\<not> (bt_get reconstructed (tr_identity t) = Some HardDelete \<or>
             bt_get reconstructed (tr_identity t) = None))
           (IntegrityFailure ''live policy contains an invalid release'')) (\<lambda>_.
         Inr (bt_remove (tr_identity t) reconstructed, Some (tr_at_micros t))))))))"

definition overlay_validate :: "live_policy_overlay \<Rightarrow> security_error + unit" where
  "overlay_validate o1 =
     rbind (require_label (database_id o1) ''live_policy.database_id'') (\<lambda>_.
     rbind (require_label (workspace_id o1) ''live_policy.workspace_id'') (\<lambda>_.
     rbind (ok_or (ResourceExhausted ''live policy generation overflow'')
       (u64_of_usize (length (transitions o1)))) (\<lambda>expected_generation.
     rbind (rguard (generation o1 = expected_generation)
       (IntegrityFailure ''live policy generation does not match transition history'')) (\<lambda>_.
     rbind (rfold validate_transition (enumerate 0 (transitions o1)) ([], None)) (\<lambda>(reconstructed, _).
     rguard (reconstructed = denied o1)
       (IntegrityFailure ''live policy current state does not match transition history''))))))"

definition overlay_new :: "string \<Rightarrow> string \<Rightarrow> security_error + live_policy_overlay" where
  "overlay_new db ws =
     (let o1 = \<lparr>database_id = db, workspace_id = ws, generation = 0, denied = [], transitions = []\<rparr>
      in rbind (overlay_validate o1) (\<lambda>_. Inr o1))"

text \<open>\<open>Deserialize\<close> admits only what \<open>validate\<close> accepts; the parsed fields are its argument.\<close>

definition overlay_deserialize :: "live_policy_overlay \<Rightarrow> security_error + live_policy_overlay" where
  "overlay_deserialize unchecked = rbind (overlay_validate unchecked) (\<lambda>_. Inr unchecked)"

definition denied_identities :: "live_policy_overlay \<Rightarrow> string btree_set" where
  "denied_identities o1 = map fst (denied o1)"

section \<open>Denying and releasing\<close>

definition require_monotonic_time :: "live_policy_overlay \<Rightarrow> int \<Rightarrow> security_error + unit" where
  "require_monotonic_time o1 at_micros =
     rguard (\<not> (transitions o1 \<noteq> [] \<and> at_micros < tr_at_micros (last (transitions o1))))
       (IntegrityFailure ''live policy transition time regressed'')"

text \<open>\<open>transitions.iter().rev().find(..)\<close>: the newest transition of an identity.\<close>

definition last_transition :: "string \<Rightarrow> live_policy_overlay \<Rightarrow> live_policy_transition option" where
  "last_transition identity o1 = find (\<lambda>t. tr_identity t = identity) (rev (transitions o1))"

text \<open>The exact-replay test of \<open>deny\<close> and \<open>release\<close>.\<close>

definition replays :: "live_policy_overlay \<Rightarrow> string \<Rightarrow> live_deny_reason option \<Rightarrow> string \<Rightarrow> int \<Rightarrow> bool" where
  "replays o1 identity reason policy_digest at_micros =
     (case last_transition identity o1 of
        None \<Rightarrow> False
      | Some t \<Rightarrow> tr_reason t = reason \<and> tr_policy_digest t = policy_digest \<and> tr_at_micros t = at_micros)"

definition push_transition ::
    "live_policy_overlay \<Rightarrow> string \<Rightarrow> live_deny_reason option \<Rightarrow> string \<Rightarrow> int
      \<Rightarrow> security_error + (live_policy_overlay \<times> u64)" where
  "push_transition o1 identity reason policy_digest at_micros =
     rbind (require_monotonic_time o1 at_micros) (\<lambda>_.
     rbind (ok_or (ResourceExhausted ''live policy generation overflow'') (checked_add_word (generation o1) 1)) (\<lambda>g.
     Inr (o1\<lparr>generation := g,
           denied := (case reason of None \<Rightarrow> bt_remove identity (denied o1)
                      | Some r \<Rightarrow> bt_insert identity r (denied o1)),
           transitions := transitions o1 @
             [\<lparr>tr_generation = g, tr_identity = identity, tr_reason = reason,
               tr_policy_digest = policy_digest, tr_at_micros = at_micros\<rparr>]\<rparr>, g)))"

definition deny ::
    "live_policy_overlay \<Rightarrow> string \<Rightarrow> live_deny_reason \<Rightarrow> string \<Rightarrow> int
      \<Rightarrow> security_error + (live_policy_overlay \<times> u64)" where
  "deny o1 identity reason policy_digest at_micros =
     rbind (overlay_validate o1) (\<lambda>_.
     rbind (require_label identity ''live_policy.identity'') (\<lambda>_.
     rbind (require_digest policy_digest ''live_policy.policy_digest'') (\<lambda>_.
     rbind (rguard (\<not> (bt_get (denied o1) identity = Some HardDelete \<and> reason \<noteq> HardDelete))
       (PolicyDenied ''hard-deleted identity cannot be weakened'')) (\<lambda>_.
     if bt_get (denied o1) identity = Some reason \<and> replays o1 identity (Some reason) policy_digest at_micros
     then Inr (o1, generation o1)
     else push_transition o1 identity (Some reason) policy_digest at_micros))))"

definition release ::
    "live_policy_overlay \<Rightarrow> string \<Rightarrow> string \<Rightarrow> int \<Rightarrow> security_error + (live_policy_overlay \<times> u64)" where
  "release o1 identity policy_digest at_micros =
     rbind (overlay_validate o1) (\<lambda>_.
     rbind (require_label identity ''live_policy.identity'') (\<lambda>_.
     rbind (require_digest policy_digest ''live_policy.policy_digest'') (\<lambda>_.
     case bt_get (denied o1) identity of
       None \<Rightarrow>
         if replays o1 identity None policy_digest at_micros then Inr (o1, generation o1)
         else Inl (InvalidInput ''live policy cannot release an identity that is not denied'')
     | Some r \<Rightarrow>
         if r = HardDelete then Inl (PolicyDenied ''hard-deleted identity cannot be released'')
         else push_transition o1 identity None policy_digest at_micros)))"

section \<open>Checkpoints and authorisation\<close>

definition overlay_checkpoint ::
    "crypto \<Rightarrow> policy_json \<Rightarrow> live_policy_overlay \<Rightarrow> backup_signing_key \<Rightarrow> security_error + live_policy_checkpoint" where
  "overlay_checkpoint c js o1 key =
     rbind (overlay_validate o1) (\<lambda>_.
     rbind (canonical_json (overlay_json js) o1) (\<lambda>json.
     let unsigned = \<lparr>uc_database_id = database_id o1, uc_workspace_id = workspace_id o1,
           uc_generation = generation o1, uc_overlay_digest = digest c json,
           uc_signing_key_id = signing_key_id key, uc_signing_key_generation = signing_generation key\<rparr>
     in rbind (canonical_json (checkpoint_json js) unsigned) (\<lambda>payload.
     Inr (unsigned_policy_checkpoint.extend unsigned
       (live_policy_checkpoint.fields (sign_domain c key LIVE_POLICY_CHECKPOINT_DOMAIN payload))))))"

definition verify_checkpoint ::
    "crypto \<Rightarrow> policy_json \<Rightarrow> live_policy_overlay \<Rightarrow> live_policy_checkpoint \<Rightarrow> backup_verifying_key
      \<Rightarrow> security_error + unit" where
  "verify_checkpoint c js o1 cp key =
     rbind (overlay_validate o1) (\<lambda>_.
     rbind (require_label (uc_database_id cp) ''live_policy_checkpoint.database_id'') (\<lambda>_.
     rbind (require_label (uc_workspace_id cp) ''live_policy_checkpoint.workspace_id'') (\<lambda>_.
     rbind (require_digest (uc_overlay_digest cp) ''live_policy_checkpoint.overlay_digest'') (\<lambda>_.
     rbind (canonical_json (overlay_json js) o1) (\<lambda>json.
     rbind (rguard (\<not> (uc_database_id cp \<noteq> database_id o1 \<or> uc_workspace_id cp \<noteq> workspace_id o1 \<or>
           uc_generation cp \<noteq> generation o1 \<or> uc_overlay_digest cp \<noteq> digest c json \<or>
           uc_signing_key_id cp \<noteq> verifying_key_id key \<or>
           uc_signing_key_generation cp \<noteq> verifying_generation key \<or>
           uc_signing_key_generation cp = 0))
       (IntegrityFailure ''live policy checkpoint does not match exact current state'')) (\<lambda>_.
     rbind (canonical_json (checkpoint_json js) (unsigned_policy_checkpoint.truncate cp)) (\<lambda>payload.
     verify_domain c key LIVE_POLICY_CHECKPOINT_DOMAIN payload (uc_signature cp))))))))"

definition authorize_before_candidate ::
    "crypto \<Rightarrow> policy_json \<Rightarrow> live_policy_overlay \<Rightarrow> string \<Rightarrow> u64 \<Rightarrow> live_policy_checkpoint
      \<Rightarrow> backup_verifying_key \<Rightarrow> security_error + unit" where
  "authorize_before_candidate c js o1 identity snapshot_generation cp key =
     rbind (verify_checkpoint c js o1 cp key) (\<lambda>_.
     rbind (require_label identity ''live_policy.identity'') (\<lambda>_.
     case bt_get (denied o1) identity of
       Some reason \<Rightarrow> Inl (PolicyDenied (''live policy denies identity: '' @ reason_name reason))
     | None \<Rightarrow> Inr ()))"

section \<open>Merging into a restored database\<close>

text \<open>The body of the loop of \<open>apply_to_restore\<close>.\<close>

definition apply_transition ::
    "live_policy_transition \<Rightarrow> live_policy_overlay \<Rightarrow> security_error + live_policy_overlay" where
  "apply_transition t candidate =
     (case tr_reason t of
        Some reason \<Rightarrow>
          rbind (deny candidate (tr_identity t) reason (tr_policy_digest t) (tr_at_micros t)) (\<lambda>(o1, _). Inr o1)
      | None \<Rightarrow>
          if bt_get (denied candidate) (tr_identity t) \<noteq> Some HardDelete
          then rbind (release candidate (tr_identity t) (tr_policy_digest t) (tr_at_micros t)) (\<lambda>(o1, _). Inr o1)
          else Inr candidate)"

definition apply_to_restore ::
    "crypto \<Rightarrow> policy_json \<Rightarrow> live_policy_overlay \<Rightarrow> live_policy_overlay \<Rightarrow> live_policy_checkpoint
      \<Rightarrow> backup_verifying_key \<Rightarrow> security_error + live_policy_overlay" where
  "apply_to_restore c js live restored cp key =
     rbind (verify_checkpoint c js live cp key) (\<lambda>_.
     rbind (overlay_validate restored) (\<lambda>_.
     rbind (rguard (\<not> (database_id live \<noteq> database_id restored \<or> workspace_id live \<noteq> workspace_id restored))
       (PolicyDenied ''live policy overlay binding does not match restore target'')) (\<lambda>_.
     rbind (rfold apply_transition (transitions live) restored) (\<lambda>candidate.
     rbind (overlay_validate candidate) (\<lambda>_.
     Inr candidate)))))"

text \<open>The calls that change an overlay, the merge of another overlay into it included.\<close>

datatype policy_call =
    Deny string live_deny_reason string int
  | Free string string int
  | Merge live_policy_overlay live_policy_checkpoint backup_verifying_key

definition policy_step :: "crypto \<Rightarrow> policy_json \<Rightarrow> policy_call \<Rightarrow> live_policy_overlay \<Rightarrow> live_policy_overlay" where
  "policy_step c js call o1 =
     (case (case call of
              Deny i r d t \<Rightarrow> rbind (deny o1 i r d t) (\<lambda>(o2, _). Inr o2)
            | Free i d t \<Rightarrow> rbind (release o1 i d t) (\<lambda>(o2, _). Inr o2)
            | Merge live cp key \<Rightarrow> apply_to_restore c js live o1 cp key) of
        Inl _ \<Rightarrow> o1
      | Inr o2 \<Rightarrow> o2)"

section \<open>Valid histories\<close>

definition effect :: "live_policy_transition \<Rightarrow> deny_map \<Rightarrow> deny_map" where
  "effect t d = (case tr_reason t of None \<Rightarrow> bt_remove (tr_identity t) d | Some r \<Rightarrow> bt_insert (tr_identity t) r d)"

text \<open>A transition that may follow a deny set: it neither weakens a hard deletion nor releases what is not denied.\<close>

definition follows :: "live_policy_transition \<Rightarrow> deny_map \<Rightarrow> bool" where
  "follows t d \<longleftrightarrow>
     (case tr_reason t of
        None \<Rightarrow> bt_get d (tr_identity t) \<noteq> Some HardDelete \<and> bt_get d (tr_identity t) \<noteq> None
      | Some r \<Rightarrow> bt_get d (tr_identity t) = Some HardDelete \<longrightarrow> r = HardDelete)"

definition transition_ok :: "nat \<Rightarrow> live_policy_transition \<Rightarrow> int option \<Rightarrow> bool" where
  "transition_ok i t p \<longleftrightarrow> Suc i < 2 ^ 64 \<and> unat (tr_generation t) = Suc i \<and>
     require_label (tr_identity t) ''live_policy.identity'' = Inr () \<and>
     require_digest (tr_policy_digest t) ''live_policy.policy_digest'' = Inr () \<and>
     (\<forall>time. p = Some time \<longrightarrow> time \<le> tr_at_micros t)"

abbreviation overlay_ok :: "live_policy_overlay \<Rightarrow> bool" where
  "overlay_ok o1 \<equiv> overlay_validate o1 = Inr ()"

lemma validate_transition_Inr_iff:
  "validate_transition (i, t) (d, p) = Inr s \<longleftrightarrow>
     transition_ok i t p \<and> follows t d \<and> s = (effect t d, Some (tr_at_micros t))"
proof -
  have "validate_transition (i, t) (d, p) = Inr s \<longleftrightarrow>
      (\<exists>g. Option.bind (u64_of_usize i) (\<lambda>v. checked_add_word v 1) = Some g \<and> tr_generation t = g) \<and>
      require_label (tr_identity t) ''live_policy.identity'' = Inr () \<and>
      require_digest (tr_policy_digest t) ''live_policy.policy_digest'' = Inr () \<and>
      (\<forall>time. p = Some time \<longrightarrow> time \<le> tr_at_micros t) \<and> follows t d \<and> s = (effect t d, Some (tr_at_micros t))"
    by (cases p; cases "tr_reason t") (auto simp: validate_transition_def follows_def effect_def not_less)
  then show ?thesis unfolding successor_of_usize transition_ok_def by auto
qed

definition last_time :: "live_policy_transition list \<Rightarrow> int option" where
  "last_time ts = (if ts = [] then None else Some (tr_at_micros (last ts)))"

definition history :: "live_policy_transition list \<Rightarrow> security_error + (deny_map \<times> int option)" where
  "history ts = rfold validate_transition (enumerate 0 ts) ([], None)"

lemma history_snoc_Inr_iff:
  "history (ts @ [t]) = Inr s \<longleftrightarrow>
     (\<exists>d p. history ts = Inr (d, p) \<and> transition_ok (length ts) t p \<and> follows t d \<and>
        s = (effect t d, Some (tr_at_micros t)))"
proof -
  have "enumerate 0 (ts @ [t]) = enumerate 0 ts @ [(length ts, t)]"
    by (simp add: enumerate_append_eq)
  then show ?thesis
    by (cases "rfold validate_transition (enumerate 0 ts) ([], None)")
      (auto simp: history_def rfold_append validate_transition_Inr_iff)
qed

lemma history_Nil [simp]: "history [] = Inr ([], None)"
  by (simp add: history_def)

lemma history_state: "history ts = Inr (d, p) \<Longrightarrow> d = fold effect ts [] \<and> p = last_time ts"
proof (induction ts arbitrary: d p rule: rev_induct)
  case (snoc t ts)
  then show ?case by (auto simp: history_snoc_Inr_iff last_time_def)
qed (simp add: last_time_def)

lemma overlay_validate_iff:
  "overlay_validate o1 = Inr u \<longleftrightarrow>
     require_label (database_id o1) ''live_policy.database_id'' = Inr () \<and>
     require_label (workspace_id o1) ''live_policy.workspace_id'' = Inr () \<and>
     length (transitions o1) < 2 ^ 64 \<and> unat (generation o1) = length (transitions o1) \<and>
     history (transitions o1) = Inr (denied o1, last_time (transitions o1))"
proof -
  have "(\<exists>s. history (transitions o1) = Inr s \<and> fst s = denied o1) \<longleftrightarrow>
      history (transitions o1) = Inr (denied o1, last_time (transitions o1))"
  proof (cases "history (transitions o1)")
    case (Inr s)
    then show ?thesis using history_state [of "transitions o1" "fst s" "snd s"] by (cases s) auto
  qed simp
  moreover have "u64_of_usize (length (transitions o1)) = Some (generation o1) \<longleftrightarrow>
      length (transitions o1) < 2 ^ 64 \<and> unat (generation o1) = length (transitions o1)"
    by (rule u64_of_usize_Some_iff)
  moreover have "overlay_validate o1 = Inr u \<longleftrightarrow>
      require_label (database_id o1) ''live_policy.database_id'' = Inr () \<and>
      require_label (workspace_id o1) ''live_policy.workspace_id'' = Inr () \<and>
      u64_of_usize (length (transitions o1)) = Some (generation o1) \<and>
      (\<exists>s. history (transitions o1) = Inr s \<and> fst s = denied o1)"
    unfolding overlay_validate_def history_def by (simp add: case_prod_beta)
  ultimately show ?thesis by simp
qed

lemma bt_ok_effect: "bt_ok d \<Longrightarrow> bt_ok (effect t d)"
  by (auto simp: effect_def intro: btree_intros split: option.split)

lemma bt_ok_effects: "bt_ok d \<Longrightarrow> bt_ok (fold effect ts d)"
  by (induction ts arbitrary: d) (simp_all add: bt_ok_effect)

lemma overlay_ok_denied:
  assumes "overlay_ok o1"
  shows "denied o1 = fold effect (transitions o1) []" and "bt_ok (denied o1)"
proof -
  show d: "denied o1 = fold effect (transitions o1) []"
    using assms history_state unfolding overlay_validate_iff by blast
  show "bt_ok (denied o1)" unfolding d by (rule bt_ok_effects) simp
qed

section \<open>Calls keep the history valid\<close>

text \<open>A new transition that is admissible in the current state extends a valid overlay to a valid one.\<close>

lemma push_transition_ok:
  assumes ok: "overlay_ok o1" and push: "push_transition o1 i r dg at = Inr (o2, g)"
    and label: "require_label i ''live_policy.identity'' = Inr ()"
    and dig: "require_digest dg ''live_policy.policy_digest'' = Inr ()"
    and follows: "\<And>g. follows \<lparr>tr_generation = g, tr_identity = i, tr_reason = r, tr_policy_digest = dg, tr_at_micros = at\<rparr> (denied o1)"
  shows "overlay_ok o2"
    and "bt_get (denied o2) = (bt_get (denied o1))(i := r)"
    and "\<exists>ts. transitions o2 = transitions o1 @ ts"
    and "database_id o2 = database_id o1" and "workspace_id o2 = workspace_id o1"
proof -
  let ?t = "\<lparr>tr_generation = g, tr_identity = i, tr_reason = r, tr_policy_digest = dg, tr_at_micros = at\<rparr>"
  have g: "checked_add_word (generation o1) 1 = Some g"
    and time: "transitions o1 \<noteq> [] \<Longrightarrow> tr_at_micros (last (transitions o1)) \<le> at"
    and o2: "o2 = o1\<lparr>generation := g, denied := effect ?t (denied o1), transitions := transitions o1 @ [?t]\<rparr>"
    using push by (auto simp: push_transition_def require_monotonic_time_def effect_def not_less split: option.split)
  have o1: "require_label (database_id o1) ''live_policy.database_id'' = Inr ()"
      "require_label (workspace_id o1) ''live_policy.workspace_id'' = Inr ()"
      "unat (generation o1) = length (transitions o1)"
      "history (transitions o1) = Inr (denied o1, last_time (transitions o1))"
    using ok unfolding overlay_validate_iff by simp_all
  have len: "Suc (length (transitions o1)) < 2 ^ 64" and ug: "unat g = Suc (length (transitions o1))"
    using unat_checked_add [OF g] o1(3) unsigned_less [of g, where 'a = nat] by simp_all
  have "transition_ok (length (transitions o1)) ?t (last_time (transitions o1))"
    using len ug label dig time by (simp add: transition_ok_def last_time_def)
  then have "history (transitions o2) = Inr (denied o2, last_time (transitions o2))"
    using o1(4) follows [of g] unfolding o2 by (simp add: history_snoc_Inr_iff last_time_def)
  moreover have "length (transitions o2) < 2 ^ 64" "unat (generation o2) = length (transitions o2)"
    using len ug by (simp_all add: o2)
  ultimately show "overlay_ok o2"
    using o1(1,2) unfolding overlay_validate_iff by (simp add: o2)
  show "bt_get (denied o2) = (bt_get (denied o1))(i := r)"
    by (cases r) (simp_all add: o2 effect_def)
qed (use push in \<open>auto simp: push_transition_def\<close>)

text \<open>The order in which an overlay evolves: the history is extended and hard deletions stay.\<close>

definition extends :: "live_policy_overlay \<Rightarrow> live_policy_overlay \<Rightarrow> bool" where
  "extends o1 o2 \<longleftrightarrow> (\<exists>ts. transitions o2 = transitions o1 @ ts) \<and>
     database_id o2 = database_id o1 \<and> workspace_id o2 = workspace_id o1 \<and>
     (\<forall>i. bt_get (denied o1) i = Some HardDelete \<longrightarrow> bt_get (denied o2) i = Some HardDelete)"

lemma extends_refl: "extends o1 o1"
  by (simp add: extends_def)

lemma extends_trans: "extends o1 o2 \<Longrightarrow> extends o2 o3 \<Longrightarrow> extends o1 o3"
  unfolding extends_def by (metis append.assoc)

lemma deny_ok:
  assumes "deny o1 i r dg at = Inr (o2, g)"
  shows "overlay_ok o1" and "overlay_ok o2" and "extends o1 o2"
    and "bt_get (denied o2) = (bt_get (denied o1))(i \<mapsto> r)"
    and "bt_get (denied o1) i = Some HardDelete \<Longrightarrow> r = HardDelete"
proof -
  have pre: "overlay_ok o1" "require_label i ''live_policy.identity'' = Inr ()"
      "require_digest dg ''live_policy.policy_digest'' = Inr ()"
      "bt_get (denied o1) i = Some HardDelete \<longrightarrow> r = HardDelete"
    and cases: "bt_get (denied o1) i = Some r \<and> o2 = o1 \<or> push_transition o1 i (Some r) dg at = Inr (o2, g)"
    using assms by (auto simp: deny_def split: if_splits)
  have "overlay_ok o2 \<and> extends o1 o2 \<and> bt_get (denied o2) = (bt_get (denied o1))(i \<mapsto> r)"
    using cases
  proof
    assume push: "push_transition o1 i (Some r) dg at = Inr (o2, g)"
    have "follows \<lparr>tr_generation = g, tr_identity = i, tr_reason = Some r, tr_policy_digest = dg, tr_at_micros = at\<rparr>
        (denied o1)" for g
      using pre(4) by (simp add: follows_def)
    from push_transition_ok [OF pre(1) push pre(2,3) this] pre(4) show ?thesis
      by (auto simp: extends_def)
  qed (use pre in \<open>auto simp: extends_refl\<close>)
  then show "overlay_ok o2" "extends o1 o2" "bt_get (denied o2) = (bt_get (denied o1))(i \<mapsto> r)" by simp_all
qed (use assms in \<open>auto simp: deny_def\<close>)

lemma release_ok:
  assumes "release o1 i dg at = Inr (o2, g)"
  shows "overlay_ok o1" and "overlay_ok o2" and "extends o1 o2"
    and "bt_get (denied o2) = (bt_get (denied o1))(i := None)"
    and "bt_get (denied o1) i \<noteq> Some HardDelete"
proof -
  have pre: "overlay_ok o1" "require_label i ''live_policy.identity'' = Inr ()"
      "require_digest dg ''live_policy.policy_digest'' = Inr ()" "bt_get (denied o1) i \<noteq> Some HardDelete"
    and cases: "bt_get (denied o1) i = None \<and> o2 = o1 \<or>
      bt_get (denied o1) i \<noteq> None \<and> push_transition o1 i None dg at = Inr (o2, g)"
    using assms by (auto simp: release_def split: if_splits option.splits)
  have "overlay_ok o2 \<and> extends o1 o2 \<and> bt_get (denied o2) = (bt_get (denied o1))(i := None)"
    using cases
  proof
    assume push: "bt_get (denied o1) i \<noteq> None \<and> push_transition o1 i None dg at = Inr (o2, g)"
    then have "follows \<lparr>tr_generation = g, tr_identity = i, tr_reason = None, tr_policy_digest = dg, tr_at_micros = at\<rparr>
        (denied o1)" for g
      using pre(4) by (simp add: follows_def)
    from push_transition_ok [OF pre(1) conjunct2 [OF push] pre(2,3) this] pre(4) show ?thesis
      by (auto simp: extends_def)
  qed (use pre in \<open>auto simp: extends_refl fun_upd_idem\<close>)
  then show "overlay_ok o2" "extends o1 o2" "bt_get (denied o2) = (bt_get (denied o1))(i := None)" by simp_all
  show "overlay_ok o1" "bt_get (denied o1) i \<noteq> Some HardDelete" using pre by simp_all
qed

lemma apply_transition_ok:
  assumes "apply_transition t o1 = Inr o2" and "overlay_ok o1"
  shows "overlay_ok o2" and "extends o1 o2"
    and "bt_get (denied o2) =
      (if tr_reason t = None \<and> bt_get (denied o1) (tr_identity t) = Some HardDelete then bt_get (denied o1)
       else (bt_get (denied o1))(tr_identity t := tr_reason t))"
    and "bt_get (denied o1) (tr_identity t) = Some HardDelete \<Longrightarrow> tr_reason t \<in> {None, Some HardDelete}"
proof -
  have "overlay_ok o2 \<and> extends o1 o2 \<and> bt_get (denied o2) =
      (if tr_reason t = None \<and> bt_get (denied o1) (tr_identity t) = Some HardDelete then bt_get (denied o1)
       else (bt_get (denied o1))(tr_identity t := tr_reason t)) \<and>
      (bt_get (denied o1) (tr_identity t) = Some HardDelete \<longrightarrow> tr_reason t \<in> {None, Some HardDelete})"
  proof (cases "tr_reason t")
    case (Some r)
    then obtain g where "deny o1 (tr_identity t) r (tr_policy_digest t) (tr_at_micros t) = Inr (o2, g)"
      using assms(1) by (auto simp: apply_transition_def)
    from deny_ok [OF this] Some show ?thesis by simp
  next
    case None
    show ?thesis
    proof (cases "bt_get (denied o1) (tr_identity t) = Some HardDelete")
      case True
      then have "o2 = o1" using None assms(1) by (simp add: apply_transition_def)
      then show ?thesis using True None assms(2) by (simp add: extends_refl)
    next
      case False
      then obtain g where "release o1 (tr_identity t) (tr_policy_digest t) (tr_at_micros t) = Inr (o2, g)"
        using None assms(1) by (auto simp: apply_transition_def)
      from release_ok [OF this] None False show ?thesis by simp
    qed
  qed
  then show "overlay_ok o2" "extends o1 o2" "bt_get (denied o2) =
      (if tr_reason t = None \<and> bt_get (denied o1) (tr_identity t) = Some HardDelete then bt_get (denied o1)
       else (bt_get (denied o1))(tr_identity t := tr_reason t))"
    and "bt_get (denied o1) (tr_identity t) = Some HardDelete \<Longrightarrow> tr_reason t \<in> {None, Some HardDelete}"
    by auto
qed

lemma apply_transitions_ok:
  assumes "rfold apply_transition ts o1 = Inr o2" and "overlay_ok o1"
  shows "overlay_ok o2 \<and> extends o1 o2"
  by (rule rfold_invariant [OF assms(1), where P = "\<lambda>o2. overlay_ok o2 \<and> extends o1 o2"])
    (use assms(2) extends_refl apply_transition_ok(1,2) extends_trans in blast)+

lemma apply_to_restore_ok:
  assumes "apply_to_restore c js live o1 cp key = Inr o2"
  shows "overlay_ok o2 \<and> extends o1 o2 \<and> overlay_ok live \<and> overlay_ok o1 \<and>
    rfold apply_transition (transitions live) o1 = Inr o2"
  using assms apply_transitions_ok by (auto simp: apply_to_restore_def verify_checkpoint_def)

lemma policy_step_ok:
  assumes "overlay_ok o1"
  shows "overlay_ok (policy_step c js call o1) \<and> extends o1 (policy_step c js call o1)"
proof (cases "policy_step c js call o1 = o1")
  case False
  then show ?thesis
    using deny_ok release_ok apply_to_restore_ok
    by (cases call) (fastforce simp: policy_step_def split: sum.splits)+
qed (simp add: assms extends_refl)

interpretation policy: guarded_machine "policy_step c js" overlay_ok extends for c js
  by unfold_locales (use policy_step_ok extends_refl extends_trans in blast)+

section \<open>The merge, exactly\<close>

text \<open>An identity that no transition names is in no deny set.\<close>

lemma effects_other: "i \<notin> tr_identity ` set ts \<Longrightarrow> bt_get (fold effect ts d) i = bt_get d i"
proof (induction ts arbitrary: d)
  case (Cons t ts)
  then show ?case by (cases "tr_reason t") (auto simp: effect_def)
qed simp

lemma apply_transitions_exact:
  assumes "history ts = Inr (d, p)" and "rfold apply_transition ts o1 = Inr o2" and "overlay_ok o1"
  shows "bt_get (denied o2) i =
     (if i \<in> tr_identity ` set ts
      then if bt_get (denied o1) i = Some HardDelete then Some HardDelete else bt_get d i
      else bt_get (denied o1) i)"
  using assms
proof (induction ts arbitrary: d p o2 rule: rev_induct)
  case (snoc t ts)
  obtain d' p' where h: "history ts = Inr (d', p')" "follows t d'" "d = effect t d'"
    using snoc.prems(1) by (auto simp: history_snoc_Inr_iff)
  obtain o' where o': "rfold apply_transition ts o1 = Inr o'" "apply_transition t o' = Inr o2"
    using snoc.prems(2) by (auto simp: rfold_append)
  have ok: "overlay_ok o'" using apply_transitions_ok [OF o'(1) snoc.prems(3)] by simp
  note IH = snoc.IH [OF h(1) o'(1) snoc.prems(3)]
  note step = apply_transition_ok(3,4) [OF o'(2) ok]
  show ?case
  proof (cases "i = tr_identity t")
    case False
    then show ?thesis using IH step(1) by (cases "tr_reason t") (auto simp: h(3) effect_def)
  next
    case True
    have none: "bt_get d' i = None" if "i \<notin> tr_identity ` set ts"
      using history_state [OF h(1)] effects_other [OF that, of "[]"] by simp
    show ?thesis
    proof (cases "tr_reason t")
      case (Some r)
      then show ?thesis using True IH step by (auto simp: h(3) effect_def split: if_splits)
    next
      case None
      then show ?thesis
        using True IH step(1) h(2) none by (auto simp: h(3) effect_def follows_def split: if_splits)
    qed
  qed
qed simp

text \<open>A merge that succeeds finds no hard deletion of the target weakened by the live overlay.\<close>

lemma apply_transitions_hard:
  assumes "history ts = Inr (d, p)" and "rfold apply_transition ts o1 = Inr o2" and "overlay_ok o1"
    and hard: "bt_get (denied o1) i = Some HardDelete"
  shows "bt_get d i \<in> {None, Some HardDelete}"
  using assms(1-3)
proof (induction ts arbitrary: d p o2 rule: rev_induct)
  case (snoc t ts)
  obtain d' p' where h: "history ts = Inr (d', p')" "d = effect t d'"
    using snoc.prems(1) by (auto simp: history_snoc_Inr_iff)
  obtain o' where o': "rfold apply_transition ts o1 = Inr o'" "apply_transition t o' = Inr o2"
    using snoc.prems(2) by (auto simp: rfold_append)
  have "overlay_ok o'" "bt_get (denied o') i = Some HardDelete"
    using apply_transitions_ok [OF o'(1) snoc.prems(3)] hard by (auto simp: extends_def)
  then show ?case
    using apply_transition_ok(4) [OF o'(2)] snoc.IH [OF h(1) o'(1) snoc.prems(3)]
    by (cases "i = tr_identity t") (auto simp: h(2) effect_def split: option.splits)
qed simp

section \<open>Merging into a fresh database\<close>

lemma push_transition_succeeds:
  assumes "Suc (unat (generation o1)) < 2 ^ 64" and "\<And>time. last_time (transitions o1) = Some time \<Longrightarrow> time \<le> at"
  obtains o2 g where "push_transition o1 i r dg at = Inr (o2, g)"
    "length (transitions o2) = Suc (length (transitions o1))" "last_time (transitions o2) = Some at"
proof -
  have "checked_add_word (generation o1) 1 = Some (generation o1 + 1)"
    using assms(1) by (simp add: checked_add_word_def)
  moreover have "transitions o1 \<noteq> [] \<Longrightarrow> tr_at_micros (last (transitions o1)) \<le> at"
    using assms(2) [of "tr_at_micros (last (transitions o1))"] by (simp add: last_time_def)
  ultimately show thesis
    using that by (auto simp: push_transition_def require_monotonic_time_def last_time_def not_less)
qed

text \<open>Replaying a valid history onto an overlay without one never fails.\<close>

lemma apply_transitions_fresh:
  assumes "history ts = Inr (d, p)" and "overlay_ok o1" and "transitions o1 = []"
  shows "\<exists>o2. rfold apply_transition ts o1 = Inr o2 \<and> length (transitions o2) \<le> length ts \<and>
    (\<forall>time. last_time (transitions o2) = Some time \<longrightarrow> (\<exists>time'. p = Some time' \<and> time \<le> time'))"
  using assms(1)
proof (induction ts arbitrary: d p rule: rev_induct)
  case Nil
  then show ?case using assms(3) by (simp add: last_time_def)
next
  case (snoc t ts)
  obtain d' p' where h: "history ts = Inr (d', p')" "transition_ok (length ts) t p'" "follows t d'"
      "d = effect t d'" "p = Some (tr_at_micros t)"
    using snoc.prems by (auto simp: history_snoc_Inr_iff)
  obtain o' where o': "rfold apply_transition ts o1 = Inr o'" "length (transitions o') \<le> length ts"
      "\<And>time. last_time (transitions o') = Some time \<Longrightarrow> \<exists>time'. p' = Some time' \<and> time \<le> time'"
    using snoc.IH [OF h(1)] by blast
  have ok: "overlay_ok o'" using apply_transitions_ok [OF o'(1) assms(2)] by simp
  have fresh: "bt_get (denied o1) i = None" for i
    using overlay_ok_denied(1) [OF assms(2)] assms(3) by simp
  have same: "bt_get (denied o') i = bt_get d' i" for i
    using apply_transitions_exact [OF h(1) o'(1) assms(2), of i] fresh [of i]
      history_state [OF h(1)] effects_other [of i ts "[]"] by (cases "i \<in> tr_identity ` set ts") auto
  have "unat (generation o') = length (transitions o')" using ok unfolding overlay_validate_iff by simp
  then have gen: "Suc (unat (generation o')) < 2 ^ 64"
    using o'(2) h(2) by (simp add: transition_ok_def)
  have time: "time \<le> tr_at_micros t" if "last_time (transitions o') = Some time" for time
    using o'(3) [OF that] h(2) by (auto simp: transition_ok_def)
  obtain o2 g where push: "push_transition o' (tr_identity t) (tr_reason t) (tr_policy_digest t) (tr_at_micros t) = Inr (o2, g)"
      "length (transitions o2) = Suc (length (transitions o'))" "last_time (transitions o2) = Some (tr_at_micros t)"
    by (rule push_transition_succeeds [OF gen time])
  have "apply_transition t o' = Inr o2 \<or> apply_transition t o' = Inr o'"
    using ok push(1) h(2,3) same [of "tr_identity t"]
    by (cases "tr_reason t")
      (auto simp: apply_transition_def deny_def release_def transition_ok_def follows_def)
  then show ?case
    using o' push(2,3) time by (auto simp: rfold_append h(5))
qed

section \<open>Checkpoints\<close>

lemma overlay_checkpoint_fields:
  assumes "overlay_checkpoint c js o1 key = Inr cp"
  obtains a b where "overlay_ok o1" "overlay_json js o1 = Some a"
    "checkpoint_json js (unsigned_policy_checkpoint.truncate cp) = Some b"
    "uc_database_id cp = database_id o1" "uc_workspace_id cp = workspace_id o1"
    "uc_generation cp = generation o1" "uc_overlay_digest cp = digest c a"
    "uc_signing_key_id cp = signing_key_id key" "uc_signing_key_generation cp = signing_generation key"
    "uc_signature cp = sign_domain c key LIVE_POLICY_CHECKPOINT_DOMAIN b"
  using assms that
  by (auto simp: overlay_checkpoint_def Let_def unsigned_policy_checkpoint.defs live_policy_checkpoint.defs)

lemma checkpoint_verifies:
  assumes "hash_ok c" and "signing_ok c" and "signing_generation key \<noteq> 0"
    and "overlay_checkpoint c js o1 key = Inr cp"
  shows "verify_checkpoint c js o1 cp (verifying_key c key) = Inr ()"
proof -
  obtain a b where cp: "overlay_ok o1" "overlay_json js o1 = Some a"
    "checkpoint_json js (unsigned_policy_checkpoint.truncate cp) = Some b"
    "uc_database_id cp = database_id o1" "uc_workspace_id cp = workspace_id o1"
    "uc_generation cp = generation o1" "uc_overlay_digest cp = digest c a"
    "uc_signing_key_id cp = signing_key_id key" "uc_signing_key_generation cp = signing_generation key"
    "uc_signature cp = sign_domain c key LIVE_POLICY_CHECKPOINT_DOMAIN b"
    by (rule overlay_checkpoint_fields [OF assms(4)])
  have "require_label (database_id o1) f = Inr ()" "require_label (workspace_id o1) f = Inr ()" for f
    using cp(1) unfolding overlay_validate_iff by (auto intro: require_label_cong)
  then show ?thesis
    using cp assms(3) digest_valid [OF assms(1)] verify_sign_domain [OF assms(2)]
    by (simp add: verify_checkpoint_def canonical_json_def)
qed

lemma checkpoint_binds:
  assumes "overlay_checkpoint c js o1 key = Inr cp" and "verify_checkpoint c js o2 cp vk = Inr ()"
    and "json_inj (overlay_json js)"
  shows "o2 = o1 \<or> (\<exists>a b. overlay_json js o1 = Some a \<and> overlay_json js o2 = Some b \<and> collides c a b)"
proof -
  obtain a where a: "overlay_json js o1 = Some a" "uc_overlay_digest cp = digest c a"
    by (rule overlay_checkpoint_fields [OF assms(1)])
  obtain b where b: "overlay_json js o2 = Some b" "uc_overlay_digest cp = digest c b"
    using assms(2) by (auto simp: verify_checkpoint_def)
  show ?thesis using digest_eq_cases [OF assms(3) a(1) b(1)] a b by metis
qed

section \<open>Properties\<close>

definition demo_overlay :: live_policy_overlay where
  "demo_overlay =
     \<lparr>database_id = ''db'', workspace_id = ''alice'', generation = 2,
      denied = [(''memory-1'', HardDelete), (''memory-2'', Suppressed)],
      transitions =
        [\<lparr>tr_generation = 1, tr_identity = ''memory-1'', tr_reason = Some HardDelete,
          tr_policy_digest = replicate 64 CHR ''a'', tr_at_micros = 100\<rparr>,
         \<lparr>tr_generation = 2, tr_identity = ''memory-2'', tr_reason = Some Suppressed,
          tr_policy_digest = replicate 64 CHR ''b'', tr_at_micros = 200\<rparr>]\<rparr>"

definition demo_policy_json :: policy_json where
  "demo_policy_json = \<lparr>overlay_json = (\<lambda>o1. if o1 = demo_overlay then Some [1] else None),
     checkpoint_json = (\<lambda>_. Some [2])\<rparr>"

lemma demo_labels:
  "require_label ''db'' f = Inr ()" "require_label ''alice'' f = Inr ()"
  "require_label ''memory-1'' f = Inr ()" "require_label ''memory-2'' f = Inr ()"
  "require_label ''memory-3'' f = Inr ()"
  by (simp_all add: require_label_def) code_simp+

lemma demo_digests:
  "require_digest (replicate 64 CHR ''a'') f = Inr ()" "require_digest (replicate 64 CHR ''b'') f = Inr ()"
  by (simp_all add: require_digest_def list_all_iff is_lower_hex_def)

lemma demo_overlay_ok: "overlay_ok demo_overlay"
  unfolding overlay_validate_iff
  by (simp add: demo_overlay_def history_def enumerate_simps validate_transition_Inr_iff transition_ok_def
      follows_def effect_def last_time_def demo_labels demo_digests)

lemma demo_json_inj: "json_inj (overlay_json demo_policy_json)"
  by (simp add: json_inj_def demo_policy_json_def)

lemma demo_checkpoint: "\<exists>cp. overlay_checkpoint demo_crypto demo_policy_json demo_overlay demo_key = Inr cp"
  by (simp add: overlay_checkpoint_def demo_overlay_ok canonical_json_def demo_policy_json_def Let_def)

text \<open>C15. The live overlay only grows: whatever sequence of denials, releases and merges of other
  overlays is applied, failed calls included, the overlay stays valid (its deny set is the one its
  history yields), its history is only extended, and an identity that was hard-deleted stays
  hard-deleted; no call sequence weakens or releases it.\<close>

theorem hard_delete_is_permanent:
  assumes "overlay_validate o1 = Inr ()" and "o2 = fold (policy_step c js) calls o1"
  shows "overlay_validate o2 = Inr () \<and> (\<exists>ts. transitions o2 = transitions o1 @ ts) \<and>
    (\<forall>i. bt_get (denied o1) i = Some HardDelete \<longrightarrow> bt_get (denied o2) i = Some HardDelete)"
  using policy.run_inv [OF assms(1)] policy.run_grows [OF assms(1)] unfolding assms(2) extends_def by blast

theorem hard_delete_is_permanent_witness:
  "overlay_validate demo_overlay = Inr () \<and>
   bt_get (denied (fold (policy_step demo_crypto demo_policy_json)
     [Free ''memory-1'' (replicate 64 CHR ''c'') 300, Deny ''memory-1'' Suppressed (replicate 64 CHR ''c'') 300]
     demo_overlay)) ''memory-1'' = Some HardDelete"
proof -
  have "bt_get (denied demo_overlay) ''memory-1'' = Some HardDelete" by (simp add: demo_overlay_def)
  with hard_delete_is_permanent [OF demo_overlay_ok refl, where calls =
      "[Free ''memory-1'' (replicate 64 CHR ''c'') 300, Deny ''memory-1'' Suppressed (replicate 64 CHR ''c'') 300]"
      and c = demo_crypto and js = demo_policy_json] demo_overlay_ok
  show ?thesis by blast
qed

text \<open>C17. Authorisation follows the checkpointed overlay: with the checkpoint of an overlay, the
  overlay itself authorises exactly the identities it does not deny, whatever the age of the
  snapshot that is read; and any overlay that authorises under that checkpoint, an older one
  restored from a backup for instance, is that overlay, unless the digests of the two canonical
  encodings collide.\<close>

theorem authorization_follows_checkpoint:
  assumes "crypto_ok c" and "json_inj (overlay_json js)" and "signing_key_ok key"
    and "overlay_checkpoint c js o1 key = Inr cp" and "require_label i ''live_policy.identity'' = Inr ()"
  shows "(authorize_before_candidate c js o1 i g cp (verifying_key c key) = Inr () \<longleftrightarrow> bt_get (denied o1) i = None) \<and>
    (\<forall>o2. authorize_before_candidate c js o2 i g cp (verifying_key c key) = Inr () \<longrightarrow>
       o2 = o1 \<or> (\<exists>a b. overlay_json js o1 = Some a \<and> overlay_json js o2 = Some b \<and> collides c a b))"
proof -
  have "verify_checkpoint c js o1 cp (verifying_key c key) = Inr ()"
    using checkpoint_verifies [OF _ _ _ assms(4)] assms(1,3) by (simp add: crypto_ok_def signing_key_ok_def)
  then have "authorize_before_candidate c js o1 i g cp (verifying_key c key) = Inr () \<longleftrightarrow> bt_get (denied o1) i = None"
    using assms(5) by (simp add: authorize_before_candidate_def split: option.split)
  then show ?thesis
    using checkpoint_binds [OF assms(4) _ assms(2)] by (auto simp: authorize_before_candidate_def)
qed

theorem authorization_follows_checkpoint_witness:
  "\<exists>cp. overlay_checkpoint demo_crypto demo_policy_json demo_overlay demo_key = Inr cp \<and>
     authorize_before_candidate demo_crypto demo_policy_json demo_overlay ''memory-3'' 1 cp
       (verifying_key demo_crypto demo_key) = Inr () \<and>
     authorize_before_candidate demo_crypto demo_policy_json demo_overlay ''memory-1'' 1 cp
       (verifying_key demo_crypto demo_key) \<noteq> Inr ()"
proof -
  obtain cp where cp: "overlay_checkpoint demo_crypto demo_policy_json demo_overlay demo_key = Inr cp"
    using demo_checkpoint by blast
  have key: "signing_key_ok demo_key" by code_simp
  have "bt_get (denied demo_overlay) ''memory-3'' = None" "bt_get (denied demo_overlay) ''memory-1'' \<noteq> None"
    by (simp_all add: demo_overlay_def)
  with authorization_follows_checkpoint [OF demo_crypto_ok demo_json_inj key cp demo_labels(5), of 1]
    authorization_follows_checkpoint [OF demo_crypto_ok demo_json_inj key cp demo_labels(3), of 1] cp
  show ?thesis by blast
qed

lemma merge_denied:
  assumes "apply_to_restore c js live restored cp key = Inr r"
  shows "overlay_validate r = Inr ()"
    and "bt_get (denied r) i =
      (if i \<in> tr_identity ` set (transitions live)
       then if bt_get (denied restored) i = Some HardDelete then Some HardDelete else bt_get (denied live) i
       else bt_get (denied restored) i)"
    and "bt_get (denied live) i = Some reason \<Longrightarrow> bt_get (denied r) i = Some reason"
proof -
  have ok: "overlay_ok r" "overlay_ok live" "overlay_ok restored"
    and r: "rfold apply_transition (transitions live) restored = Inr r"
    using apply_to_restore_ok [OF assms] by simp_all
  have h: "history (transitions live) = Inr (denied live, last_time (transitions live))"
    using ok(2) unfolding overlay_validate_iff by simp
  show "overlay_validate r = Inr ()" by (rule ok(1))
  show exact: "bt_get (denied r) i =
      (if i \<in> tr_identity ` set (transitions live)
       then if bt_get (denied restored) i = Some HardDelete then Some HardDelete else bt_get (denied live) i
       else bt_get (denied restored) i)"
    by (rule apply_transitions_exact [OF h r ok(3)])
  show "bt_get (denied r) i = Some reason" if "bt_get (denied live) i = Some reason"
    using exact that apply_transitions_hard [OF h r ok(3), of i]
      effects_other [of i "transitions live" "[]"] overlay_ok_denied(1) [OF ok(2)]
    by (auto split: if_splits)
qed

lemma merge_into_fresh_succeeds:
  assumes "verify_checkpoint c js live cp key = Inr ()"
    and "overlay_new (database_id live) (workspace_id live) = Inr fresh"
  obtains r where "apply_to_restore c js live fresh cp key = Inr r"
proof -
  have live: "overlay_ok live" using assms(1) by (simp add: verify_checkpoint_def)
  have fresh: "overlay_ok fresh" "transitions fresh = []" "database_id fresh = database_id live"
      "workspace_id fresh = workspace_id live" "denied fresh = []"
    using assms(2) by (auto simp: overlay_new_def Let_def)
  have "history (transitions live) = Inr (denied live, last_time (transitions live))"
    using live unfolding overlay_validate_iff by simp
  from apply_transitions_fresh [OF this fresh(1,2)] obtain r where
    r: "rfold apply_transition (transitions live) fresh = Inr r" by blast
  then have "overlay_ok r" using apply_transitions_ok [OF r fresh(1)] by simp
  with r show thesis using assms(1) fresh that by (simp add: apply_to_restore_def)
qed

lemma demo_merge:
  "\<exists>cp fresh r. overlay_new ''db'' ''alice'' = Inr fresh \<and>
     verify_checkpoint demo_crypto demo_policy_json demo_overlay cp (verifying_key demo_crypto demo_key) = Inr () \<and>
     apply_to_restore demo_crypto demo_policy_json demo_overlay fresh cp (verifying_key demo_crypto demo_key) = Inr r"
proof -
  obtain cp where cp: "overlay_checkpoint demo_crypto demo_policy_json demo_overlay demo_key = Inr cp"
    using demo_checkpoint by blast
  have "hash_ok demo_crypto" "signing_ok demo_crypto" "signing_generation demo_key \<noteq> 0"
    using demo_crypto_ok by (simp_all add: crypto_ok_def demo_key_def)
  note v = checkpoint_verifies [OF this cp]
  have "\<exists>fresh. overlay_new ''db'' ''alice'' = Inr fresh"
    by (simp add: overlay_new_def Let_def overlay_validate_iff demo_labels last_time_def)
  then obtain fresh where fresh: "overlay_new ''db'' ''alice'' = Inr fresh" ..
  have "overlay_new (database_id demo_overlay) (workspace_id demo_overlay) = Inr fresh"
    using fresh by (simp add: demo_overlay_def)
  from merge_into_fresh_succeeds [OF v this] obtain r where
    "apply_to_restore demo_crypto demo_policy_json demo_overlay fresh cp (verifying_key demo_crypto demo_key) = Inr r" .
  with fresh v show ?thesis by blast
qed

text \<open>C16. Merging a live overlay into a restored database is exact: an identity the live history
  names ends with the live decision, except that a hard deletion of the restored database stays;
  every other identity keeps its restored decision. In particular every denial of the live overlay
  holds afterwards with its reason, so a backup cannot bring back what was denied after it was
  taken.\<close>

theorem merge_keeps_live_denials:
  assumes "apply_to_restore c js live restored cp key = Inr r"
  shows "overlay_validate r = Inr () \<and>
    (\<forall>i. bt_get (denied r) i =
      (if i \<in> tr_identity ` set (transitions live)
       then if bt_get (denied restored) i = Some HardDelete then Some HardDelete else bt_get (denied live) i
       else bt_get (denied restored) i)) \<and>
    (\<forall>i reason. bt_get (denied live) i = Some reason \<longrightarrow> bt_get (denied r) i = Some reason)"
  using merge_denied [OF assms] by simp

theorem merge_keeps_live_denials_witness:
  "\<exists>cp fresh r. apply_to_restore demo_crypto demo_policy_json demo_overlay fresh cp (verifying_key demo_crypto demo_key) = Inr r \<and>
     bt_get (denied r) ''memory-1'' = Some HardDelete"
proof -
  obtain cp fresh r where
    r: "apply_to_restore demo_crypto demo_policy_json demo_overlay fresh cp (verifying_key demo_crypto demo_key) = Inr r"
    using demo_merge by blast
  have "bt_get (denied demo_overlay) ''memory-1'' = Some HardDelete" by (simp add: demo_overlay_def)
  with merge_keeps_live_denials [OF r] r show ?thesis by blast
qed

text \<open>
  A database restored without any overlay history always accepts the live overlay that
  belongs to it, and then denies exactly what the live overlay denies.
\<close>

theorem merge_into_fresh_database:
  assumes "verify_checkpoint c js live cp key = Inr ()"
    and "overlay_new (database_id live) (workspace_id live) = Inr fresh"
  shows "\<exists>r. apply_to_restore c js live fresh cp key = Inr r \<and> denied r = denied live"
proof -
  obtain r where r: "apply_to_restore c js live fresh cp key = Inr r"
    by (rule merge_into_fresh_succeeds [OF assms])
  have live: "overlay_ok live" using assms(1) by (simp add: verify_checkpoint_def)
  have "denied fresh = []" using assms(2) by (auto simp: overlay_new_def Let_def)
  then have "bt_get (denied r) i = bt_get (denied live) i" for i
    using merge_denied(2) [OF r, of i] effects_other [of i "transitions live" "[]"]
      overlay_ok_denied(1) [OF live] by (cases "i \<in> tr_identity ` set (transitions live)") simp_all
  then have "denied r = denied live"
    using overlay_ok_denied(2) live merge_denied(1) [OF r] by (intro bt_ext) auto
  with r show ?thesis by blast
qed

theorem merge_into_fresh_database_witness:
  "\<exists>cp fresh r. apply_to_restore demo_crypto demo_policy_json demo_overlay fresh cp (verifying_key demo_crypto demo_key) = Inr r \<and>
     denied r = [(''memory-1'', HardDelete), (''memory-2'', Suppressed)]"
proof -
  obtain cp fresh where
    "verify_checkpoint demo_crypto demo_policy_json demo_overlay cp (verifying_key demo_crypto demo_key) = Inr ()"
    "overlay_new (database_id demo_overlay) (workspace_id demo_overlay) = Inr fresh"
    using demo_merge by (auto simp: demo_overlay_def)
  from merge_into_fresh_database [OF this] show ?thesis by (auto simp: demo_overlay_def)
qed

section \<open>Merging into a target that holds the history\<close>


















end
