(* ===== verification/Security_Audit.thy ===== *)
theory Security_Audit
  imports Security_Base
begin

text \<open>
  The signed audit chain of \<open>crates/contextdb-security/src/audit.rs\<close>: content-free events, entries
  linked by digests, verification of a chain, and checkpoints of its head. The canonical JSON of an
  unsigned entry and of an unsigned checkpoint are the functions of the record \<open>audit_json\<close>. Times
  are only compared, so an \<open>i64\<close> is an \<open>int\<close>.
\<close>

section \<open>Events, entries and checkpoints\<close>

definition AUDIT_SIGNATURE_DOMAIN :: bytes where
  "AUDIT_SIGNATURE_DOMAIN = str_bytes ''contextdb/security-audit/v1'' @ [0]"

definition AUDIT_CHECKPOINT_SIGNATURE_DOMAIN :: bytes where
  "AUDIT_CHECKPOINT_SIGNATURE_DOMAIN = str_bytes ''contextdb/security-audit-checkpoint/v1'' @ [0]"

definition GENESIS_DIGEST :: string where
  "GENESIS_DIGEST = replicate 64 CHR ''0''"

datatype audit_action =
  Authorize | ReadEvidence | ModelCall | Export | Restore | Delete | Admin | SecretPolicy | Admission

datatype audit_decision = Allow | Refuse | Degraded

record security_audit_event =
  timestamp_micros :: int
  actor_digest :: string
  agent_digest :: "string option"
  audit_action_of :: audit_action
  resource_class :: string
  purpose :: string
  decision :: audit_decision
  scope_digest :: string
  raw_evidence_access :: bool
  provider_digest :: "string option"
  export_manifest_digest :: "string option"
  event_deletion_id :: "string option"
  trace_id :: string

definition event_validate :: "security_audit_event \<Rightarrow> security_error + unit" where
  "event_validate ev =
     rbind (require_digest (actor_digest ev) ''actor_digest'') (\<lambda>_.
     rbind (require_opt (\<lambda>v. require_digest v ''agent_digest'') (agent_digest ev)) (\<lambda>_.
     rbind (require_label (resource_class ev) ''resource_class'') (\<lambda>_.
     rbind (require_label (purpose ev) ''purpose'') (\<lambda>_.
     rbind (require_digest (scope_digest ev) ''scope_digest'') (\<lambda>_.
     rbind (rall (\<lambda>(v, name). require_opt (\<lambda>x. require_digest x name) v)
       [(provider_digest ev, ''provider_digest''), (export_manifest_digest ev, ''export_manifest_digest'')]) (\<lambda>_.
     rbind (require_opt (\<lambda>v. require_label v ''deletion_id'') (event_deletion_id ev)) (\<lambda>_.
     require_label (trace_id ev) ''trace_id'')))))))"

record unsigned_entry =
  entry_sequence :: u64
  entry_chain_id :: string
  previous_digest :: string
  entry_event :: security_audit_event

record audit_entry = unsigned_entry +
  entry_digest :: string
  entry_signing_key_id :: string
  entry_signature :: bytes

record unsigned_checkpoint =
  head_chain_id :: string
  head_sequence :: u64
  head_digest :: string

record security_audit_checkpoint = unsigned_checkpoint +
  head_signing_key_id :: string
  head_signature :: bytes

record security_audit_chain =
  chain_id :: string
  entries :: "audit_entry list"

record audit_json =
  entry_json :: "unsigned_entry \<Rightarrow> bytes option"
  head_json :: "unsigned_checkpoint \<Rightarrow> bytes option"

section \<open>The chain\<close>

definition chain_new :: "string \<Rightarrow> security_error + security_audit_chain" where
  "chain_new cid = rbind (require_label cid ''chain_id'') (\<lambda>_. Inr \<lparr>chain_id = cid, entries = []\<rparr>)"

text \<open>\<open>entries.last().map_or(GENESIS_DIGEST, ..)\<close>.\<close>

definition last_digest :: "audit_entry list \<Rightarrow> string" where
  "last_digest es = (if es = [] then GENESIS_DIGEST else entry_digest (last es))"

definition chain_checkpoint ::
    "crypto \<Rightarrow> audit_json \<Rightarrow> security_audit_chain \<Rightarrow> backup_signing_key \<Rightarrow> security_error + security_audit_checkpoint" where
  "chain_checkpoint c js chain key =
     rbind (require_label (chain_id chain) ''chain_id'') (\<lambda>_.
     rbind (ok_or (ResourceExhausted ''audit sequence overflow'') (u64_of_usize (length (entries chain)))) (\<lambda>sequence.
     rbind (require_digest (last_digest (entries chain)) ''audit_checkpoint.entry_digest'') (\<lambda>_.
     let unsigned = \<lparr>head_chain_id = chain_id chain, head_sequence = sequence, head_digest = last_digest (entries chain)\<rparr>
     in rbind (canonical_json (head_json js) unsigned) (\<lambda>payload.
     Inr (unsigned_checkpoint.extend unsigned
       (security_audit_checkpoint.fields (signing_key_id key)
         (sign_domain c key AUDIT_CHECKPOINT_SIGNATURE_DOMAIN payload)))))))"

definition chain_append ::
    "crypto \<Rightarrow> audit_json \<Rightarrow> security_audit_chain \<Rightarrow> security_audit_event \<Rightarrow> backup_signing_key
      \<Rightarrow> security_error + (security_audit_chain \<times> audit_entry)" where
  "chain_append c js chain ev key =
     rbind (event_validate ev) (\<lambda>_.
     rbind (rguard (\<not> (entries chain \<noteq> [] \<and> timestamp_micros ev < timestamp_micros (entry_event (last (entries chain)))))
       (IntegrityFailure ''security audit time regressed'')) (\<lambda>_.
     rbind (ok_or (ResourceExhausted ''audit sequence overflow'')
       (Option.bind (u64_of_usize (length (entries chain))) (\<lambda>n. checked_add_word n 1))) (\<lambda>sequence.
     let unsigned = \<lparr>entry_sequence = sequence, entry_chain_id = chain_id chain,
           previous_digest = last_digest (entries chain), entry_event = ev\<rparr>
     in rbind (canonical_json (entry_json js) unsigned) (\<lambda>json.
     let d = digest c json;
         e = unsigned_entry.extend unsigned
               (audit_entry.fields d (signing_key_id key) (sign_domain c key AUDIT_SIGNATURE_DOMAIN (str_bytes d)))
     in Inr (chain\<lparr>entries := entries chain @ [e]\<rparr>, e)))))"

text \<open>One step of the loop of \<open>verify\<close>: the state is the previous digest and the previous time.\<close>

definition verify_entry ::
    "crypto \<Rightarrow> audit_json \<Rightarrow> backup_verifying_key \<Rightarrow> string \<Rightarrow> nat \<times> audit_entry \<Rightarrow> string \<times> int option
      \<Rightarrow> security_error + (string \<times> int option)" where
  "verify_entry c js key cid = (\<lambda>(index, e) (previous, previous_time).
     rbind (event_validate (entry_event e)) (\<lambda>_.
     rbind (ok_or (IntegrityFailure ''audit sequence overflow'')
       (Option.bind (u64_of_usize index) (\<lambda>v. checked_add_word v 1))) (\<lambda>expected.
     rbind (rguard (\<not> (entry_sequence e \<noteq> expected \<or> entry_chain_id e \<noteq> cid \<or> previous_digest e \<noteq> previous \<or>
           entry_signing_key_id e \<noteq> verifying_key_id key \<or>
           (case previous_time of None \<Rightarrow> False | Some time \<Rightarrow> timestamp_micros (entry_event e) < time)))
       (IntegrityFailure ''audit chain metadata mismatch'')) (\<lambda>_.
     rbind (canonical_json (entry_json js) (unsigned_entry.truncate e)) (\<lambda>json.
     rbind (rguard (digest c json = entry_digest e) (IntegrityFailure ''audit entry digest mismatch'')) (\<lambda>_.
     rbind (verify_domain c key AUDIT_SIGNATURE_DOMAIN (str_bytes (entry_digest e)) (entry_signature e)) (\<lambda>_.
     Inr (entry_digest e, Some (timestamp_micros (entry_event e))))))))))"

definition chain_verify ::
    "crypto \<Rightarrow> audit_json \<Rightarrow> security_audit_chain \<Rightarrow> backup_verifying_key \<Rightarrow> security_error + unit" where
  "chain_verify c js chain key =
     rbind (require_label (chain_id chain) ''chain_id'') (\<lambda>_.
     rbind (rfold (verify_entry c js key (chain_id chain)) (enumerate 0 (entries chain)) (GENESIS_DIGEST, None)) (\<lambda>_.
     Inr ()))"

definition verify_against_checkpoint ::
    "crypto \<Rightarrow> audit_json \<Rightarrow> security_audit_chain \<Rightarrow> security_audit_checkpoint \<Rightarrow> backup_verifying_key
      \<Rightarrow> security_error + unit" where
  "verify_against_checkpoint c js chain cp key =
     rbind (chain_verify c js chain key) (\<lambda>_.
     rbind (require_label (head_chain_id cp) ''audit_checkpoint.chain_id'') (\<lambda>_.
     rbind (require_digest (head_digest cp) ''audit_checkpoint.entry_digest'') (\<lambda>_.
     rbind (rguard (head_signing_key_id cp = verifying_key_id key)
       (IntegrityFailure ''audit checkpoint signing-key identity mismatch'')) (\<lambda>_.
     rbind (ok_or (ResourceExhausted ''audit sequence overflow'') (u64_of_usize (length (entries chain)))) (\<lambda>expected.
     rbind (rguard (\<not> (head_chain_id cp \<noteq> chain_id chain \<or> head_sequence cp \<noteq> expected \<or>
           head_digest cp \<noteq> last_digest (entries chain)))
       (IntegrityFailure ''audit checkpoint does not match the complete chain head'')) (\<lambda>_.
     rbind (canonical_json (head_json js) (unsigned_checkpoint.truncate cp)) (\<lambda>payload.
     verify_domain c key AUDIT_CHECKPOINT_SIGNATURE_DOMAIN payload (head_signature cp))))))))"

text \<open>The effect of an append on the chain; a failed append leaves it as it was.\<close>

definition audit_step ::
    "crypto \<Rightarrow> audit_json \<Rightarrow> backup_signing_key \<Rightarrow> security_audit_event \<Rightarrow> security_audit_chain \<Rightarrow> security_audit_chain" where
  "audit_step c js key ev chain = (case chain_append c js chain ev key of Inl _ \<Rightarrow> chain | Inr (chain', _) \<Rightarrow> chain')"

section \<open>Verified entries\<close>

definition entry_ok :: "crypto \<Rightarrow> audit_json \<Rightarrow> backup_verifying_key \<Rightarrow> string \<Rightarrow> nat \<Rightarrow> audit_entry \<Rightarrow> string \<Rightarrow> int option \<Rightarrow> bool" where
  "entry_ok c js key cid i e previous time \<longleftrightarrow>
     event_validate (entry_event e) = Inr () \<and> Suc i < 2 ^ 64 \<and> unat (entry_sequence e) = Suc i \<and>
     entry_chain_id e = cid \<and> previous_digest e = previous \<and> entry_signing_key_id e = verifying_key_id key \<and>
     (\<forall>t. time = Some t \<longrightarrow> t \<le> timestamp_micros (entry_event e)) \<and>
     (\<exists>json. entry_json js (unsigned_entry.truncate e) = Some json \<and> entry_digest e = digest c json) \<and>
     verify_domain c key AUDIT_SIGNATURE_DOMAIN (str_bytes (entry_digest e)) (entry_signature e) = Inr ()"

definition last_event_time :: "audit_entry list \<Rightarrow> int option" where
  "last_event_time es = (if es = [] then None else Some (timestamp_micros (entry_event (last es))))"

text \<open>A list of entries that verifies, built from its end.\<close>

inductive linked :: "crypto \<Rightarrow> audit_json \<Rightarrow> backup_verifying_key \<Rightarrow> string \<Rightarrow> audit_entry list \<Rightarrow> bool"
  for c js key cid where
  genesis: "linked c js key cid []"
| link: "linked c js key cid es \<Longrightarrow> entry_ok c js key cid (length es) e (last_digest es) (last_event_time es)
    \<Longrightarrow> linked c js key cid (es @ [e])"

lemma verify_entry_Inr_iff:
  "verify_entry c js key cid (i, e) (p, t) = Inr s \<longleftrightarrow>
     entry_ok c js key cid i e p t \<and> s = (entry_digest e, Some (timestamp_micros (entry_event e)))"
proof -
  have "verify_entry c js key cid (i, e) (p, t) = Inr s \<longleftrightarrow>
      event_validate (entry_event e) = Inr () \<and>
      Option.bind (u64_of_usize i) (\<lambda>v. checked_add_word v 1) = Some (entry_sequence e) \<and>
      entry_chain_id e = cid \<and> previous_digest e = p \<and> entry_signing_key_id e = verifying_key_id key \<and>
      (\<forall>u. t = Some u \<longrightarrow> u \<le> timestamp_micros (entry_event e)) \<and>
      (\<exists>json. entry_json js (unsigned_entry.truncate e) = Some json \<and> entry_digest e = digest c json) \<and>
      verify_domain c key AUDIT_SIGNATURE_DOMAIN (str_bytes (entry_digest e)) (entry_signature e) = Inr () \<and>
      s = (entry_digest e, Some (timestamp_micros (entry_event e)))"
    by (cases t) (auto simp: verify_entry_def not_less)
  then show ?thesis unfolding successor_of_usize entry_ok_def by blast
qed

lemma rfold_verify_iff:
  "rfold (verify_entry c js key cid) (enumerate 0 es) (GENESIS_DIGEST, None) = Inr s \<longleftrightarrow>
     linked c js key cid es \<and> s = (last_digest es, last_event_time es)"
proof (induction es arbitrary: s rule: rev_induct)
  case Nil
  show ?case by (auto simp: last_digest_def last_event_time_def intro: linked.intros)
next
  case (snoc e es)
  have "enumerate 0 (es @ [e]) = enumerate 0 es @ [(length es, e)]" by (simp add: enumerate_append_eq)
  then have "rfold (verify_entry c js key cid) (enumerate 0 (es @ [e])) (GENESIS_DIGEST, None) = Inr s \<longleftrightarrow>
      (\<exists>r. rfold (verify_entry c js key cid) (enumerate 0 es) (GENESIS_DIGEST, None) = Inr r \<and>
        verify_entry c js key cid (length es, e) r = Inr s)"
    by (cases s) (simp add: rfold_append)
  also have "\<dots> \<longleftrightarrow> linked c js key cid es \<and> entry_ok c js key cid (length es) e (last_digest es) (last_event_time es) \<and>
      s = (last_digest (es @ [e]), last_event_time (es @ [e]))"
    by (simp add: snoc.IH verify_entry_Inr_iff last_digest_def last_event_time_def)
  finally show ?case by (auto intro: linked.intros elim: linked.cases)
qed

lemma chain_verify_iff:
  "chain_verify c js chain key = Inr u \<longleftrightarrow>
     require_label (chain_id chain) ''chain_id'' = Inr () \<and> linked c js key (chain_id chain) (entries chain)"
  by (simp add: chain_verify_def rfold_verify_iff)

section \<open>Appending\<close>

lemma chain_append_ok:
  assumes "signing_ok c" and v: "chain_verify c js chain (verifying_key c key) = Inr ()"
    and "chain_append c js chain ev key = Inr (chain', e)"
  shows "chain_verify c js chain' (verifying_key c key) = Inr ()"
    and "entries chain' = entries chain @ [e]" and "chain_id chain' = chain_id chain" and "entry_event e = ev"
    and "unat (entry_sequence e) = Suc (length (entries chain))"
proof -
  obtain s json where s: "Option.bind (u64_of_usize (length (entries chain))) (\<lambda>n. checked_add_word n 1) = Some s"
    and json: "entry_json js \<lparr>entry_sequence = s, entry_chain_id = chain_id chain,
      previous_digest = last_digest (entries chain), entry_event = ev\<rparr> = Some json"
    and ev: "event_validate ev = Inr ()"
    and time: "entries chain \<noteq> [] \<Longrightarrow> timestamp_micros (entry_event (last (entries chain))) \<le> timestamp_micros ev"
    and e: "e = \<lparr>entry_sequence = s, entry_chain_id = chain_id chain,
      previous_digest = last_digest (entries chain), entry_event = ev, entry_digest = digest c json,
      entry_signing_key_id = signing_key_id key,
      entry_signature = sign_domain c key AUDIT_SIGNATURE_DOMAIN (str_bytes (digest c json))\<rparr>"
    and chain': "chain' = chain\<lparr>entries := entries chain @ [e]\<rparr>"
    using assms(3)
    by (auto simp: chain_append_def Let_def not_less unsigned_entry.defs audit_entry.defs)
  have "entry_ok c js (verifying_key c key) (chain_id chain) (length (entries chain)) e
      (last_digest (entries chain)) (last_event_time (entries chain))"
    using s json ev time verify_sign_domain [OF assms(1)] unfolding successor_of_usize
    by (simp add: entry_ok_def e last_event_time_def unsigned_entry.defs)
  then show "chain_verify c js chain' (verifying_key c key) = Inr ()"
    using v by (simp add: chain_verify_iff chain' linked.link)
  show "unat (entry_sequence e) = Suc (length (entries chain))"
    using s unfolding successor_of_usize by (simp add: e)
qed (use assms(3) in \<open>auto simp: chain_append_def Let_def unsigned_entry.defs audit_entry.defs\<close>)

definition audit_ok :: "crypto \<Rightarrow> audit_json \<Rightarrow> backup_signing_key \<Rightarrow> security_audit_chain \<Rightarrow> bool" where
  "audit_ok c js key chain \<longleftrightarrow> signing_ok c \<and> chain_verify c js chain (verifying_key c key) = Inr ()"

definition extends_chain :: "security_audit_chain \<Rightarrow> security_audit_chain \<Rightarrow> bool" where
  "extends_chain a b \<longleftrightarrow> chain_id b = chain_id a \<and> (\<exists>es. entries b = entries a @ es)"

lemma audit_step_ok:
  assumes "audit_ok c js key chain"
  shows "audit_ok c js key (audit_step c js key ev chain) \<and> extends_chain chain (audit_step c js key ev chain)"
proof (cases "chain_append c js chain ev key")
  case (Inl e)
  then show ?thesis using assms by (simp add: audit_step_def extends_chain_def)
next
  case (Inr r)
  then obtain chain' e where r: "chain_append c js chain ev key = Inr (chain', e)" by (cases r) simp
  with chain_append_ok [OF _ _ r] assms show ?thesis
    by (simp add: audit_step_def audit_ok_def extends_chain_def)
qed

interpretation audit: guarded_machine "audit_step c js key" "audit_ok c js key" extends_chain for c js key
proof
  show "extends_chain a c" if "extends_chain a b" "extends_chain b c" for a b c
    using that by (auto simp: extends_chain_def)
qed (use audit_step_ok in \<open>auto simp: extends_chain_def\<close>)

definition audit_run ::
    "crypto \<Rightarrow> audit_json \<Rightarrow> backup_signing_key \<Rightarrow> string \<Rightarrow> security_audit_event list \<Rightarrow> security_audit_chain" where
  "audit_run c js key cid evs = fold (audit_step c js key) evs \<lparr>chain_id = cid, entries = []\<rparr>"

lemma audit_run_ok:
  assumes "signing_ok c" and "require_label cid ''chain_id'' = Inr ()"
  shows "chain_verify c js (audit_run c js key cid evs) (verifying_key c key) = Inr ()"
    and "chain_id (audit_run c js key cid evs) = cid"
proof -
  have init: "audit_ok c js key \<lparr>chain_id = cid, entries = []\<rparr>"
    using assms by (simp add: audit_ok_def chain_verify_iff linked.genesis)
  show "chain_verify c js (audit_run c js key cid evs) (verifying_key c key) = Inr ()"
    using audit.run_inv [OF init] by (simp add: audit_run_def audit_ok_def)
  show "chain_id (audit_run c js key cid evs) = cid"
    using audit.run_grows [OF init] by (simp add: audit_run_def extends_chain_def)
qed

lemma audit_run_grows:
  assumes "signing_ok c" and "require_label cid ''chain_id'' = Inr ()"
  shows "extends_chain (audit_run c js key cid evs) (audit_run c js key cid (evs @ later))"
proof -
  have "audit_ok c js key (audit_run c js key cid evs)"
    using assms audit_run_ok(1) [OF assms] by (simp add: audit_ok_def)
  from audit.run_grows [OF this, of later] show ?thesis by (simp add: audit_run_def)
qed

section \<open>Linked entries determine each other\<close>

inductive_cases linked_snocE: "linked c js key cid (es @ [e])"

lemma linked_snocD:
  assumes "linked c js key cid (es @ [e])"
  shows "linked c js key cid es" and "entry_ok c js key cid (length es) e (last_digest es) (last_event_time es)"
  using assms by (auto elim: linked_snocE)

text \<open>What an entry carries besides its signature.\<close>

definition signed_content :: "audit_entry \<Rightarrow> unsigned_entry \<times> string \<times> string" where
  "signed_content e = (unsigned_entry.truncate e, entry_digest e, entry_signing_key_id e)"

definition entries_collide :: "crypto \<Rightarrow> audit_json \<Rightarrow> audit_entry list \<Rightarrow> audit_entry list \<Rightarrow> bool" where
  "entries_collide c js es fs \<longleftrightarrow>
     (\<exists>e \<in> set es. \<exists>f \<in> set fs. \<exists>a b. entry_json js (unsigned_entry.truncate e) = Some a \<and>
        entry_json js (unsigned_entry.truncate f) = Some b \<and> collides c a b)"

lemma linked_same_head:
  assumes inj: "json_inj (entry_json js)"
  shows "linked c js k cid es \<Longrightarrow> linked c js k' cid fs \<Longrightarrow> length es = length fs \<Longrightarrow>
     last_digest es = last_digest fs \<Longrightarrow> verifying_key_id k = verifying_key_id k' \<Longrightarrow>
     map signed_content es = map signed_content fs \<or> entries_collide c js es fs"
proof (induction es arbitrary: fs rule: rev_induct)
  case (snoc e es)
  then obtain f fs' where fs: "fs = fs' @ [f]" by (cases fs rule: rev_cases) auto
  note e = linked_snocD [OF snoc.prems(1)] and f = linked_snocD [OF snoc.prems(2) [unfolded fs]]
  obtain a b where ab: "entry_json js (unsigned_entry.truncate e) = Some a" "entry_digest e = digest c a"
      "entry_json js (unsigned_entry.truncate f) = Some b" "entry_digest f = digest c b"
    using e(2) f(2) by (auto simp: entry_ok_def)
  have same: "entry_digest e = entry_digest f" using snoc.prems(4) by (simp add: fs last_digest_def)
  show ?case
  proof (cases "collides c a b")
    case True
    then show ?thesis using ab by (auto simp: entries_collide_def fs)
  next
    case False
    then have eq: "unsigned_entry.truncate e = unsigned_entry.truncate f"
      using digest_eq_cases [OF inj ab(1,3)] ab same by metis
    then have "previous_digest e = previous_digest f" by (simp add: unsigned_entry.defs)
    then have "last_digest es = last_digest fs'" using e(2) f(2) by (simp add: entry_ok_def)
    with snoc.IH [OF e(1) f(1)] snoc.prems(3,5)
    have "map signed_content es = map signed_content fs' \<or> entries_collide c js es fs'" by (simp add: fs)
    moreover have "signed_content e = signed_content f"
      using e(2) f(2) eq same snoc.prems(5) by (simp add: signed_content_def entry_ok_def)
    ultimately show ?thesis by (auto simp: fs entries_collide_def)
  qed
qed simp

section \<open>Checkpoints\<close>

lemma chain_checkpoint_fields:
  assumes "chain_checkpoint c js chain key = Inr cp"
  obtains payload where "require_label (chain_id chain) ''chain_id'' = Inr ()"
    "u64_of_usize (length (entries chain)) = Some (head_sequence cp)"
    "require_digest (last_digest (entries chain)) ''audit_checkpoint.entry_digest'' = Inr ()"
    "head_json js (unsigned_checkpoint.truncate cp) = Some payload"
    "head_chain_id cp = chain_id chain" "head_digest cp = last_digest (entries chain)"
    "head_signing_key_id cp = signing_key_id key"
    "head_signature cp = sign_domain c key AUDIT_CHECKPOINT_SIGNATURE_DOMAIN payload"
  using assms that
  by (auto simp: chain_checkpoint_def Let_def unsigned_checkpoint.defs security_audit_checkpoint.defs)

lemma checkpoint_accepts_chain:
  assumes "signing_ok c" and "chain_verify c js chain (verifying_key c key) = Inr ()"
    and "chain_checkpoint c js chain key = Inr cp"
  shows "verify_against_checkpoint c js chain cp (verifying_key c key) = Inr ()"
proof -
  obtain payload where "require_label (chain_id chain) ''chain_id'' = Inr ()"
    "u64_of_usize (length (entries chain)) = Some (head_sequence cp)"
    "require_digest (last_digest (entries chain)) ''audit_checkpoint.entry_digest'' = Inr ()"
    "head_json js (unsigned_checkpoint.truncate cp) = Some payload"
    "head_chain_id cp = chain_id chain" "head_digest cp = last_digest (entries chain)"
    "head_signing_key_id cp = signing_key_id key"
    "head_signature cp = sign_domain c key AUDIT_CHECKPOINT_SIGNATURE_DOMAIN payload"
    by (rule chain_checkpoint_fields [OF assms(3)])
  then show ?thesis
    using assms(2) verify_sign_domain [OF assms(1)]
    by (simp add: verify_against_checkpoint_def canonical_json_def require_label_cong [of "chain_id chain"])
qed

section \<open>Properties\<close>

definition demo_event :: security_audit_event where
  "demo_event = \<lparr>timestamp_micros = 5, actor_digest = replicate 64 CHR ''a'', agent_digest = None,
     audit_action_of = Authorize, resource_class = ''memory'', purpose = ''recall'', decision = Allow,
     scope_digest = replicate 64 CHR ''b'', raw_evidence_access = False, provider_digest = None,
     export_manifest_digest = None, event_deletion_id = None, trace_id = ''trace-1''\<rparr>"

definition demo_audit_json :: audit_json where
  "demo_audit_json = \<lparr>entry_json = (\<lambda>u. if entry_sequence u = 1 \<and> entry_event u = demo_event \<and>
       entry_chain_id u = ''audit'' \<and> previous_digest u = GENESIS_DIGEST then Some [1] else None),
     head_json = (\<lambda>_. Some [2])\<rparr>"

lemma audit_demo_json_inj: "json_inj (entry_json demo_audit_json)"
  by (auto simp: json_inj_def demo_audit_json_def intro: unsigned_entry.equality split: if_splits)

lemma demo_event_valid: "event_validate demo_event = Inr ()"
proof -
  have "require_label ''memory'' f = Inr ()" "require_label ''recall'' f = Inr ()" "require_label ''trace-1'' f = Inr ()" for f
    by (simp_all add: require_label_def) code_simp+
  moreover have "require_digest (replicate 64 CHR ''a'') f = Inr ()" "require_digest (replicate 64 CHR ''b'') f = Inr ()" for f
    by (simp_all add: require_digest_def list_all_iff is_lower_hex_def)
  ultimately show ?thesis by (simp add: event_validate_def demo_event_def)
qed

lemma demo_label: "require_label ''audit'' f = Inr ()"
  by (simp add: require_label_def) code_simp

lemma demo_chain:
  "\<exists>e cp. audit_run demo_crypto demo_audit_json demo_key ''audit'' [demo_event] = \<lparr>chain_id = ''audit'', entries = [e]\<rparr> \<and>
     entry_event e = demo_event \<and>
     chain_checkpoint demo_crypto demo_audit_json \<lparr>chain_id = ''audit'', entries = [e]\<rparr> demo_key = Inr cp"
proof -
  have "Option.bind (u64_of_usize 0) (\<lambda>n. checked_add_word n 1) = Some 1"
    by (simp add: u64_of_usize_def checked_add_word_def)
  then have "\<exists>e. audit_run demo_crypto demo_audit_json demo_key ''audit'' [demo_event] = \<lparr>chain_id = ''audit'', entries = [e]\<rparr> \<and>
      entry_event e = demo_event \<and> entry_digest e = digest demo_crypto [1]"
    by (simp add: audit_run_def audit_step_def chain_append_def demo_event_valid last_digest_def demo_audit_json_def
        canonical_json_def Let_def unsigned_entry.defs audit_entry.defs)
  then obtain e where e: "audit_run demo_crypto demo_audit_json demo_key ''audit'' [demo_event] = \<lparr>chain_id = ''audit'', entries = [e]\<rparr>"
      "entry_event e = demo_event" "entry_digest e = digest demo_crypto [1]" by blast
  have "require_digest (digest demo_crypto [1]) f = Inr ()" for f
    using demo_crypto_ok by (intro digest_valid) (simp add: crypto_ok_def)
  then have "\<exists>cp. chain_checkpoint demo_crypto demo_audit_json \<lparr>chain_id = ''audit'', entries = [e]\<rparr> demo_key = Inr cp"
    by (simp add: chain_checkpoint_def demo_label last_digest_def e(3) u64_of_usize_def demo_audit_json_def
        canonical_json_def Let_def)
  with e show ?thesis by blast
qed

definition demo_total_json :: audit_json where
  "demo_total_json = \<lparr>entry_json = (\<lambda>_. Some [1]), head_json = (\<lambda>_. Some [2])\<rparr>"

lemma demo_append:
  assumes "length (entries chain) < 2"
    and "\<forall>e \<in> set (entries chain). timestamp_micros (entry_event e) = 5"
  shows "\<exists>e. chain_append demo_crypto demo_total_json chain demo_event demo_key =
    Inr (chain\<lparr>entries := entries chain @ [e]\<rparr>, e) \<and> timestamp_micros (entry_event e) = 5"
proof -
  obtain s where "Option.bind (u64_of_usize (length (entries chain))) (\<lambda>n. checked_add_word n 1) = Some s"
    using assms(1) by (auto simp: u64_of_usize_def checked_add_word_def unat_of_nat take_bit_nat_eq_self)
  moreover have "timestamp_micros demo_event = 5" by (simp add: demo_event_def)
  ultimately show ?thesis
    using assms(2) by (auto simp: chain_append_def demo_event_valid demo_total_json_def canonical_json_def Let_def
        unsigned_entry.defs audit_entry.defs)
qed

text \<open>C23. Every audit chain the code builds verifies and only grows: after any sequence of appends,
  refused ones included, the chain passes deep verification under the public key of its signing key,
  and its checkpoint, when one can be written, accepts it; later appends keep all its entries as a
  prefix; an accepted event becomes exactly one new last entry, numbered one above the number of
  entries before it, and a refused one leaves the chain as it was.\<close>

theorem audit_chain_verifies:
  assumes "crypto_ok c" and "require_label cid ''chain_id'' = Inr ()" and "chain = audit_run c js key cid evs"
  shows "chain_verify c js chain (verifying_key c key) = Inr () \<and>
    (\<forall>cp. chain_checkpoint c js chain key = Inr cp \<longrightarrow>
       verify_against_checkpoint c js chain cp (verifying_key c key) = Inr ()) \<and>
    (\<forall>later. \<exists>es. entries (audit_run c js key cid (evs @ later)) = entries chain @ es) \<and>
    (\<forall>ev. case chain_append c js chain ev key of
       Inl _ \<Rightarrow> audit_run c js key cid (evs @ [ev]) = chain
     | Inr (chain', e) \<Rightarrow>
         audit_run c js key cid (evs @ [ev]) = chain' \<and> chain_id chain' = cid \<and> entries chain' = entries chain @ [e] \<and>
         entry_event e = ev \<and> unat (entry_sequence e) = Suc (length (entries chain)))"
proof -
  have s: "signing_ok c" using assms(1) by (simp add: crypto_ok_def)
  note run = audit_run_ok [OF s assms(2), of js key evs, folded assms(3)]
  have "\<exists>es. entries (audit_run c js key cid (evs @ later)) = entries chain @ es" for later
    using audit_run_grows [OF s assms(2)] unfolding assms(3) by (auto simp: extends_chain_def)
  moreover have "case chain_append c js chain ev key of
       Inl _ \<Rightarrow> audit_run c js key cid (evs @ [ev]) = chain
     | Inr (chain', e) \<Rightarrow>
         audit_run c js key cid (evs @ [ev]) = chain' \<and> chain_id chain' = cid \<and> entries chain' = entries chain @ [e] \<and>
         entry_event e = ev \<and> unat (entry_sequence e) = Suc (length (entries chain))" for ev
    using chain_append_ok(2-5) [OF s run(1)] run(2)
    by (auto simp: audit_run_def audit_step_def assms(3) split: sum.split)
  ultimately show ?thesis using run checkpoint_accepts_chain [OF s] by blast
qed

theorem audit_chain_verifies_witness:
  "\<exists>first second. entries (audit_run demo_crypto demo_total_json demo_key ''audit'' [demo_event]) = [first] \<and>
     entries (audit_run demo_crypto demo_total_json demo_key ''audit'' [demo_event, demo_event]) = [first, second] \<and>
     chain_verify demo_crypto demo_total_json (audit_run demo_crypto demo_total_json demo_key ''audit'' [demo_event, demo_event])
       (verifying_key demo_crypto demo_key) = Inr ()"
proof -
  note main = audit_chain_verifies [OF demo_crypto_ok demo_label refl, of demo_total_json demo_key]
  obtain first where first: "entries (audit_run demo_crypto demo_total_json demo_key ''audit'' [demo_event]) = [first]"
    "timestamp_micros (entry_event first) = 5"
    using demo_append [of "\<lparr>chain_id = ''audit'', entries = []\<rparr>"]
    by (auto simp: audit_run_def audit_step_def split: sum.splits)
  obtain chain' e where "chain_append demo_crypto demo_total_json
      (audit_run demo_crypto demo_total_json demo_key ''audit'' [demo_event]) demo_event demo_key = Inr (chain', e)"
    using demo_append [of "audit_run demo_crypto demo_total_json demo_key ''audit'' [demo_event]"] first by auto
  with main [of "[demo_event]"] first have "\<exists>second.
      entries (audit_run demo_crypto demo_total_json demo_key ''audit'' [demo_event, demo_event]) = [first, second]"
    by (auto dest!: spec [of _ demo_event])
  with first(1) conjunct1 [OF main [of "[demo_event, demo_event]"]] show ?thesis by blast
qed

text \<open>C22. The audit log is tamper-evident: any chain that passes verification against the
  checkpoint of an audit chain carries exactly the entries of that chain, in order and with every
  field but the signature bytes, or two different entries have encodings with the same digest.
  Dropping the tail, reordering, editing and inserting entries are all detected.\<close>

theorem audit_log_tamper_evident:
  assumes "crypto_ok c" and "json_inj (entry_json js)" and "require_label cid ''chain_id'' = Inr ()"
    and "chain = audit_run c js key cid evs" and "chain_checkpoint c js chain key = Inr cp"
    and "verify_against_checkpoint c js presented cp vk = Inr ()"
  shows "chain_id presented = cid \<and> map signed_content (entries presented) = map signed_content (entries chain) \<or>
    entries_collide c js (entries presented) (entries chain)"
proof -
  have "signing_ok c" using assms(1) by (simp add: crypto_ok_def)
  note run = audit_run_ok [OF this assms(3), of js key evs, folded assms(4)]
  obtain p where cp: "u64_of_usize (length (entries chain)) = Some (head_sequence cp)" "head_chain_id cp = chain_id chain"
      "head_digest cp = last_digest (entries chain)" "head_signing_key_id cp = signing_key_id key"
    by (rule chain_checkpoint_fields [OF assms(5)])
  have v: "chain_verify c js presented vk = Inr ()" "head_signing_key_id cp = verifying_key_id vk"
      "u64_of_usize (length (entries presented)) = Some (head_sequence cp)"
      "head_chain_id cp = chain_id presented" "head_digest cp = last_digest (entries presented)"
    using assms(6) by (auto simp: verify_against_checkpoint_def)
  have "linked c js vk cid (entries presented)" "linked c js (verifying_key c key) cid (entries chain)"
    using v(1,4) run cp(2) by (auto simp: chain_verify_iff)
  moreover have "length (entries presented) = length (entries chain)"
    using cp(1) v(3) by (simp add: u64_of_usize_Some_iff)
  ultimately show ?thesis
    using linked_same_head [OF assms(2)] cp v run(2) by fastforce
qed

theorem audit_log_tamper_evident_witness:
  "\<exists>chain cp. chain = audit_run demo_crypto demo_audit_json demo_key ''audit'' [demo_event] \<and>
     chain_checkpoint demo_crypto demo_audit_json chain demo_key = Inr cp \<and>
     verify_against_checkpoint demo_crypto demo_audit_json chain cp (verifying_key demo_crypto demo_key) = Inr () \<and>
     verify_against_checkpoint demo_crypto demo_audit_json \<lparr>chain_id = ''audit'', entries = []\<rparr> cp (verifying_key demo_crypto demo_key) \<noteq> Inr ()"
proof -
  obtain e cp where e: "audit_run demo_crypto demo_audit_json demo_key ''audit'' [demo_event] = \<lparr>chain_id = ''audit'', entries = [e]\<rparr>"
      "chain_checkpoint demo_crypto demo_audit_json \<lparr>chain_id = ''audit'', entries = [e]\<rparr> demo_key = Inr cp"
    using demo_chain by blast
  let ?chain = "audit_run demo_crypto demo_audit_json demo_key ''audit'' [demo_event]"
  have cp: "chain_checkpoint demo_crypto demo_audit_json ?chain demo_key = Inr cp" using e by simp
  have "signing_ok demo_crypto" using demo_crypto_ok by (simp add: crypto_ok_def)
  then have "verify_against_checkpoint demo_crypto demo_audit_json ?chain cp (verifying_key demo_crypto demo_key) = Inr ()"
    by (intro checkpoint_accepts_chain audit_run_ok demo_label cp)
  moreover have "\<not> (chain_id \<lparr>chain_id = ''audit'', entries = []\<rparr> = ''audit'' \<and>
      map signed_content (entries \<lparr>chain_id = ''audit'', entries = []\<rparr>) = map signed_content (entries ?chain) \<or>
      entries_collide demo_crypto demo_audit_json (entries \<lparr>chain_id = ''audit'', entries = []\<rparr>) (entries ?chain))"
    by (simp add: e entries_collide_def)
  ultimately show ?thesis
    using audit_log_tamper_evident [OF demo_crypto_ok audit_demo_json_inj demo_label refl cp] cp by blast
qed

end
