(* ===== verification/Security_Deletion.thy ===== *)
theory Security_Deletion
  imports Security_Base
begin

text \<open>
  The deletion workflow and its signed receipts of \<open>crates/contextdb-security/src/deletion.rs\<close>. The
  evidence verifier is a trait whose implementations are supplied by the host: it is a record of its
  two methods. \<open>record_target\<close> returns the workflow with its result, because it suppresses the
  target before it can refuse the update. Times are only compared, so an \<open>i64\<close> is an \<open>int\<close>.
\<close>

section \<open>Targets, receipts and workflows\<close>

definition DELETION_SIGNATURE_DOMAIN :: bytes where
  "DELETION_SIGNATURE_DOMAIN = str_bytes ''contextdb/deletion-receipt/v1'' @ [0]"

datatype deletion_target_class =
    PrimaryContent | Episode | Evidence | SemanticMemory | Summary | Embedding | AnnIndex | LexicalIndex
  | Cache | CheckpointOrHandoff | ProviderCopy | ManagedExport | ManagedBackup

text \<open>The \<open>Debug\<close> name of a class.\<close>

fun class_name :: "deletion_target_class \<Rightarrow> string" where
  "class_name PrimaryContent = ''PrimaryContent''"
| "class_name Episode = ''Episode''"
| "class_name Evidence = ''Evidence''"
| "class_name SemanticMemory = ''SemanticMemory''"
| "class_name Summary = ''Summary''"
| "class_name Embedding = ''Embedding''"
| "class_name AnnIndex = ''AnnIndex''"
| "class_name LexicalIndex = ''LexicalIndex''"
| "class_name Cache = ''Cache''"
| "class_name CheckpointOrHandoff = ''CheckpointOrHandoff''"
| "class_name ProviderCopy = ''ProviderCopy''"
| "class_name ManagedExport = ''Export''"
| "class_name ManagedBackup = ''Backup''"

datatype deletion_disposition =
  SuppressedPending | Deleted | Rebuilt | CryptographicallyErased | ProvenAbsent | ExternalReceipt

definition is_complete :: "deletion_disposition \<Rightarrow> bool" where
  "is_complete d \<longleftrightarrow> d \<noteq> SuppressedPending"

record deletion_target =
  target_id :: string
  target_class :: deletion_target_class
  disposition :: deletion_disposition
  verification_digest :: "string option"
  updated_at_micros :: int

record deletion_evidence_verifier =
  verify_target :: "string \<Rightarrow> string \<Rightarrow> string \<Rightarrow> deletion_target \<Rightarrow> security_error + unit"
  verify_closure :: "string \<Rightarrow> string \<Rightarrow> string \<Rightarrow> string btree_set \<Rightarrow> deletion_target list \<Rightarrow> security_error + unit"

record unsigned_receipt =
  rc_deletion_id :: string
  rc_workspace_id :: string
  rc_root_lineage_digest :: string
  rc_policy_digest :: string
  rc_requested_at_micros :: int
  rc_completed_at_micros :: int
  rc_targets :: "deletion_target list"

record deletion_receipt = unsigned_receipt +
  receipt_digest :: string
  receipt_signing_key_id :: string
  receipt_signature :: bytes

record deletion_workflow =
  deletion_id :: string
  workspace_id :: string
  root_lineage_digest :: string
  policy_digest :: string
  requested_at_micros :: int
  suppressed_ids :: "string btree_set"
  targets :: "(string, deletion_target) btree_map"

definition mandatory_target_classes :: "deletion_target_class list" where
  "mandatory_target_classes =
     [PrimaryContent, Episode, Evidence, SemanticMemory, Summary, Embedding, AnnIndex, LexicalIndex,
      Cache, CheckpointOrHandoff, ProviderCopy, ManagedExport, ManagedBackup]"

definition validate_target :: "deletion_target \<Rightarrow> security_error + unit" where
  "validate_target t =
     rbind (require_label (target_id t) ''deletion_target_id'') (\<lambda>_.
     require_opt (\<lambda>v. require_digest v ''deletion_verification_digest'') (verification_digest t))"

section \<open>The workflow\<close>

definition workflow_new ::
    "string \<Rightarrow> string \<Rightarrow> string \<Rightarrow> string \<Rightarrow> int \<Rightarrow> string btree_set \<Rightarrow> security_error + deletion_workflow" where
  "workflow_new did ws root policy requested suppressed =
     rbind (require_label did ''deletion_id'') (\<lambda>_.
     rbind (require_label ws ''workspace_id'') (\<lambda>_.
     rbind (require_digest root ''root_lineage_digest'') (\<lambda>_.
     rbind (require_digest policy ''policy_digest'') (\<lambda>_.
     rbind (rguard (suppressed \<noteq> [])
       (InvalidInput ''deletion must immediately suppress at least one lineage identity'')) (\<lambda>_.
     rbind (rall (\<lambda>i. require_label i ''suppressed_id'') suppressed) (\<lambda>_.
     Inr \<lparr>deletion_id = did, workspace_id = ws, root_lineage_digest = root, policy_digest = policy,
          requested_at_micros = requested, suppressed_ids = suppressed, targets = []\<rparr>))))))"

definition is_suppressed :: "deletion_workflow \<Rightarrow> string \<Rightarrow> bool" where
  "is_suppressed w identity \<longleftrightarrow> identity \<in> set (suppressed_ids w)"

definition suppress_dependency :: "string \<Rightarrow> deletion_workflow \<Rightarrow> security_error + deletion_workflow" where
  "suppress_dependency identity w =
     rbind (require_label identity ''suppressed_dependency'') (\<lambda>_.
     Inr (w\<lparr>suppressed_ids := bs_insert identity (suppressed_ids w)\<rparr>))"

definition record_target ::
    "deletion_target \<Rightarrow> deletion_workflow \<Rightarrow> deletion_workflow \<times> (security_error + unit)" where
  "record_target t w =
     (case rbind (validate_target t) (\<lambda>_.
        rguard (\<not> updated_at_micros t < requested_at_micros w)
          (IntegrityFailure ''deletion target update predates the workflow'')) of
        Inl e \<Rightarrow> (w, Inl e)
      | Inr _ \<Rightarrow>
          let w1 = w\<lparr>suppressed_ids := bs_insert (target_id t) (suppressed_ids w)\<rparr>;
              w2 = w1\<lparr>targets := bt_insert (target_id t) t (targets w)\<rparr>
          in (case bt_get (targets w) (target_id t) of
                None \<Rightarrow> (w2, Inr ())
              | Some previous \<Rightarrow>
                  if previous = t then (w1, Inr ())
                  else if updated_at_micros t \<le> updated_at_micros previous \<or> is_complete (disposition previous)
                  then (w1, Inl (IntegrityFailure ''deletion target regressed or was rewritten''))
                  else (w2, Inr ())))"

text \<open>The check of the mandatory classes, which \<open>complete\<close> and \<open>verify\<close> run with their own message.\<close>

definition require_classes :: "string \<Rightarrow> deletion_target list \<Rightarrow> security_error + unit" where
  "require_classes message ts =
     rall (\<lambda>cl. rguard (\<exists>t \<in> set ts. target_class t = cl) (DeletionIncomplete (message @ class_name cl)))
       mandatory_target_classes"

definition workflow_complete ::
    "crypto \<Rightarrow> (unsigned_receipt \<Rightarrow> bytes option) \<Rightarrow> deletion_workflow \<Rightarrow> int \<Rightarrow> backup_signing_key
      \<Rightarrow> deletion_evidence_verifier \<Rightarrow> security_error + deletion_receipt" where
  "workflow_complete c js w completed key verifier =
     rbind (rguard (\<not> completed < requested_at_micros w) (InvalidInput ''deletion completion predates request'')) (\<lambda>_.
     let ts = map snd (targets w) in
     rbind (require_classes ''missing disposition for '' ts) (\<lambda>_.
     rbind (rguard (\<not> (\<exists>t \<in> set ts. \<not> is_complete (disposition t) \<or> verification_digest t = None \<or>
           completed < updated_at_micros t))
       (DeletionIncomplete ''one or more targets remain pending or unverified'')) (\<lambda>_.
     rbind (rall (verify_target verifier (deletion_id w) (workspace_id w) (root_lineage_digest w)) ts) (\<lambda>_.
     rbind (verify_closure verifier (deletion_id w) (workspace_id w) (root_lineage_digest w) (suppressed_ids w) ts) (\<lambda>_.
     let unsigned = \<lparr>rc_deletion_id = deletion_id w, rc_workspace_id = workspace_id w,
           rc_root_lineage_digest = root_lineage_digest w, rc_policy_digest = policy_digest w,
           rc_requested_at_micros = requested_at_micros w, rc_completed_at_micros = completed, rc_targets = ts\<rparr>
     in rbind (canonical_json js unsigned) (\<lambda>json.
     Inr (unsigned_receipt.extend unsigned
       (deletion_receipt.fields (digest c json) (signing_key_id key)
         (sign_domain c key DELETION_SIGNATURE_DOMAIN (str_bytes (digest c json)))))))))))"

text \<open>The loop of \<open>verify\<close> over the targets, with the identities seen so far.\<close>

definition verify_receipt_target ::
    "deletion_receipt \<Rightarrow> deletion_target \<Rightarrow> string btree_set \<Rightarrow> security_error + string btree_set" where
  "verify_receipt_target r t seen =
     rbind (validate_target t) (\<lambda>_.
     rbind (rguard (target_id t \<notin> set seen)
       (IntegrityFailure ''deletion receipt contains duplicate target identities'')) (\<lambda>_.
     rbind (rguard (\<not> (\<not> is_complete (disposition t) \<or> verification_digest t = None))
       (DeletionIncomplete ''receipt contains an incomplete target'')) (\<lambda>_.
     rbind (rguard (\<not> (updated_at_micros t < rc_requested_at_micros r \<or> rc_completed_at_micros r < updated_at_micros t))
       (IntegrityFailure ''deletion receipt target time is outside the workflow interval'')) (\<lambda>_.
     Inr (bs_insert (target_id t) seen)))))"

definition receipt_verify ::
    "crypto \<Rightarrow> (unsigned_receipt \<Rightarrow> bytes option) \<Rightarrow> deletion_receipt \<Rightarrow> backup_verifying_key \<Rightarrow> security_error + unit" where
  "receipt_verify c js r key =
     rbind (rguard (receipt_signing_key_id r = verifying_key_id key)
       (IntegrityFailure ''deletion receipt key ID mismatch'')) (\<lambda>_.
     rbind (require_label (rc_deletion_id r) ''deletion_id'') (\<lambda>_.
     rbind (require_label (rc_workspace_id r) ''workspace_id'') (\<lambda>_.
     rbind (require_digest (rc_root_lineage_digest r) ''root_lineage_digest'') (\<lambda>_.
     rbind (require_digest (rc_policy_digest r) ''policy_digest'') (\<lambda>_.
     rbind (require_digest (receipt_digest r) ''receipt_digest'') (\<lambda>_.
     rbind (rguard (\<not> rc_completed_at_micros r < rc_requested_at_micros r)
       (IntegrityFailure ''deletion receipt completion predates request'')) (\<lambda>_.
     rbind (rfold (verify_receipt_target r) (rc_targets r) []) (\<lambda>_.
     rbind (require_classes ''receipt is missing disposition for '' (rc_targets r)) (\<lambda>_.
     rbind (canonical_json js (unsigned_receipt.truncate r)) (\<lambda>json.
     rbind (rguard (digest c json = receipt_digest r) (IntegrityFailure ''deletion receipt digest mismatch'')) (\<lambda>_.
     verify_domain c key DELETION_SIGNATURE_DOMAIN (str_bytes (receipt_digest r)) (receipt_signature r))))))))))))"

text \<open>The calls that change a workflow.\<close>

datatype deletion_call = Suppress string | Record deletion_target

fun deletion_step :: "deletion_call \<Rightarrow> deletion_workflow \<Rightarrow> deletion_workflow" where
  "deletion_step (Suppress i) w = (case suppress_dependency i w of Inl _ \<Rightarrow> w | Inr w' \<Rightarrow> w')"
| "deletion_step (Record t) w = fst (record_target t w)"

section \<open>The workflow invariant\<close>

definition target_ok :: "deletion_workflow \<Rightarrow> string \<times> deletion_target \<Rightarrow> bool" where
  "target_ok w e \<longleftrightarrow> target_id (snd e) = fst e \<and> validate_target (snd e) = Inr () \<and>
     requested_at_micros w \<le> updated_at_micros (snd e) \<and> fst e \<in> set (suppressed_ids w)"

definition workflow_ok :: "deletion_workflow \<Rightarrow> bool" where
  "workflow_ok w \<longleftrightarrow>
     require_label (deletion_id w) ''deletion_id'' = Inr () \<and> require_label (workspace_id w) ''workspace_id'' = Inr () \<and>
     require_digest (root_lineage_digest w) ''root_lineage_digest'' = Inr () \<and>
     require_digest (policy_digest w) ''policy_digest'' = Inr () \<and>
     strictly_sorted (suppressed_ids w) \<and> (\<forall>i \<in> set (suppressed_ids w). require_label i ''suppressed_id'' = Inr ()) \<and>
     bt_ok (targets w) \<and> (\<forall>e \<in> set (targets w). target_ok w e)"

text \<open>Progress: nothing suppressed is released, no target is forgotten, and a completed one is final.\<close>

definition supersedes :: "deletion_target \<Rightarrow> deletion_target \<Rightarrow> bool" where
  "supersedes u t \<longleftrightarrow> u = t \<or> \<not> is_complete (disposition t) \<and> updated_at_micros t < updated_at_micros u"

definition progresses :: "deletion_workflow \<Rightarrow> deletion_workflow \<Rightarrow> bool" where
  "progresses w v \<longleftrightarrow> set (suppressed_ids w) \<subseteq> set (suppressed_ids v) \<and>
     deletion_id v = deletion_id w \<and> workspace_id v = workspace_id w \<and>
     root_lineage_digest v = root_lineage_digest w \<and> policy_digest v = policy_digest w \<and>
     requested_at_micros v = requested_at_micros w \<and>
     (\<forall>i t. bt_get (targets w) i = Some t \<longrightarrow> (\<exists>u. bt_get (targets v) i = Some u \<and> supersedes u t))"

lemma workflow_new_ok:
  "workflow_new did ws root policy requested suppressed = Inr w \<Longrightarrow> strictly_sorted suppressed \<Longrightarrow> workflow_ok w"
  by (auto simp: workflow_new_def workflow_ok_def)

lemma supersedes_refl: "supersedes t t"
  by (simp add: supersedes_def)

lemma supersedes_trans: "supersedes u t \<Longrightarrow> supersedes v u \<Longrightarrow> supersedes v t"
  by (auto simp: supersedes_def)

lemma progresses_refl: "progresses w w"
  by (simp add: progresses_def supersedes_refl)

lemma progresses_trans: "progresses u v \<Longrightarrow> progresses v w \<Longrightarrow> progresses u w"
  by (simp add: progresses_def) (meson order_trans supersedes_trans)

lemma suppress_ok:
  assumes "workflow_ok w" and "require_label i f = Inr ()"
  shows "workflow_ok (w\<lparr>suppressed_ids := bs_insert i (suppressed_ids w)\<rparr>)"
    and "progresses w (w\<lparr>suppressed_ids := bs_insert i (suppressed_ids w)\<rparr>)"
proof -
  have "target_ok (w\<lparr>suppressed_ids := bs_insert i (suppressed_ids w)\<rparr>) e" if "target_ok w e" for e
    using that by (simp add: target_ok_def)
  then show "workflow_ok (w\<lparr>suppressed_ids := bs_insert i (suppressed_ids w)\<rparr>)"
    using assms by (simp add: workflow_ok_def require_label_cong)
qed (auto simp: progresses_def supersedes_refl)

lemma record_ok:
  assumes ok: "workflow_ok w" and "validate_target t = Inr ()" and "requested_at_micros w \<le> updated_at_micros t"
    and "target_id t \<in> set (suppressed_ids w)"
    and "\<And>p. bt_get (targets w) (target_id t) = Some p \<Longrightarrow> supersedes t p"
  shows "workflow_ok (w\<lparr>targets := bt_insert (target_id t) t (targets w)\<rparr>)"
    and "progresses w (w\<lparr>targets := bt_insert (target_id t) t (targets w)\<rparr>)"
proof -
  have "target_ok (w\<lparr>targets := bt_insert (target_id t) t (targets w)\<rparr>) e"
    if "e \<in> set (bt_insert (target_id t) t (targets w))" for e
    using bt_insert_mem [OF that] assms by (auto simp: workflow_ok_def target_ok_def)
  then show "workflow_ok (w\<lparr>targets := bt_insert (target_id t) t (targets w)\<rparr>)"
    using ok by (simp add: workflow_ok_def bt_ok_insert)
  show "progresses w (w\<lparr>targets := bt_insert (target_id t) t (targets w)\<rparr>)"
    using assms(5) by (auto simp: progresses_def supersedes_refl)
qed

text \<open>The three outcomes of \<open>record_target\<close> on the workflow.\<close>

lemma record_target_effect:
  "fst (record_target t w) = w \<or>
   validate_target t = Inr () \<and> requested_at_micros w \<le> updated_at_micros t \<and>
   (fst (record_target t w) = w\<lparr>suppressed_ids := bs_insert (target_id t) (suppressed_ids w)\<rparr> \<or>
    fst (record_target t w) = w\<lparr>suppressed_ids := bs_insert (target_id t) (suppressed_ids w),
        targets := bt_insert (target_id t) t (targets w)\<rparr> \<and>
    (\<forall>p. bt_get (targets w) (target_id t) = Some p \<longrightarrow> supersedes t p))"
proof (cases "rbind (validate_target t) (\<lambda>_. rguard (\<not> updated_at_micros t < requested_at_micros w)
    (IntegrityFailure ''deletion target update predates the workflow''))")
  case (Inr u)
  then show ?thesis
    by (auto simp: record_target_def Let_def supersedes_def not_le not_less split: option.split)
qed (simp add: record_target_def)

lemma deletion_step_ok:
  assumes ok: "workflow_ok w"
  shows "workflow_ok (deletion_step call w) \<and> progresses w (deletion_step call w)"
proof (cases call)
  case (Suppress i)
  then show ?thesis
    using ok suppress_ok [OF ok, of i] progresses_refl
    by (auto simp: suppress_dependency_def rguard_def require_label_def)
next
  case (Record t)
  let ?w1 = "w\<lparr>suppressed_ids := bs_insert (target_id t) (suppressed_ids w)\<rparr>"
  consider "fst (record_target t w) = w"
    | "validate_target t = Inr ()" "fst (record_target t w) = ?w1"
    | "validate_target t = Inr ()" "requested_at_micros w \<le> updated_at_micros t"
      "fst (record_target t w) = ?w1\<lparr>targets := bt_insert (target_id t) t (targets ?w1)\<rparr>"
      "\<And>p. bt_get (targets w) (target_id t) = Some p \<Longrightarrow> supersedes t p"
    using record_target_effect [of t w] by auto
  then show ?thesis
  proof cases
    case 1
    then show ?thesis using Record ok by (simp add: progresses_refl)
  next
    case 2
    then have "require_label (target_id t) ''deletion_target_id'' = Inr ()" by (simp add: validate_target_def)
    from suppress_ok [OF ok this] 2(2) show ?thesis by (simp add: Record)
  next
    case 3
    have w1: "workflow_ok ?w1" "progresses w ?w1"
      using 3(1) suppress_ok [OF ok, of "target_id t" "''deletion_target_id''"] by (simp_all add: validate_target_def)
    have "workflow_ok (?w1\<lparr>targets := bt_insert (target_id t) t (targets ?w1)\<rparr>)"
        "progresses ?w1 (?w1\<lparr>targets := bt_insert (target_id t) t (targets ?w1)\<rparr>)"
      using record_ok [OF w1(1) 3(1)] 3(2,4) by simp_all
    then show ?thesis unfolding Record deletion_step.simps 3(3) using progresses_trans [OF w1(2)] by blast
  qed
qed

interpretation deletion: guarded_machine deletion_step workflow_ok progresses
  by unfold_locales (use deletion_step_ok progresses_refl progresses_trans in blast)+

section \<open>Completion\<close>

lemma mandatory_all: "set mandatory_target_classes = UNIV"
proof -
  have "cl \<in> set mandatory_target_classes" for cl
    by (cases cl) (simp_all add: mandatory_target_classes_def)
  then show ?thesis by blast
qed

lemma require_classes_Inr_iff: "require_classes m ts = Inr u \<longleftrightarrow> (\<forall>cl. \<exists>t \<in> set ts. target_class t = cl)"
  by (simp add: require_classes_def mandatory_all)

text \<open>What a workflow must have reached before a receipt is sealed at a given time.\<close>

definition deletion_done :: "deletion_workflow \<Rightarrow> int \<Rightarrow> deletion_evidence_verifier \<Rightarrow> bool" where
  "deletion_done w completed verifier \<longleftrightarrow>
     requested_at_micros w \<le> completed \<and>
     (\<forall>cl. \<exists>t \<in> snd ` set (targets w). target_class t = cl) \<and>
     (\<forall>t \<in> snd ` set (targets w). is_complete (disposition t) \<and> verification_digest t \<noteq> None \<and>
        updated_at_micros t \<le> completed \<and>
        verify_target verifier (deletion_id w) (workspace_id w) (root_lineage_digest w) t = Inr ()) \<and>
     verify_closure verifier (deletion_id w) (workspace_id w) (root_lineage_digest w) (suppressed_ids w)
       (map snd (targets w)) = Inr ()"

definition receipt_of :: "deletion_workflow \<Rightarrow> int \<Rightarrow> unsigned_receipt" where
  "receipt_of w completed =
     \<lparr>rc_deletion_id = deletion_id w, rc_workspace_id = workspace_id w,
      rc_root_lineage_digest = root_lineage_digest w, rc_policy_digest = policy_digest w,
      rc_requested_at_micros = requested_at_micros w, rc_completed_at_micros = completed,
      rc_targets = map snd (targets w)\<rparr>"

lemma workflow_complete_iff:
  "workflow_complete c js w completed key verifier = Inr r \<longleftrightarrow>
     deletion_done w completed verifier \<and>
     (\<exists>json. js (receipt_of w completed) = Some json \<and>
        r = unsigned_receipt.extend (receipt_of w completed)
          (deletion_receipt.fields (digest c json) (signing_key_id key)
            (sign_domain c key DELETION_SIGNATURE_DOMAIN (str_bytes (digest c json)))))"
  by (auto simp: workflow_complete_def Let_def require_classes_Inr_iff deletion_done_def receipt_of_def not_less)

text \<open>The loop of \<open>verify\<close> accepts targets with distinct identities that are complete and in time.\<close>

lemma rfold_verify_targets:
  assumes "\<And>t. t \<in> set ts \<Longrightarrow> validate_target t = Inr () \<and> is_complete (disposition t) \<and> verification_digest t \<noteq> None \<and>
      rc_requested_at_micros r \<le> updated_at_micros t \<and> updated_at_micros t \<le> rc_completed_at_micros r"
    and "distinct (map target_id ts)" and "set (map target_id ts) \<inter> set seen = {}"
  shows "\<exists>s. rfold (verify_receipt_target r) ts seen = Inr s"
  using assms
proof (induction ts arbitrary: seen)
  case (Cons t ts)
  have "verify_receipt_target r t seen = Inr (bs_insert (target_id t) seen)"
    using Cons.prems by (simp add: verify_receipt_target_def not_less)
  moreover have "\<exists>s. rfold (verify_receipt_target r) ts (bs_insert (target_id t) seen) = Inr s"
    using Cons.prems by (intro Cons.IH) auto
  ultimately show ?case by simp
qed simp

lemma receipt_fields:
  assumes "r = unsigned_receipt.extend (receipt_of w completed) (deletion_receipt.fields d k s)"
  shows "unsigned_receipt.truncate r = receipt_of w completed" "receipt_digest r = d"
    "receipt_signing_key_id r = k" "receipt_signature r = s" "rc_targets r = map snd (targets w)"
    "rc_deletion_id r = deletion_id w" "rc_workspace_id r = workspace_id w"
    "rc_root_lineage_digest r = root_lineage_digest w" "rc_policy_digest r = policy_digest w"
    "rc_requested_at_micros r = requested_at_micros w" "rc_completed_at_micros r = completed"
  by (simp_all add: assms receipt_of_def unsigned_receipt.defs deletion_receipt.defs)

lemma complete_verifies:
  assumes c: "hash_ok c" "signing_ok c" and ok: "workflow_ok w"
    and r: "workflow_complete c js w completed key verifier = Inr r"
  shows "receipt_verify c js r (verifying_key c key) = Inr ()"
proof -
  obtain json where fin: "deletion_done w completed verifier" and json: "js (receipt_of w completed) = Some json"
    and req: "r = unsigned_receipt.extend (receipt_of w completed)
          (deletion_receipt.fields (digest c json) (signing_key_id key)
            (sign_domain c key DELETION_SIGNATURE_DOMAIN (str_bytes (digest c json))))"
    using r by (auto simp: workflow_complete_iff)
  note f = receipt_fields [OF req]
  have ids: "map target_id (map snd (targets w)) = map fst (targets w)"
    using ok by (auto simp: workflow_ok_def target_ok_def)
  have "\<exists>s. rfold (verify_receipt_target r) (map snd (targets w)) [] = Inr s"
  proof (rule rfold_verify_targets)
    show "distinct (map target_id (map snd (targets w)))"
      unfolding ids using ok by (intro bt_ok_distinct) (simp add: workflow_ok_def)
    show "validate_target t = Inr () \<and> is_complete (disposition t) \<and> verification_digest t \<noteq> None \<and>
        rc_requested_at_micros r \<le> updated_at_micros t \<and> updated_at_micros t \<le> rc_completed_at_micros r"
      if "t \<in> set (map snd (targets w))" for t
      using that ok fin by (auto simp: f workflow_ok_def target_ok_def deletion_done_def)
  qed simp
  then show ?thesis
    using ok fin json digest_valid [OF c(1)] verify_sign_domain [OF c(2)]
    by (auto simp: receipt_verify_def f require_classes_Inr_iff workflow_ok_def deletion_done_def canonical_json_def not_less)
qed

section \<open>Properties\<close>

definition deletion_run :: "deletion_workflow \<Rightarrow> deletion_call list \<Rightarrow> deletion_workflow" where
  "deletion_run w calls = fold deletion_step calls w"

lemma deletion_run_ok:
  assumes "workflow_new did ws root policy requested suppressed = Inr w0" and "strictly_sorted suppressed"
  shows "workflow_ok (deletion_run w0 calls)"
  unfolding deletion_run_def by (rule deletion.run_inv [OF workflow_new_ok [OF assms]])

text \<open>A workflow on which one completed target of every class has been recorded.\<close>

definition demo_target :: "deletion_target_class \<Rightarrow> deletion_target" where
  "demo_target cl = \<lparr>target_id = class_name cl, target_class = cl, disposition = Deleted,
     verification_digest = Some (replicate 64 CHR ''a''), updated_at_micros = 10\<rparr>"

definition deletion_demo_calls :: "deletion_call list" where
  "deletion_demo_calls = map Record (map demo_target mandatory_target_classes)"

definition demo_verifier :: deletion_evidence_verifier where
  "demo_verifier = \<lparr>verify_target = (\<lambda>_ _ _ _. Inr ()), verify_closure = (\<lambda>_ _ _ _ _. Inr ())\<rparr>"

lemma bt_insert_new_set: "bt_get m k = None \<Longrightarrow> set (bt_insert k v m) = insert (k, v) (set m)"
  by (induction k v m rule: bt_insert.induct) (auto split: if_splits)

lemma record_all:
  assumes "\<And>t. t \<in> set ts \<Longrightarrow> validate_target t = Inr () \<and> requested_at_micros w \<le> updated_at_micros t"
    and "distinct (map target_id ts)" and "\<And>t. t \<in> set ts \<Longrightarrow> bt_get (targets w) (target_id t) = None"
  shows "snd ` set (targets (fold deletion_step (map Record ts) w)) = set ts \<union> snd ` set (targets w) \<and>
    requested_at_micros (fold deletion_step (map Record ts) w) = requested_at_micros w"
  using assms
proof (induction ts arbitrary: w)
  case (Cons t ts)
  let ?w = "w\<lparr>suppressed_ids := bs_insert (target_id t) (suppressed_ids w),
      targets := bt_insert (target_id t) t (targets w)\<rparr>"
  have step: "deletion_step (Record t) w = ?w"
    using Cons.prems by (simp add: record_target_def Let_def not_less)
  have "snd ` set (targets (fold deletion_step (map Record ts) ?w)) = set ts \<union> snd ` set (targets ?w) \<and>
      requested_at_micros (fold deletion_step (map Record ts) ?w) = requested_at_micros ?w"
  proof (rule Cons.IH)
    show "bt_get (targets ?w) (target_id u) = None" if "u \<in> set ts" for u
      using Cons.prems(2) Cons.prems(3) [of u] that by (cases "target_id u = target_id t") (auto simp: image_iff)
  qed (use Cons.prems in auto)
  then show ?case using Cons.prems(3) [of t] by (simp add: step bt_insert_new_set del: deletion_step.simps)
qed simp

lemma demo_new: "\<exists>w. workflow_new ''deletion-1'' ''alice'' (replicate 64 CHR ''a'') (replicate 64 CHR ''b'') 5 [''memory-1''] = Inr w \<and>
    targets w = [] \<and> requested_at_micros w = 5"
proof -
  have "require_label ''deletion-1'' f = Inr ()" "require_label ''alice'' f = Inr ()" "require_label ''memory-1'' f = Inr ()" for f
    by (simp_all add: require_label_def) code_simp+
  moreover have "require_digest (replicate 64 CHR ''a'') f = Inr ()" "require_digest (replicate 64 CHR ''b'') f = Inr ()" for f
    by (simp_all add: require_digest_def list_all_iff is_lower_hex_def)
  ultimately show ?thesis by (simp add: workflow_new_def)
qed

lemma demo_done:
  assumes "targets w = []" and "requested_at_micros w = 5"
  shows "deletion_done (deletion_run w deletion_demo_calls) 20 demo_verifier"
proof -
  have "require_label (class_name cl) f = Inr ()" for cl f
    by (cases cl) (simp_all add: require_label_def, code_simp+)
  then have valid: "validate_target (demo_target cl) = Inr ()" for cl
    by (simp add: validate_target_def demo_target_def require_digest_def list_all_iff is_lower_hex_def)
  let ?ts = "map demo_target mandatory_target_classes"
  have "snd ` set (targets (fold deletion_step (map Record ?ts) w)) = set ?ts \<union> snd ` set (targets w) \<and>
      requested_at_micros (fold deletion_step (map Record ?ts) w) = requested_at_micros w"
  proof (rule record_all)
    show "distinct (map target_id ?ts)" by (simp add: mandatory_target_classes_def demo_target_def)
    show "validate_target t = Inr () \<and> requested_at_micros w \<le> updated_at_micros t" if "t \<in> set ?ts" for t
      using that assms valid by (auto simp: demo_target_def)
  qed (simp add: assms)
  then have "snd ` set (targets (deletion_run w deletion_demo_calls)) = range demo_target"
      "requested_at_micros (deletion_run w deletion_demo_calls) = 5"
    using assms by (simp_all add: deletion_run_def deletion_demo_calls_def mandatory_all)
  then show ?thesis
    by (auto simp: deletion_done_def demo_target_def is_complete_def demo_verifier_def)
qed

text \<open>C27. The deletion workflow stays well formed and only progresses: after any sequence of calls,
  refused ones included, every recorded target is filed under its own identity, is valid, was updated
  no earlier than the request and is suppressed; whatever happens next, nothing suppressed becomes
  visible again and a completed target keeps its disposition and evidence.\<close>

theorem deletion_only_progresses:
  assumes "workflow_new did ws root policy requested suppressed = Inr w0" and "strictly_sorted suppressed"
    and "w = deletion_run w0 calls" and "v = deletion_run w0 (calls @ later)"
  shows "(\<forall>i t. bt_get (targets w) i = Some t \<longrightarrow> target_id t = i \<and> validate_target t = Inr () \<and>
        requested \<le> updated_at_micros t \<and> is_suppressed w i) \<and>
    (\<forall>i. is_suppressed w i \<longrightarrow> is_suppressed v i) \<and>
    (\<forall>i t. bt_get (targets w) i = Some t \<and> is_complete (disposition t) \<longrightarrow> bt_get (targets v) i = Some t)"
proof -
  have w0: "workflow_ok w0" "requested_at_micros w0 = requested"
    using workflow_new_ok [OF assms(1,2)] assms(1) by (auto simp: workflow_new_def)
  have ok: "workflow_ok w" unfolding assms(3) by (rule deletion_run_ok [OF assms(1,2)])
  have "requested_at_micros w = requested"
    using deletion.run_grows [OF w0(1)] w0(2) unfolding assms(3) deletion_run_def progresses_def by simp
  then have "target_id t = i \<and> validate_target t = Inr () \<and> requested \<le> updated_at_micros t \<and> is_suppressed w i"
    if "bt_get (targets w) i = Some t" for i t
    using ok map_of_SomeD [OF that] by (auto simp: workflow_ok_def target_ok_def is_suppressed_def)
  moreover have "progresses w v"
    using deletion.run_between [OF w0(1)] unfolding assms(3,4) deletion_run_def .
  ultimately show ?thesis by (fastforce simp: progresses_def supersedes_def is_suppressed_def)
qed

theorem deletion_only_progresses_witness:
  "\<exists>w0. workflow_new ''deletion-1'' ''alice'' (replicate 64 CHR ''a'') (replicate 64 CHR ''b'') 5 [''memory-1''] = Inr w0 \<and>
     is_suppressed (deletion_run w0 []) ''memory-1'' \<and> is_suppressed (deletion_run w0 deletion_demo_calls) ''memory-1''"
proof -
  obtain w0 where w0: "workflow_new ''deletion-1'' ''alice'' (replicate 64 CHR ''a'') (replicate 64 CHR ''b'') 5 [''memory-1''] = Inr w0"
    using demo_new by blast
  have "is_suppressed (deletion_run w0 []) ''memory-1''"
    using w0 by (auto simp: deletion_run_def is_suppressed_def workflow_new_def)
  with deletion_only_progresses [OF w0 _ refl refl, of "[]" deletion_demo_calls] w0 show ?thesis by auto
qed

text \<open>C26. A deletion receipt is sealed exactly when the deletion is finished: every mandatory class
  has a target, every target is resolved with evidence no later than the completion time, the evidence
  verifier accepts each target and the closure over all suppressed identities, and the receipt can be
  serialised. A sealed receipt lists exactly the recorded targets and passes independent
  verification.\<close>

theorem deletion_receipt_exact:
  assumes "crypto_ok c" and "workflow_new did ws root policy requested suppressed = Inr w0"
    and "strictly_sorted suppressed" and "w = deletion_run w0 calls"
  shows "((\<exists>r. workflow_complete c js w completed key verifier = Inr r) \<longleftrightarrow>
      deletion_done w completed verifier \<and> js (receipt_of w completed) \<noteq> None) \<and>
    (\<forall>r. workflow_complete c js w completed key verifier = Inr r \<longrightarrow>
      rc_targets r = map snd (targets w) \<and> receipt_verify c js r (verifying_key c key) = Inr ())"
proof -
  have c: "hash_ok c" "signing_ok c" using assms(1) by (simp_all add: crypto_ok_def)
  have ok: "workflow_ok w" unfolding assms(4) by (rule deletion_run_ok [OF assms(2,3)])
  have "rc_targets r = map snd (targets w)" if "workflow_complete c js w completed key verifier = Inr r" for r
    using that receipt_fields(5) unfolding workflow_complete_iff by blast
  moreover have "(\<exists>r. workflow_complete c js w completed key verifier = Inr r) \<longleftrightarrow>
      deletion_done w completed verifier \<and> js (receipt_of w completed) \<noteq> None"
    by (simp add: workflow_complete_iff)
  ultimately show ?thesis using complete_verifies [OF c ok] by blast
qed

theorem deletion_receipt_exact_witness:
  "\<exists>w0 r. workflow_new ''deletion-1'' ''alice'' (replicate 64 CHR ''a'') (replicate 64 CHR ''b'') 5 [''memory-1''] = Inr w0 \<and>
     workflow_complete demo_crypto (\<lambda>_. Some [1]) (deletion_run w0 deletion_demo_calls) 20 demo_key demo_verifier = Inr r \<and>
     receipt_verify demo_crypto (\<lambda>_. Some [1]) r (verifying_key demo_crypto demo_key) = Inr ()"
proof -
  obtain w0 where w0: "workflow_new ''deletion-1'' ''alice'' (replicate 64 CHR ''a'') (replicate 64 CHR ''b'') 5 [''memory-1''] = Inr w0"
      "targets w0 = []" "requested_at_micros w0 = 5"
    using demo_new by blast
  have "strictly_sorted [''memory-1'']" by simp
  from deletion_receipt_exact [OF demo_crypto_ok w0(1) this refl, where calls = deletion_demo_calls and js = "\<lambda>_. Some [1]"
      and completed = 20 and key = demo_key and verifier = demo_verifier] demo_done [OF w0(2,3)] w0(1)
  show ?thesis by auto
qed

end
