(* ===== verification/Security_Backup.thy ===== *)
theory Security_Backup
  imports Security_Base
begin

text \<open>
  Encrypted, signed backup envelopes of \<open>crates/contextdb-security/src/backup.rs\<close>: creation,
  verification without decryption, lineage, the restore policy and restoration. The nonce is the
  value the operating system's generator returned, an argument of \<open>encrypt_backup\<close>; the canonical
  JSON of a header and of a signed manifest are the functions of the record \<open>backup_json\<close>. Times
  are only compared, so an \<open>i64\<close> is an \<open>int\<close>.
\<close>

section \<open>Envelopes\<close>

definition BACKUP_SIGNATURE_DOMAIN :: bytes where
  "BACKUP_SIGNATURE_DOMAIN = str_bytes ''contextdb/backup-manifest/v1'' @ [0]"

definition MAX_BACKUP_BYTES :: nat where
  "MAX_BACKUP_BYTES = 512 * 1024 * 1024"

definition MAX_BACKUP_SCOPES :: nat where
  "MAX_BACKUP_SCOPES = 4096"

record backup_header =
  format_version :: u16
  header_database_id :: string
  header_workspace_id :: string
  header_scopes :: "string btree_set"
  header_policy_digest :: string
  header_created_at_micros :: int
  header_expires_at_micros :: int
  header_encryption_key_id :: string
  header_encryption_key_generation :: u64
  header_signing_key_id :: string
  header_signing_key_generation :: u64
  header_parent_manifest_digest :: "string option"

record signed_manifest =
  header_digest :: string
  ciphertext_digest :: string
  nonce :: bytes

record backup_manifest = signed_manifest +
  signature :: bytes
  manifest_digest :: string

record encrypted_backup =
  header :: backup_header
  manifest :: backup_manifest
  ciphertext :: bytes

record backup_request =
  archive :: bytes
  request_database_id :: string
  request_workspace_id :: string
  request_scopes :: "string btree_set"
  request_policy_digest :: string
  request_created_at_micros :: int
  request_expires_at_micros :: int
  request_parent_manifest_digest :: "string option"

record restore_authorization =
  now_micros :: int
  expected_database_id :: string
  expected_workspace_id :: string
  expected_policy_digest :: string
  expected_manifest_digest :: string
  minimum_encryption_key_generation :: u64
  minimum_signing_key_generation :: u64
  allowed_scopes :: "string btree_set"
  restore_capability :: bool

record backup_json =
  header_json :: "backup_header \<Rightarrow> bytes option"
  manifest_json :: "signed_manifest \<Rightarrow> bytes option"

section \<open>Validation\<close>

definition validate_request :: "backup_request \<Rightarrow> security_error + unit" where
  "validate_request r =
     rbind (require_label (request_database_id r) ''database_id'') (\<lambda>_.
     rbind (require_label (request_workspace_id r) ''workspace_id'') (\<lambda>_.
     rbind (require_digest (request_policy_digest r) ''policy_digest'') (\<lambda>_.
     rbind (rguard (\<not> (archive r = [] \<or> MAX_BACKUP_BYTES < length (archive r)))
       (InvalidInput ''archive size is outside the supported range'')) (\<lambda>_.
     rbind (rguard (request_scopes r \<noteq> [])
       (PolicyDenied ''an encrypted export requires explicit non-empty scopes'')) (\<lambda>_.
     rbind (rguard (\<not> MAX_BACKUP_SCOPES < length (request_scopes r))
       (ResourceExhausted ''encrypted export has too many scopes'')) (\<lambda>_.
     rbind (rall (\<lambda>s. require_label s ''scope'') (request_scopes r)) (\<lambda>_.
     rbind (rguard (\<not> request_expires_at_micros r \<le> request_created_at_micros r)
       (InvalidInput ''backup expiry must follow creation'')) (\<lambda>_.
     require_opt (\<lambda>p. require_digest p ''parent_manifest_digest'') (request_parent_manifest_digest r)))))))))"

definition validate_header :: "backup_header \<Rightarrow> security_error + unit" where
  "validate_header h =
     rbind (rguard (format_version h = 1) (IntegrityFailure ''unsupported backup format version'')) (\<lambda>_.
     rbind (require_label (header_database_id h) ''database_id'') (\<lambda>_.
     rbind (require_label (header_workspace_id h) ''workspace_id'') (\<lambda>_.
     rbind (require_digest (header_policy_digest h) ''policy_digest'') (\<lambda>_.
     rbind (require_label (header_encryption_key_id h) ''encryption_key_id'') (\<lambda>_.
     rbind (require_label (header_signing_key_id h) ''signing_key_id'') (\<lambda>_.
     rbind (rguard (\<not> (header_encryption_key_generation h = 0 \<or> header_signing_key_generation h = 0))
       (InvalidInput ''backup key generations must be nonzero'')) (\<lambda>_.
     rbind (rguard (\<not> (header_scopes h = [] \<or> MAX_BACKUP_SCOPES < length (header_scopes h)))
       (IntegrityFailure ''backup scope set is outside the supported bound'')) (\<lambda>_.
     rbind (rall (\<lambda>s. require_label s ''scope'') (header_scopes h)) (\<lambda>_.
     rbind (rguard (\<not> header_expires_at_micros h \<le> header_created_at_micros h)
       (IntegrityFailure ''backup expiry is invalid'')) (\<lambda>_.
     require_opt (\<lambda>p. require_digest p ''parent_manifest_digest'') (header_parent_manifest_digest h)))))))))))"

definition validate_restore_policy ::
    "encrypted_backup \<Rightarrow> backup_encryption_key \<Rightarrow> backup_verifying_key \<Rightarrow> restore_authorization \<Rightarrow> security_error + unit" where
  "validate_restore_policy b ek vk auth =
     rbind (rguard (restore_capability auth) (PolicyDenied ''explicit restore capability is required'')) (\<lambda>_.
     rbind (require_label (expected_database_id auth) ''expected_database_id'') (\<lambda>_.
     rbind (require_label (expected_workspace_id auth) ''expected_workspace_id'') (\<lambda>_.
     rbind (require_digest (expected_policy_digest auth) ''expected_policy_digest'') (\<lambda>_.
     rbind (require_digest (expected_manifest_digest auth) ''expected_manifest_digest'') (\<lambda>_.
     rbind (rguard (\<not> MAX_BACKUP_SCOPES < length (allowed_scopes auth))
       (ResourceExhausted ''restore authorization has too many scopes'')) (\<lambda>_.
     rbind (rall (\<lambda>s. require_label s ''allowed_scope'') (allowed_scopes auth)) (\<lambda>_.
     rbind (validate_header (header b)) (\<lambda>_.
     rbind (rguard (\<not> (format_version (header b) \<noteq> 1 \<or>
           header_database_id (header b) \<noteq> expected_database_id auth \<or>
           header_workspace_id (header b) \<noteq> expected_workspace_id auth \<or>
           header_policy_digest (header b) \<noteq> expected_policy_digest auth \<or>
           manifest_digest (manifest b) \<noteq> expected_manifest_digest auth \<or>
           header_encryption_key_id (header b) \<noteq> encryption_key_id ek \<or>
           header_encryption_key_generation (header b) \<noteq> encryption_generation ek \<or>
           header_encryption_key_generation (header b) < minimum_encryption_key_generation auth \<or>
           header_signing_key_id (header b) \<noteq> verifying_key_id vk \<or>
           header_signing_key_generation (header b) \<noteq> verifying_generation vk \<or>
           header_signing_key_generation (header b) < minimum_signing_key_generation auth))
       (PolicyDenied ''backup identity or key binding does not match restore target'')) (\<lambda>_.
     rbind (rguard (\<not> now_micros auth < header_created_at_micros (header b))
       (PolicyDenied ''backup is not valid yet'')) (\<lambda>_.
     rbind (rguard (\<not> header_expires_at_micros (header b) \<le> now_micros auth) (PolicyDenied ''backup is expired'')) (\<lambda>_.
     rbind (rguard (set (header_scopes (header b)) \<subseteq> set (allowed_scopes auth))
       (PolicyDenied ''restore target does not authorize every exported scope'')) (\<lambda>_.
     rguard (\<not> saturating_add_usize MAX_BACKUP_BYTES 64 < length (ciphertext b))
       (ResourceExhausted ''encrypted backup exceeds the supported bound'')))))))))))))"

section \<open>Creation, verification and restoration\<close>

definition encrypt_backup ::
    "crypto \<Rightarrow> backup_json \<Rightarrow> backup_request \<Rightarrow> backup_encryption_key \<Rightarrow> backup_signing_key \<Rightarrow> bytes option
      \<Rightarrow> security_error + encrypted_backup" where
  "encrypt_backup c js r ek sk random =
     rbind (validate_request r) (\<lambda>_.
     let h = \<lparr>format_version = 1, header_database_id = request_database_id r,
           header_workspace_id = request_workspace_id r, header_scopes = request_scopes r,
           header_policy_digest = request_policy_digest r,
           header_created_at_micros = request_created_at_micros r,
           header_expires_at_micros = request_expires_at_micros r,
           header_encryption_key_id = encryption_key_id ek,
           header_encryption_key_generation = encryption_generation ek,
           header_signing_key_id = signing_key_id sk,
           header_signing_key_generation = signing_generation sk,
           header_parent_manifest_digest = request_parent_manifest_digest r\<rparr>
     in rbind (canonical_json (header_json js) h) (\<lambda>associated_data.
     rbind (ok_or CryptographicFailure random) (\<lambda>n.
     rbind (ok_or CryptographicFailure (xchacha_encrypt c (encryption_bytes ek) n (archive r) associated_data)) (\<lambda>ct.
     let sm = \<lparr>header_digest = digest c associated_data, ciphertext_digest = digest c ct, nonce = n\<rparr>
     in rbind (canonical_json (manifest_json js) sm) (\<lambda>signed_bytes.
     Inr \<lparr>header = h,
          manifest = signed_manifest.extend sm
            (backup_manifest.fields (sign_domain c sk BACKUP_SIGNATURE_DOMAIN signed_bytes) (digest c signed_bytes)),
          ciphertext = ct\<rparr>)))))"

definition verify_backup_envelope ::
    "crypto \<Rightarrow> backup_json \<Rightarrow> encrypted_backup \<Rightarrow> backup_verifying_key \<Rightarrow> security_error + unit" where
  "verify_backup_envelope c js b vk =
     rbind (validate_header (header b)) (\<lambda>_.
     rbind (rguard (header_signing_key_id (header b) = verifying_key_id vk)
       (IntegrityFailure ''backup signing-key identity mismatch'')) (\<lambda>_.
     rbind (rguard (header_signing_key_generation (header b) = verifying_generation vk)
       (IntegrityFailure ''backup signing-key generation mismatch'')) (\<lambda>_.
     rbind (rguard (\<not> saturating_add_usize MAX_BACKUP_BYTES 64 < length (ciphertext b))
       (ResourceExhausted ''encrypted backup exceeds the supported bound'')) (\<lambda>_.
     rbind (canonical_json (header_json js) (header b)) (\<lambda>associated_data.
     rbind (rguard (\<not> (digest c associated_data \<noteq> header_digest (manifest b) \<or>
           digest c (ciphertext b) \<noteq> ciphertext_digest (manifest b)))
       (IntegrityFailure ''backup header or ciphertext digest mismatch'')) (\<lambda>_.
     rbind (rguard (length (nonce (manifest b)) = 24) (IntegrityFailure ''invalid nonce length'')) (\<lambda>_.
     rbind (canonical_json (manifest_json js) (signed_manifest.truncate (manifest b))) (\<lambda>signed_bytes.
     rbind (rguard (digest c signed_bytes = manifest_digest (manifest b))
       (IntegrityFailure ''manifest digest mismatch'')) (\<lambda>_.
     verify_domain c vk BACKUP_SIGNATURE_DOMAIN signed_bytes (signature (manifest b)))))))))))"

definition restore_backup ::
    "crypto \<Rightarrow> backup_json \<Rightarrow> encrypted_backup \<Rightarrow> backup_encryption_key \<Rightarrow> backup_verifying_key
      \<Rightarrow> restore_authorization \<Rightarrow> security_error + bytes" where
  "restore_backup c js b ek vk auth =
     rbind (validate_restore_policy b ek vk auth) (\<lambda>_.
     rbind (verify_backup_envelope c js b vk) (\<lambda>_.
     rbind (canonical_json (header_json js) (header b)) (\<lambda>associated_data.
     rbind (rguard (length (nonce (manifest b)) = 24) (IntegrityFailure ''invalid nonce length'')) (\<lambda>_.
     ok_or CryptographicFailure
       (xchacha_decrypt c (encryption_bytes ek) (nonce (manifest b)) (ciphertext b) associated_data)))))"

definition verify_backup_successor ::
    "crypto \<Rightarrow> backup_json \<Rightarrow> encrypted_backup \<Rightarrow> backup_verifying_key \<Rightarrow> encrypted_backup \<Rightarrow> backup_verifying_key
      \<Rightarrow> security_error + unit" where
  "verify_backup_successor c js parent pk child ck =
     rbind (verify_backup_envelope c js parent pk) (\<lambda>_.
     rbind (verify_backup_envelope c js child ck) (\<lambda>_.
     rguard (\<not> (header_database_id (header child) \<noteq> header_database_id (header parent) \<or>
         header_workspace_id (header child) \<noteq> header_workspace_id (header parent) \<or>
         header_parent_manifest_digest (header child) \<noteq> Some (manifest_digest (manifest parent)) \<or>
         header_created_at_micros (header child) \<le> header_created_at_micros (header parent) \<or>
         header_encryption_key_generation (header child) < header_encryption_key_generation (header parent) \<or>
         header_signing_key_generation (header child) < header_signing_key_generation (header parent) \<or>
         manifest_digest (manifest child) = manifest_digest (manifest parent)))
       (IntegrityFailure ''backup lineage successor binding is invalid'')))"

section \<open>Genuine envelopes\<close>

text \<open>The parts of a created envelope.\<close>

lemma encrypt_backup_fields:
  assumes "encrypt_backup c js r ek sk random = Inr b"
  obtains n aad sb where "random = Some n" "validate_request r = Inr ()"
    "header_json js (header b) = Some aad"
    "xchacha_encrypt c (encryption_bytes ek) n (archive r) aad = Some (ciphertext b)"
    "manifest_json js (signed_manifest.truncate (manifest b)) = Some sb"
    "header_digest (manifest b) = digest c aad" "ciphertext_digest (manifest b) = digest c (ciphertext b)"
    "nonce (manifest b) = n" "manifest_digest (manifest b) = digest c sb"
    "signature (manifest b) = sign_domain c sk BACKUP_SIGNATURE_DOMAIN sb"
    "header b = \<lparr>format_version = 1, header_database_id = request_database_id r,
           header_workspace_id = request_workspace_id r, header_scopes = request_scopes r,
           header_policy_digest = request_policy_digest r,
           header_created_at_micros = request_created_at_micros r,
           header_expires_at_micros = request_expires_at_micros r,
           header_encryption_key_id = encryption_key_id ek,
           header_encryption_key_generation = encryption_generation ek,
           header_signing_key_id = signing_key_id sk,
           header_signing_key_generation = signing_generation sk,
           header_parent_manifest_digest = request_parent_manifest_digest r\<rparr>"
  using assms that
  by (auto simp: encrypt_backup_def Let_def signed_manifest.defs backup_manifest.defs)

text \<open>The keys the constructors return.\<close>

definition encryption_key_ok :: "backup_encryption_key \<Rightarrow> bool" where
  "encryption_key_ok k \<longleftrightarrow>
     require_label (encryption_key_id k) ''encryption_key_id'' = Inr () \<and> encryption_generation k \<noteq> 0"

lemma encrypt_header_valid:
  assumes "encrypt_backup c js r ek sk random = Inr b" and "encryption_key_ok ek" and "signing_key_ok sk"
  shows "validate_header (header b) = Inr ()"
proof (rule encrypt_backup_fields [OF assms(1)])
  assume "validate_request r = Inr ()"
    and "header b = \<lparr>format_version = 1, header_database_id = request_database_id r,
           header_workspace_id = request_workspace_id r, header_scopes = request_scopes r,
           header_policy_digest = request_policy_digest r,
           header_created_at_micros = request_created_at_micros r,
           header_expires_at_micros = request_expires_at_micros r,
           header_encryption_key_id = encryption_key_id ek,
           header_encryption_key_generation = encryption_generation ek,
           header_signing_key_id = signing_key_id sk,
           header_signing_key_generation = signing_generation sk,
           header_parent_manifest_digest = request_parent_manifest_digest r\<rparr>"
  then show ?thesis
    using assms(2,3) by (simp add: validate_header_def validate_request_def encryption_key_ok_def signing_key_ok_def)
qed

lemma encrypt_ciphertext_bound:
  assumes "aead_ok c" and "encrypt_backup c js r ek sk random = Inr b"
  shows "length (ciphertext b) \<le> saturating_add_usize MAX_BACKUP_BYTES 64"
proof (rule encrypt_backup_fields [OF assms(2)])
  fix n aad assume "validate_request r = Inr ()"
    and "xchacha_encrypt c (encryption_bytes ek) n (archive r) aad = Some (ciphertext b)"
  then have "length (ciphertext b) = length (archive r) + 16" "length (archive r) \<le> MAX_BACKUP_BYTES"
    using assms(1) by (auto simp: aead_ok_def validate_request_def not_less)
  then show ?thesis by (simp add: saturating_add_usize_def MAX_BACKUP_BYTES_def usize_max_def)
qed

lemma encrypt_verifies:
  assumes c: "crypto_ok c" and b: "encrypt_backup c js r ek sk (Some n) = Inr b" and "length n = 24"
    and keys: "encryption_key_ok ek" "signing_key_ok sk"
  shows "verify_backup_envelope c js b (verifying_key c sk) = Inr ()"
proof -
  have c': "signing_ok c" "aead_ok c" using c by (simp_all add: crypto_ok_def)
  obtain m aad sb where f: "Some n = Some m" "header_json js (header b) = Some aad"
    "manifest_json js (signed_manifest.truncate (manifest b)) = Some sb"
    "header_digest (manifest b) = digest c aad" "ciphertext_digest (manifest b) = digest c (ciphertext b)"
    "nonce (manifest b) = m" "manifest_digest (manifest b) = digest c sb"
    "signature (manifest b) = sign_domain c sk BACKUP_SIGNATURE_DOMAIN sb"
    "header_signing_key_id (header b) = signing_key_id sk"
    "header_signing_key_generation (header b) = signing_generation sk"
    by (rule encrypt_backup_fields [OF b]) simp
  then show ?thesis
    using encrypt_header_valid [OF b keys] encrypt_ciphertext_bound [OF c'(2) b] assms(3)
      verify_sign_domain [OF c'(1)]
    by (simp add: verify_backup_envelope_def canonical_json_def not_less)
qed

text \<open>What a restore of a genuine envelope must be authorised for.\<close>

definition restore_matches ::
    "backup_request \<Rightarrow> backup_encryption_key \<Rightarrow> backup_signing_key \<Rightarrow> encrypted_backup \<Rightarrow> restore_authorization \<Rightarrow> bool" where
  "restore_matches r ek sk b auth \<longleftrightarrow>
     restore_capability auth \<and> expected_database_id auth = request_database_id r \<and>
     expected_workspace_id auth = request_workspace_id r \<and> expected_policy_digest auth = request_policy_digest r \<and>
     expected_manifest_digest auth = manifest_digest (manifest b) \<and>
     minimum_encryption_key_generation auth \<le> encryption_generation ek \<and>
     minimum_signing_key_generation auth \<le> signing_generation sk \<and>
     request_created_at_micros r \<le> now_micros auth \<and> now_micros auth < request_expires_at_micros r \<and>
     set (request_scopes r) \<subseteq> set (allowed_scopes auth) \<and> length (allowed_scopes auth) \<le> MAX_BACKUP_SCOPES \<and>
     (\<forall>s \<in> set (allowed_scopes auth). require_label s ''allowed_scope'' = Inr ())"

lemma restore_policy_iff:
  assumes c: "crypto_ok c" and b: "encrypt_backup c js r ek sk (Some n) = Inr b"
    and keys: "encryption_key_ok ek" "signing_key_ok sk"
  shows "validate_restore_policy b ek (verifying_key c sk) auth = Inr () \<longleftrightarrow> restore_matches r ek sk b auth"
proof -
  obtain sb where req: "validate_request r = Inr ()" and h: "header b = \<lparr>format_version = 1,
           header_database_id = request_database_id r,
           header_workspace_id = request_workspace_id r, header_scopes = request_scopes r,
           header_policy_digest = request_policy_digest r,
           header_created_at_micros = request_created_at_micros r,
           header_expires_at_micros = request_expires_at_micros r,
           header_encryption_key_id = encryption_key_id ek,
           header_encryption_key_generation = encryption_generation ek,
           header_signing_key_id = signing_key_id sk,
           header_signing_key_generation = signing_generation sk,
           header_parent_manifest_digest = request_parent_manifest_digest r\<rparr>"
    and md: "manifest_digest (manifest b) = digest c sb"
    by (rule encrypt_backup_fields [OF b])
  have valid: "validate_header (header b) = Inr ()" "length (ciphertext b) \<le> saturating_add_usize MAX_BACKUP_BYTES 64"
    using encrypt_header_valid [OF b keys] encrypt_ciphertext_bound [OF _ b] c by (simp_all add: crypto_ok_def)
  have labels: "require_label (request_database_id r) f = Inr ()" "require_label (request_workspace_id r) f = Inr ()"
      "require_digest (request_policy_digest r) f = Inr ()" "require_digest (manifest_digest (manifest b)) f = Inr ()" for f
    using req md digest_valid [of c] c
    by (auto simp: validate_request_def crypto_ok_def intro: require_label_cong require_digest_cong)
  show ?thesis
    using valid labels by (auto simp: validate_restore_policy_def restore_matches_def h not_less not_le)
qed

lemma restore_genuine_iff:
  assumes "crypto_ok c" and "encryption_key_ok ek" and "signing_key_ok sk" and "length n = 24"
    and "encrypt_backup c js r ek sk (Some n) = Inr b"
  shows "restore_backup c js b ek (verifying_key c sk) auth = Inr p \<longleftrightarrow>
    p = archive r \<and> restore_matches r ek sk b auth"
proof -
  obtain m aad where f: "Some n = Some m" "header_json js (header b) = Some aad" "nonce (manifest b) = m"
      "xchacha_encrypt c (encryption_bytes ek) m (archive r) aad = Some (ciphertext b)"
    by (rule encrypt_backup_fields [OF assms(5)])
  have "xchacha_decrypt c (encryption_bytes ek) n (ciphertext b) aad = Some (archive r)"
    using f assms(1) by (auto simp: crypto_ok_def aead_ok_def)
  then show ?thesis
    using restore_policy_iff [OF assms(1,5,2,3)] encrypt_verifies [OF assms(1,5,4,2,3)] f assms(4)
    by (auto simp: restore_backup_def)
qed

section \<open>Authenticity\<close>

text \<open>Two envelopes with different headers, ciphertexts or manifests and the same digest of them.\<close>

definition envelopes_collide :: "crypto \<Rightarrow> backup_json \<Rightarrow> encrypted_backup \<Rightarrow> encrypted_backup \<Rightarrow> bool" where
  "envelopes_collide c js a b \<longleftrightarrow>
     (\<exists>x y. header_json js (header a) = Some x \<and> header_json js (header b) = Some y \<and> collides c x y) \<or>
     collides c (ciphertext a) (ciphertext b) \<or>
     (\<exists>x y. manifest_json js (signed_manifest.truncate (manifest a)) = Some x \<and>
        manifest_json js (signed_manifest.truncate (manifest b)) = Some y \<and> collides c x y)"

lemma verify_envelope_digests:
  assumes "verify_backup_envelope c js b vk = Inr ()"
  obtains x y where "header_json js (header b) = Some x" "header_digest (manifest b) = digest c x"
    "ciphertext_digest (manifest b) = digest c (ciphertext b)"
    "manifest_json js (signed_manifest.truncate (manifest b)) = Some y" "manifest_digest (manifest b) = digest c y"
  using assms that by (auto simp: verify_backup_envelope_def)

text \<open>The manifest digest determines what is verified, up to a collision.\<close>

lemma manifest_digest_binds:
  assumes inj: "json_inj (header_json js)" "json_inj (manifest_json js)"
    and a: "verify_backup_envelope c js a ka = Inr ()" and b: "verify_backup_envelope c js b kb = Inr ()"
    and same: "manifest_digest (manifest a) = manifest_digest (manifest b)"
  shows "header a = header b \<and> ciphertext a = ciphertext b \<and> nonce (manifest a) = nonce (manifest b) \<or>
    envelopes_collide c js a b"
proof -
  obtain x y where x: "header_json js (header a) = Some x" "header_digest (manifest a) = digest c x"
      "ciphertext_digest (manifest a) = digest c (ciphertext a)"
      "manifest_json js (signed_manifest.truncate (manifest a)) = Some y" "manifest_digest (manifest a) = digest c y"
    by (rule verify_envelope_digests [OF a])
  obtain v w where v: "header_json js (header b) = Some v" "header_digest (manifest b) = digest c v"
      "ciphertext_digest (manifest b) = digest c (ciphertext b)"
      "manifest_json js (signed_manifest.truncate (manifest b)) = Some w" "manifest_digest (manifest b) = digest c w"
    by (rule verify_envelope_digests [OF b])
  show ?thesis
  proof (cases "envelopes_collide c js a b")
    case False
    then have none: "\<not> collides c x v" "\<not> collides c (ciphertext a) (ciphertext b)" "\<not> collides c y w"
      using x v by (auto simp: envelopes_collide_def)
    have "signed_manifest.truncate (manifest a) = signed_manifest.truncate (manifest b)"
      using digest_eq_cases [OF inj(2) x(4) v(4)] none(3) x(5) v(5) same by metis
    then have m: "header_digest (manifest a) = header_digest (manifest b)"
        "ciphertext_digest (manifest a) = ciphertext_digest (manifest b)" "nonce (manifest a) = nonce (manifest b)"
      by (simp_all add: signed_manifest.defs)
    have "header a = header b" using digest_eq_cases [OF inj(1) x(1) v(1)] none(1) m(1) x(2) v(2) by metis
    moreover have "ciphertext a = ciphertext b" using none(2) m(2) x(3) v(3) by (simp add: collides_def)
    ultimately show ?thesis using m(3) by simp
  qed simp
qed

section \<open>Properties\<close>

definition demo_encryption_key :: backup_encryption_key where
  "demo_encryption_key = \<lparr>encryption_key_id = ''encryption-key'', encryption_generation = 1, encryption_bytes = replicate 32 7\<rparr>"

definition demo_request :: backup_request where
  "demo_request = \<lparr>archive = [1, 2, 3], request_database_id = ''db'', request_workspace_id = ''alice'',
     request_scopes = [''scope''], request_policy_digest = replicate 64 CHR ''a'', request_created_at_micros = 10,
     request_expires_at_micros = 20, request_parent_manifest_digest = None\<rparr>"

definition demo_authorization :: "string \<Rightarrow> restore_authorization" where
  "demo_authorization d = \<lparr>now_micros = 15, expected_database_id = ''db'', expected_workspace_id = ''alice'',
     expected_policy_digest = replicate 64 CHR ''a'', expected_manifest_digest = d,
     minimum_encryption_key_generation = 1, minimum_signing_key_generation = 1, allowed_scopes = [''scope''],
     restore_capability = True\<rparr>"

text \<open>A JSON that is defined on one header and one manifest only.\<close>

definition demo_backup_json :: "backup_header \<Rightarrow> signed_manifest \<Rightarrow> backup_json" where
  "demo_backup_json h m = \<lparr>header_json = (\<lambda>x. if x = h then Some [1] else None),
     manifest_json = (\<lambda>x. if x = m then Some [2] else None)\<rparr>"

lemma demo_backup_json_inj: "json_inj (header_json (demo_backup_json h m))" "json_inj (manifest_json (demo_backup_json h m))"
  by (simp_all add: json_inj_def demo_backup_json_def)

lemma backup_demo_labels:
  "require_label ''db'' f = Inr ()" "require_label ''alice'' f = Inr ()" "require_label ''scope'' f = Inr ()"
  "require_label ''encryption-key'' f = Inr ()" "require_label ''signing-key'' f = Inr ()"
  by (simp_all add: require_label_def) code_simp+

lemma demo_keys: "encryption_key_ok demo_encryption_key" "signing_key_ok demo_key"
  by (simp_all add: encryption_key_ok_def signing_key_ok_def demo_encryption_key_def demo_key_def backup_demo_labels)

lemma demo_backup:
  "\<exists>h m b. encrypt_backup demo_crypto (demo_backup_json h m) demo_request demo_encryption_key demo_key (Some (replicate 24 5)) = Inr b \<and>
     restore_matches demo_request demo_encryption_key demo_key b (demo_authorization (manifest_digest (manifest b)))"
proof -
  have req: "validate_request demo_request = Inr ()"
    by (simp add: validate_request_def demo_request_def backup_demo_labels require_digest_def list_all_iff is_lower_hex_def
        MAX_BACKUP_BYTES_def MAX_BACKUP_SCOPES_def)
  have m: "restore_matches demo_request demo_encryption_key demo_key b (demo_authorization (manifest_digest (manifest b)))" for b
    by (simp add: restore_matches_def demo_authorization_def demo_request_def demo_encryption_key_def demo_key_def
        backup_demo_labels MAX_BACKUP_SCOPES_def)
  let ?h = "\<lparr>format_version = 1, header_database_id = ''db'', header_workspace_id = ''alice'', header_scopes = [''scope''],
     header_policy_digest = replicate 64 CHR ''a'', header_created_at_micros = 10, header_expires_at_micros = 20,
     header_encryption_key_id = ''encryption-key'', header_encryption_key_generation = 1,
     header_signing_key_id = ''signing-key'', header_signing_key_generation = 1, header_parent_manifest_digest = None\<rparr>"
  let ?m = "\<lparr>header_digest = digest demo_crypto [1], ciphertext_digest = digest demo_crypto ([1, 2, 3] @ replicate 16 9),
     nonce = replicate 24 5\<rparr>"
  have "\<exists>b. encrypt_backup demo_crypto (demo_backup_json ?h ?m) demo_request demo_encryption_key demo_key (Some (replicate 24 5)) = Inr b"
    unfolding encrypt_backup_def req
    by (simp add: demo_request_def demo_encryption_key_def demo_key_def demo_backup_json_def canonical_json_def
        Let_def demo_crypto_def del: replicate.simps)
  with m show ?thesis by blast
qed

text \<open>C25. An encrypted backup restores exactly to its authorised holders: restoring an envelope the
  code created, with its keys, returns the archive that was backed up precisely when the
  authorisation carries the restore capability, names the database, workspace, policy decision and
  manifest of the backup, admits its key generations and every exported scope, and the time is within
  the validity interval; otherwise it fails.\<close>

theorem backup_restores_exactly:
  assumes "crypto_ok c" and "encryption_key_ok ek" and "signing_key_ok sk" and "length n = 24"
    and "encrypt_backup c js r ek sk (Some n) = Inr b"
  shows "restore_backup c js b ek (verifying_key c sk) auth = Inr p \<longleftrightarrow>
    p = archive r \<and> restore_matches r ek sk b auth"
  by (rule restore_genuine_iff [OF assms])

theorem backup_restores_exactly_witness:
  "\<exists>js b. encrypt_backup demo_crypto js demo_request demo_encryption_key demo_key (Some (replicate 24 5)) = Inr b \<and>
     restore_backup demo_crypto js b demo_encryption_key (verifying_key demo_crypto demo_key)
       (demo_authorization (manifest_digest (manifest b))) = Inr [1, 2, 3]"
proof -
  obtain h m b where b: "encrypt_backup demo_crypto (demo_backup_json h m) demo_request demo_encryption_key demo_key
        (Some (replicate 24 5)) = Inr b"
      "restore_matches demo_request demo_encryption_key demo_key b (demo_authorization (manifest_digest (manifest b)))"
    using demo_backup by blast
  have "length (replicate 24 (5 :: u8)) = 24" by simp
  from backup_restores_exactly [OF demo_crypto_ok demo_keys this b(1)] b show ?thesis
    by (auto simp: demo_request_def)
qed

text \<open>C24. A restore returns only the selected archive: whatever envelope is presented, when it is
  restored with the encryption key of a genuine backup under an authorisation that names the manifest
  of that backup, its header and ciphertext are those of the backup and the result is its archive, or
  two different headers, ciphertexts or manifests have the same digest.\<close>

theorem restore_is_authentic:
  assumes "crypto_ok c" and "encryption_key_ok ek" and "signing_key_ok sk" and "length n = 24"
    and "encrypt_backup c js r ek sk (Some n) = Inr b"
    and "json_inj (header_json js)" and "json_inj (manifest_json js)"
    and "expected_manifest_digest auth = manifest_digest (manifest b)"
    and "restore_backup c js presented ek vk auth = Inr p"
  shows "header presented = header b \<and> ciphertext presented = ciphertext b \<and> p = archive r \<or>
    envelopes_collide c js presented b"
proof -
  have v: "verify_backup_envelope c js presented vk = Inr ()" "manifest_digest (manifest presented) = manifest_digest (manifest b)"
    using assms(8,9) by (auto simp: restore_backup_def validate_restore_policy_def)
  obtain m aad where f: "Some n = Some m" "header_json js (header b) = Some aad" "nonce (manifest b) = m"
      "xchacha_encrypt c (encryption_bytes ek) m (archive r) aad = Some (ciphertext b)"
    by (rule encrypt_backup_fields [OF assms(5)])
  have dec: "xchacha_decrypt c (encryption_bytes ek) m (ciphertext b) aad = Some (archive r)"
    using f assms(1) by (auto simp: crypto_ok_def aead_ok_def)
  have "p = archive r" if "header presented = header b" "ciphertext presented = ciphertext b" "nonce (manifest presented) = m"
    using assms(9) f(2) dec that by (auto simp: restore_backup_def)
  then show ?thesis
    using manifest_digest_binds [OF assms(6,7) v(1) encrypt_verifies [OF assms(1,5,4,2,3)] v(2)] f(3) by blast
qed

theorem restore_is_authentic_witness:
  "\<exists>js b p. encrypt_backup demo_crypto js demo_request demo_encryption_key demo_key (Some (replicate 24 5)) = Inr b \<and>
     restore_backup demo_crypto js b demo_encryption_key (verifying_key demo_crypto demo_key)
       (demo_authorization (manifest_digest (manifest b))) = Inr p \<and> p = [1, 2, 3]"
proof -
  obtain h m b where b: "encrypt_backup demo_crypto (demo_backup_json h m) demo_request demo_encryption_key demo_key
        (Some (replicate 24 5)) = Inr b"
      "restore_matches demo_request demo_encryption_key demo_key b (demo_authorization (manifest_digest (manifest b)))"
    using demo_backup by blast
  let ?js = "demo_backup_json h m" and ?auth = "demo_authorization (manifest_digest (manifest b))"
  have n: "length (replicate 24 (5 :: u8)) = 24" by simp
  have auth: "expected_manifest_digest ?auth = manifest_digest (manifest b)" by (simp add: demo_authorization_def)
  have "\<exists>p. restore_backup demo_crypto ?js b demo_encryption_key (verifying_key demo_crypto demo_key) ?auth = Inr p"
    using restore_genuine_iff [OF demo_crypto_ok demo_keys n b(1)] b(2) by blast
  then obtain p where
    p: "restore_backup demo_crypto ?js b demo_encryption_key (verifying_key demo_crypto demo_key) ?auth = Inr p" ..
  have "\<not> envelopes_collide demo_crypto ?js b b" by (auto simp: envelopes_collide_def collides_def)
  with restore_is_authentic [OF demo_crypto_ok demo_keys n b(1) demo_backup_json_inj auth p] b(1) p
  show ?thesis by (auto simp: demo_request_def)
qed

end
