(* ===== verification/Security_Fields.thy ===== *)
theory Security_Fields
  imports Security_Base
begin

text \<open>
  Application-level encryption of restricted fields, \<open>crates/contextdb-security/src/field_encryption.rs\<close>:
  the key, the authorisation metadata bound as associated data, encryption, decryption and rewrapping
  under a newer key. The nonce is the value the operating system's generator returned; the canonical
  JSON of a header is the argument \<open>js\<close>.
\<close>

section \<open>Keys, metadata and envelopes\<close>

definition RESTRICTED_FIELD_DOMAIN :: bytes where
  "RESTRICTED_FIELD_DOMAIN = str_bytes ''contextdb/restricted-field/v1'' @ [0]"

definition MAX_RESTRICTED_FIELD_BYTES :: nat where
  "MAX_RESTRICTED_FIELD_BYTES = 16 * 1024 * 1024"

definition MAX_RESTRICTED_FIELD_SCOPES :: nat where
  "MAX_RESTRICTED_FIELD_SCOPES = 4096"

record restricted_field_key =
  field_key_id :: string
  rotation_generation :: u64
  field_key_bytes :: bytes

definition field_key_new :: "string \<Rightarrow> u64 \<Rightarrow> bytes \<Rightarrow> security_error + restricted_field_key" where
  "field_key_new key_id gen key =
     rbind (require_label key_id ''restricted_field_key_id'') (\<lambda>_.
     rbind (rguard (gen \<noteq> 0)
       (InvalidInput ''restricted field key rotation generation must be non-zero'')) (\<lambda>_.
     rbind (rguard (\<not> list_all (\<lambda>b. b = 0) key) (InvalidInput ''restricted field key cannot be all zero'')) (\<lambda>_.
     Inr \<lparr>field_key_id = key_id, rotation_generation = gen, field_key_bytes = key\<rparr>)))"

definition field_key_generate :: "string \<Rightarrow> u64 \<Rightarrow> bytes option \<Rightarrow> security_error + restricted_field_key" where
  "field_key_generate key_id gen random =
     rbind (ok_or CryptographicFailure random) (\<lambda>key. field_key_new key_id gen key)"

record restricted_field_metadata =
  md_database_id :: string
  md_workspace_id :: string
  md_record_id :: string
  md_field_name :: string
  md_scopes :: "string btree_set"
  md_policy_digest :: string

record restricted_field_header =
  fh_format_version :: u16
  fh_key_id :: string
  fh_rotation_generation :: u64
  fh_metadata :: restricted_field_metadata

record encrypted_restricted_field =
  field_header :: restricted_field_header
  field_nonce :: bytes
  field_ciphertext :: bytes

definition validate_metadata :: "restricted_field_metadata \<Rightarrow> security_error + unit" where
  "validate_metadata m =
     rbind (require_label (md_database_id m) ''restricted.database_id'') (\<lambda>_.
     rbind (require_label (md_workspace_id m) ''restricted.workspace_id'') (\<lambda>_.
     rbind (require_label (md_record_id m) ''restricted.record_id'') (\<lambda>_.
     rbind (require_label (md_field_name m) ''restricted.field_name'') (\<lambda>_.
     rbind (require_digest (md_policy_digest m) ''restricted.policy_digest'') (\<lambda>_.
     rbind (rguard (\<not> (md_scopes m = [] \<or> MAX_RESTRICTED_FIELD_SCOPES < length (md_scopes m)))
       (PolicyDenied ''restricted field requires a bounded non-empty scope set'')) (\<lambda>_.
     rall (\<lambda>s. require_label s ''restricted.scope'') (md_scopes m)))))))"

definition validate_envelope :: "encrypted_restricted_field \<Rightarrow> security_error + unit" where
  "validate_envelope e =
     rbind (validate_metadata (fh_metadata (field_header e))) (\<lambda>_.
     rbind (require_label (fh_key_id (field_header e)) ''restricted_field_key_id'') (\<lambda>_.
     rbind (rguard (\<not> (fh_format_version (field_header e) \<noteq> 1 \<or> fh_rotation_generation (field_header e) = 0))
       (IntegrityFailure ''restricted field header is invalid'')) (\<lambda>_.
     rbind (rguard (length (field_nonce e) = 24) (IntegrityFailure ''restricted field nonce is invalid'')) (\<lambda>_.
     rbind (ok_or (ResourceExhausted ''restricted ciphertext bound overflow'')
       (checked_add_usize MAX_RESTRICTED_FIELD_BYTES 16)) (\<lambda>maximum.
     rguard (\<not> (length (field_ciphertext e) \<le> 16 \<or> maximum < length (field_ciphertext e)))
       (IntegrityFailure ''restricted field ciphertext size is invalid''))))))"

definition associated_data :: "(restricted_field_header \<Rightarrow> bytes option) \<Rightarrow> restricted_field_header \<Rightarrow> security_error + bytes" where
  "associated_data js h =
     rbind (canonical_json js h) (\<lambda>b.
     rbind (ok_or (ResourceExhausted ''restricted associated-data overflow'')
       (checked_add_usize (length RESTRICTED_FIELD_DOMAIN) (length b))) (\<lambda>_.
     Inr (RESTRICTED_FIELD_DOMAIN @ b)))"

section \<open>Operations\<close>

definition encrypt_restricted_field ::
    "crypto \<Rightarrow> (restricted_field_header \<Rightarrow> bytes option) \<Rightarrow> bytes \<Rightarrow> restricted_field_metadata \<Rightarrow> restricted_field_key
      \<Rightarrow> bytes option \<Rightarrow> security_error + encrypted_restricted_field" where
  "encrypt_restricted_field c js plaintext m key random =
     rbind (validate_metadata m) (\<lambda>_.
     rbind (rguard (\<not> (plaintext = [] \<or> MAX_RESTRICTED_FIELD_BYTES < length plaintext))
       (InvalidInput ''restricted field size is outside the supported range'')) (\<lambda>_.
     let h = \<lparr>fh_format_version = 1, fh_key_id = field_key_id key,
           fh_rotation_generation = rotation_generation key, fh_metadata = m\<rparr>
     in rbind (associated_data js h) (\<lambda>aad.
     rbind (ok_or CryptographicFailure random) (\<lambda>n.
     rbind (ok_or CryptographicFailure (xchacha_encrypt c (field_key_bytes key) n plaintext aad)) (\<lambda>ct.
     Inr \<lparr>field_header = h, field_nonce = n, field_ciphertext = ct\<rparr>)))))"

definition decrypt_restricted_field ::
    "crypto \<Rightarrow> (restricted_field_header \<Rightarrow> bytes option) \<Rightarrow> encrypted_restricted_field \<Rightarrow> restricted_field_metadata
      \<Rightarrow> restricted_field_key \<Rightarrow> bool \<Rightarrow> security_error + bytes" where
  "decrypt_restricted_field c js e expected key capability =
     rbind (rguard capability (PolicyDenied ''restricted field read requires raw-evidence capability'')) (\<lambda>_.
     rbind (validate_envelope e) (\<lambda>_.
     rbind (validate_metadata expected) (\<lambda>_.
     rbind (rguard (\<not> (fh_metadata (field_header e) \<noteq> expected \<or> fh_key_id (field_header e) \<noteq> field_key_id key \<or>
           fh_rotation_generation (field_header e) \<noteq> rotation_generation key))
       (PolicyDenied ''restricted field metadata or key generation does not match authorization'')) (\<lambda>_.
     rbind (rguard (length (field_nonce e) = 24) (IntegrityFailure ''invalid restricted nonce length'')) (\<lambda>_.
     rbind (associated_data js (field_header e)) (\<lambda>aad.
     ok_or CryptographicFailure (xchacha_decrypt c (field_key_bytes key) (field_nonce e) (field_ciphertext e) aad)))))))"

definition rewrap_restricted_field ::
    "crypto \<Rightarrow> (restricted_field_header \<Rightarrow> bytes option) \<Rightarrow> encrypted_restricted_field \<Rightarrow> restricted_field_metadata
      \<Rightarrow> restricted_field_key \<Rightarrow> restricted_field_key \<Rightarrow> bool \<Rightarrow> bytes option \<Rightarrow> security_error + encrypted_restricted_field" where
  "rewrap_restricted_field c js e expected old new capability random =
     rbind (rguard (\<not> (rotation_generation new \<le> rotation_generation old \<or> field_key_id new = field_key_id old))
       (InvalidInput ''restricted field rewrap requires a distinct newer key generation'')) (\<lambda>_.
     rbind (decrypt_restricted_field c js e expected old capability) (\<lambda>plaintext.
     encrypt_restricted_field c js plaintext expected new random))"

section \<open>Genuine envelopes\<close>

text \<open>The keys the constructors return.\<close>

definition field_key_ok :: "restricted_field_key \<Rightarrow> bool" where
  "field_key_ok k \<longleftrightarrow> require_label (field_key_id k) ''restricted_field_key_id'' = Inr () \<and> rotation_generation k \<noteq> 0"

lemma field_key_new_ok: "field_key_new i g b = Inr k \<Longrightarrow> field_key_ok k"
  by (auto simp: field_key_new_def field_key_ok_def)

text \<open>
  Who reads an envelope: its own key, with the capability and the exact metadata, gets the plaintext;
  any key that gets anything has the identity and the generation of that key, and only with the
  capability and the exact metadata.
\<close>

definition opens_exactly ::
    "crypto \<Rightarrow> (restricted_field_header \<Rightarrow> bytes option) \<Rightarrow> encrypted_restricted_field \<Rightarrow> restricted_field_metadata
      \<Rightarrow> restricted_field_key \<Rightarrow> bytes \<Rightarrow> bool" where
  "opens_exactly c js e m key plaintext \<longleftrightarrow>
     (\<forall>expected capability p. decrypt_restricted_field c js e expected key capability = Inr p \<longleftrightarrow>
        p = plaintext \<and> capability \<and> expected = m) \<and>
     (\<forall>k expected capability p. decrypt_restricted_field c js e expected k capability = Inr p \<longrightarrow>
        capability \<and> expected = m \<and> field_key_id k = field_key_id key \<and> rotation_generation k = rotation_generation key)"

lemma opens_exactly_other_key:
  "opens_exactly c js e m key plaintext \<Longrightarrow> field_key_id k \<noteq> field_key_id key \<Longrightarrow>
    decrypt_restricted_field c js e expected k capability \<noteq> Inr p"
  unfolding opens_exactly_def by blast

lemma encrypted_opens_exactly:
  assumes c: "aead_ok c" and "field_key_ok key" and "length n = 24"
    and "encrypt_restricted_field c js plaintext m key (Some n) = Inr e"
  shows "opens_exactly c js e m key plaintext"
proof -
  obtain aad where h: "field_header e = \<lparr>fh_format_version = 1, fh_key_id = field_key_id key,
        fh_rotation_generation = rotation_generation key, fh_metadata = m\<rparr>"
    and f: "validate_metadata m = Inr ()" "plaintext \<noteq> []" "length plaintext \<le> MAX_RESTRICTED_FIELD_BYTES"
      "associated_data js (field_header e) = Inr aad" "field_nonce e = n"
      "xchacha_encrypt c (field_key_bytes key) n plaintext aad = Some (field_ciphertext e)"
    using assms(4) by (auto simp: encrypt_restricted_field_def Let_def not_less)
  have ct: "length (field_ciphertext e) = length plaintext + 16"
      "xchacha_decrypt c (field_key_bytes key) n (field_ciphertext e) aad = Some plaintext"
    using f(6) c by (auto simp: aead_ok_def)
  have "validate_envelope e = Inr ()"
    using f ct(1) assms(2,3) by (simp add: validate_envelope_def h field_key_ok_def checked_add_usize_def
        MAX_RESTRICTED_FIELD_BYTES_def usize_max_def)
  then show ?thesis
    using f ct(2) assms(3) by (auto simp: opens_exactly_def decrypt_restricted_field_def h)
qed

section \<open>Properties\<close>

definition demo_metadata :: restricted_field_metadata where
  "demo_metadata = \<lparr>md_database_id = ''db'', md_workspace_id = ''alice'', md_record_id = ''record'',
     md_field_name = ''content'', md_scopes = [''scope''], md_policy_digest = replicate 64 CHR ''a''\<rparr>"

definition demo_field_key :: "u64 \<Rightarrow> string \<Rightarrow> restricted_field_key" where
  "demo_field_key g i = \<lparr>field_key_id = i, rotation_generation = g, field_key_bytes = replicate 32 3\<rparr>"

lemma demo_metadata_valid: "validate_metadata demo_metadata = Inr ()"
proof -
  have "require_label ''db'' f = Inr ()" "require_label ''alice'' f = Inr ()" "require_label ''record'' f = Inr ()"
      "require_label ''content'' f = Inr ()" "require_label ''scope'' f = Inr ()" for f
    by (simp_all add: require_label_def) code_simp+
  then show ?thesis
    by (simp add: validate_metadata_def demo_metadata_def require_digest_def list_all_iff is_lower_hex_def
        MAX_RESTRICTED_FIELD_SCOPES_def)
qed

lemma demo_encrypt:
  "\<exists>e. encrypt_restricted_field demo_crypto (\<lambda>_. Some [1]) [7] demo_metadata (demo_field_key g i) (Some (replicate 24 5)) = Inr e"
proof -
  have "length RESTRICTED_FIELD_DOMAIN \<le> 100" by (simp add: RESTRICTED_FIELD_DOMAIN_def str_bytes_def)
  then show ?thesis
    by (simp add: encrypt_restricted_field_def demo_metadata_valid MAX_RESTRICTED_FIELD_BYTES_def Let_def
        associated_data_def canonical_json_def checked_add_usize_def usize_max_def demo_crypto_def)
qed

text \<open>C28. A restricted field is readable exactly with its own authorisation, and rotation keeps it: a
  field the code encrypted decrypts under its key to the stored plaintext precisely when the
  raw-evidence capability is held and the expected database, workspace, record, field, scopes and
  policy are those it was encrypted for, and no key of another identity or generation decrypts it at
  all. Rewrapping needs the same authorisation and a newer key of another identity; the new envelope
  is readable in the same way with the new key, no longer with the old one, and the new key does not
  read the old envelope.\<close>

theorem restricted_field_exact:
  assumes "crypto_ok c" and "field_key_ok old" and "field_key_ok new" and "length n = 24" and "length n' = 24"
    and "encrypt_restricted_field c js plaintext m old (Some n) = Inr e"
  shows "opens_exactly c js e m old plaintext \<and>
    (\<forall>expected0 cap0 e'. rewrap_restricted_field c js e expected0 old new cap0 (Some n') = Inr e' \<longrightarrow>
       cap0 \<and> expected0 = m \<and>
       rotation_generation old < rotation_generation new \<and> field_key_id new \<noteq> field_key_id old \<and>
       opens_exactly c js e' m new plaintext \<and>
       (\<forall>expected capability p. decrypt_restricted_field c js e' expected old capability \<noteq> Inr p \<and>
          decrypt_restricted_field c js e expected new capability \<noteq> Inr p))"
proof -
  have c: "aead_ok c" using assms(1) by (simp add: crypto_ok_def)
  note old = encrypted_opens_exactly [OF c assms(2,4,6)]
  have "cap0 \<and> expected0 = m \<and> rotation_generation old < rotation_generation new \<and> field_key_id new \<noteq> field_key_id old \<and>
      opens_exactly c js e' m new plaintext"
    if rewrap: "rewrap_restricted_field c js e expected0 old new cap0 (Some n') = Inr e'" for expected0 cap0 e'
  proof -
    obtain p where p: "rotation_generation old < rotation_generation new" "field_key_id new \<noteq> field_key_id old"
        "decrypt_restricted_field c js e expected0 old cap0 = Inr p"
        "encrypt_restricted_field c js p expected0 new (Some n') = Inr e'"
      using rewrap by (auto simp: rewrap_restricted_field_def not_le)
    moreover have "p = plaintext" "cap0" "expected0 = m" using old p(3) by (simp_all add: opens_exactly_def)
    ultimately show ?thesis using encrypted_opens_exactly [OF c assms(3,5)] by blast
  qed
  then show ?thesis
    using old opens_exactly_other_key [OF old, of new] opens_exactly_other_key [of c js _ m new plaintext old] by metis
qed

theorem restricted_field_exact_witness:
  "\<exists>e e'. encrypt_restricted_field demo_crypto (\<lambda>_. Some [1]) [7] demo_metadata (demo_field_key 1 ''key-1'') (Some (replicate 24 5)) = Inr e \<and>
     rewrap_restricted_field demo_crypto (\<lambda>_. Some [1]) e demo_metadata (demo_field_key 1 ''key-1'') (demo_field_key 2 ''key-2'')
       True (Some (replicate 24 5)) = Inr e' \<and>
     decrypt_restricted_field demo_crypto (\<lambda>_. Some [1]) e' demo_metadata (demo_field_key 2 ''key-2'') True = Inr [7] \<and>
     decrypt_restricted_field demo_crypto (\<lambda>_. Some [1]) e' demo_metadata (demo_field_key 1 ''key-1'') True \<noteq> Inr [7]"
proof -
  obtain e where e: "encrypt_restricted_field demo_crypto (\<lambda>_. Some [1]) [7] demo_metadata (demo_field_key 1 ''key-1'') (Some (replicate 24 5)) = Inr e"
    using demo_encrypt by blast
  obtain e' where e': "encrypt_restricted_field demo_crypto (\<lambda>_. Some [1]) [7] demo_metadata (demo_field_key 2 ''key-2'') (Some (replicate 24 5)) = Inr e'"
    using demo_encrypt by blast
  have "require_label ''key-1'' f = Inr ()" "require_label ''key-2'' f = Inr ()" for f
    by (simp_all add: require_label_def) code_simp+
  then have keys: "field_key_ok (demo_field_key 1 ''key-1'')" "field_key_ok (demo_field_key 2 ''key-2'')"
    by (simp_all add: field_key_ok_def demo_field_key_def)
  have n: "length (replicate 24 (5 :: u8)) = 24" by simp
  note main = restricted_field_exact [OF demo_crypto_ok keys n n e]
  have "decrypt_restricted_field demo_crypto (\<lambda>_. Some [1]) e demo_metadata (demo_field_key 1 ''key-1'') True = Inr [7]"
    using conjunct1 [OF main] by (simp add: opens_exactly_def)
  then have rewrap: "rewrap_restricted_field demo_crypto (\<lambda>_. Some [1]) e demo_metadata (demo_field_key 1 ''key-1'') (demo_field_key 2 ''key-2'')
       True (Some (replicate 24 5)) = Inr e'"
    using e' by (simp add: rewrap_restricted_field_def demo_field_key_def word_le_nat_alt)
  from conjunct2 [OF main, rule_format, OF this] have
    "opens_exactly demo_crypto (\<lambda>_. Some [1]) e' demo_metadata (demo_field_key 2 ''key-2'') [7]"
    "decrypt_restricted_field demo_crypto (\<lambda>_. Some [1]) e' demo_metadata (demo_field_key 1 ''key-1'') True \<noteq> Inr [7]"
    by auto
  with e rewrap show ?thesis by (auto simp: opens_exactly_def)
qed

end
