(* ===== verification/Security_Secrets.thy ===== *)
theory Security_Secrets
  imports Security_Fields "HOL-Library.Product_Lexorder"
begin

text \<open>
  Secret scanning and the secret policy of \<open>crates/contextdb-security/src/secrets.rs\<close>: the five
  scanners, redaction of the findings, and the decision of what may be persisted. A string is the
  list of its UTF-8 bytes, so offsets are byte offsets as in the code. The entropy threshold of the
  last scanner is computed in floating point: its verdict on a token is the argument \<open>entropic\<close>.
\<close>

section \<open>Classes, findings and policies\<close>

definition MAX_SECRET_FINDINGS :: nat where
  "MAX_SECRET_FINDINGS = 1024"

definition SECRET_DIGEST_DOMAIN :: bytes where
  "SECRET_DIGEST_DOMAIN = str_bytes ''contextdb/secret-digest/v1'' @ [0]"

record secret_digest_key =
  digest_key_id :: string
  digest_key_generation :: u64
  digest_key_bytes :: bytes

definition digest_key_new :: "string \<Rightarrow> u64 \<Rightarrow> bytes \<Rightarrow> security_error + secret_digest_key" where
  "digest_key_new key_id gen key =
     rbind (require_label key_id ''secret_digest_key_id'') (\<lambda>_.
     rbind (rguard (\<not> (gen = 0 \<or> list_all (\<lambda>b. b = 0) key))
       (InvalidInput ''secret digest key generation and material must be nonzero'')) (\<lambda>_.
     Inr \<lparr>digest_key_id = key_id, digest_key_generation = gen, digest_key_bytes = key\<rparr>))"

datatype secret_class =
  ApiKey | Password | PrivateKey | AccessToken | ConnectionString | Credential | HighEntropy | KnownFormat

text \<open>The derived order of the enumeration is the order of its declaration.\<close>

fun class_rank :: "secret_class \<Rightarrow> nat" where
  "class_rank ApiKey = 0"
| "class_rank Password = 1"
| "class_rank PrivateKey = 2"
| "class_rank AccessToken = 3"
| "class_rank ConnectionString = 4"
| "class_rank Credential = 5"
| "class_rank HighEntropy = 6"
| "class_rank KnownFormat = 7"

lemma class_rank_inj: "class_rank a = class_rank b \<Longrightarrow> a = b"
  by (cases a; cases b) simp_all

instantiation secret_class :: linorder
begin

definition less_eq_secret_class :: "secret_class \<Rightarrow> secret_class \<Rightarrow> bool" where
  "a \<le> b \<longleftrightarrow> class_rank a \<le> class_rank b"

definition less_secret_class :: "secret_class \<Rightarrow> secret_class \<Rightarrow> bool" where
  "a < b \<longleftrightarrow> class_rank a < class_rank b"

instance
  by standard (auto simp: less_eq_secret_class_def less_secret_class_def intro: class_rank_inj)

end

text \<open>The \<open>Debug\<close> name of a class.\<close>

fun secret_class_name :: "secret_class \<Rightarrow> string" where
  "secret_class_name ApiKey = ''ApiKey''"
| "secret_class_name Password = ''Password''"
| "secret_class_name PrivateKey = ''PrivateKey''"
| "secret_class_name AccessToken = ''AccessToken''"
| "secret_class_name ConnectionString = ''ConnectionString''"
| "secret_class_name Credential = ''Credential''"
| "secret_class_name HighEntropy = ''HighEntropy''"
| "secret_class_name KnownFormat = ''KnownFormat''"

record secret_finding =
  finding_class :: secret_class
  finding_start :: nat
  finding_end :: nat

datatype secret_action =
  Reject | Redact | DigestOnly | EncryptedRestricted | SourceHandleOnly | VaultReferenceOnly

record secret_policy =
  action :: secret_action
  max_scan_bytes :: nat

definition secret_policy_default :: secret_policy where
  "secret_policy_default = \<lparr>action = Reject, max_scan_bytes = 1024 * 1024\<rparr>"

datatype protected_content =
    Clear string
  | Redacted string
  | Digested string u64 string
  | Encrypted encrypted_restricted_field
  | SourceHandle string
  | VaultReference string

definition protected_text :: "protected_content \<Rightarrow> string option" where
  "protected_text p = (case p of Clear v \<Rightarrow> Some v | Redacted v \<Rightarrow> Some v | _ \<Rightarrow> None)"

record secret_policy_outcome =
  protected :: protected_content
  findings :: "secret_finding list"
  restricted_processing :: bool

section \<open>Strings\<close>

text \<open>\<open>str::find\<close> and \<open>Iterator::position\<close>.\<close>

fun str_find :: "string \<Rightarrow> string \<Rightarrow> nat option" where
  "str_find [] pat = (if pat = [] then Some 0 else None)"
| "str_find (x # xs) pat = (if starts_with (x # xs) pat then Some 0 else map_option Suc (str_find xs pat))"

fun position :: "('a \<Rightarrow> bool) \<Rightarrow> 'a list \<Rightarrow> nat option" where
  "position P [] = None"
| "position P (x # xs) = (if P x then Some 0 else map_option Suc (position P xs))"

definition str_contains :: "string \<Rightarrow> string \<Rightarrow> bool" where
  "str_contains s pat \<longleftrightarrow> str_find s pat \<noteq> None"

definition to_ascii_lowercase :: "string \<Rightarrow> string" where
  "to_ascii_lowercase s = map (\<lambda>c. if is_ascii_uppercase c then char_of (of_char c + 32 :: nat) else c) s"

definition to_ascii_uppercase :: "string \<Rightarrow> string" where
  "to_ascii_uppercase s = map (\<lambda>c. if is_ascii_lowercase c then char_of (of_char c - 32 :: nat) else c) s"

text \<open>\<open>u8::is_ascii_whitespace\<close>: space, tab, line feed, form feed and carriage return.\<close>

definition is_ascii_whitespace :: "char \<Rightarrow> bool" where
  "is_ascii_whitespace c \<longleftrightarrow> of_char c \<in> {32, 9, 10, 12, 13 :: nat}"

fun split_on :: "char \<Rightarrow> string \<Rightarrow> string list" where
  "split_on d [] = [[]]"
| "split_on d (c # cs) = (if c = d then [] # split_on d cs else (c # hd (split_on d cs)) # tl (split_on d cs))"

text \<open>\<open>str::is_char_boundary\<close>: an offset within the string that does not point at a continuation byte.\<close>

definition is_char_boundary :: "string \<Rightarrow> nat \<Rightarrow> bool" where
  "is_char_boundary s i \<longleftrightarrow>
     i = 0 \<or> i = length s \<or> i < length s \<and> \<not> (128 \<le> (of_char (s ! i) :: nat) \<and> (of_char (s ! i) :: nat) < 192)"

section \<open>Scanners\<close>

type_synonym raw_finding = "secret_class \<times> nat \<times> nat"

definition is_token_byte :: "char \<Rightarrow> bool" where
  "is_token_byte c \<longleftrightarrow> is_ascii_alphanumeric c \<or> c \<in> set ''_-./+=''"

definition scan_token_end :: "string \<Rightarrow> nat \<Rightarrow> char option \<Rightarrow> nat" where
  "scan_token_end bs start quote =
     (case position (\<lambda>b. if quote \<in> {Some CHR 0x27, Some CHR 0x22} then Some b = quote
                          else is_ascii_whitespace b \<or> b \<in> set '',;}]'') (drop start bs) of
        None \<Rightarrow> length bs
      | Some relative \<Rightarrow> start + relative)"

text \<open>The two loops of \<open>ascii_tokens\<close> in one pass: the index and the start of the token being read.\<close>

fun ascii_tokens_loop :: "nat \<Rightarrow> nat option \<Rightarrow> nat \<Rightarrow> string \<Rightarrow> (nat \<times> nat) list" where
  "ascii_tokens_loop minimum start index [] =
     (case start of None \<Rightarrow> [] | Some v \<Rightarrow> if minimum \<le> index - v then [(v, index)] else [])"
| "ascii_tokens_loop minimum start index (b # bs) =
     (if is_token_byte b
      then ascii_tokens_loop minimum (Some (case start of None \<Rightarrow> index | Some v \<Rightarrow> v)) (Suc index) bs
      else (case start of None \<Rightarrow> [] | Some v \<Rightarrow> if minimum \<le> index - v then [(v, index)] else [])
           @ ascii_tokens_loop minimum None (Suc index) bs)"

definition ascii_tokens :: "string \<Rightarrow> nat \<Rightarrow> (nat \<times> nat) list" where
  "ascii_tokens bs minimum = ascii_tokens_loop minimum None 0 bs"

lemma starts_with_length: "starts_with xs ps \<Longrightarrow> length ps \<le> length xs"
  by (induction xs ps rule: starts_with.induct) simp_all

lemma str_find_bound: "str_find s pat = Some i \<Longrightarrow> i + length pat \<le> length s"
proof (induction s pat arbitrary: i rule: str_find.induct)
  case (2 x xs pat)
  show ?case
  proof (cases "starts_with (x # xs) pat")
    case True
    then show ?thesis using 2 starts_with_length [OF True] by simp
  next
    case False
    with "2.prems" obtain j where "str_find xs pat = Some j" "i = Suc j" by auto
    with "2.IH" [OF False] show ?thesis by simp
  qed
qed (simp split: if_splits)

text \<open>A search that finds a non-empty pattern behind an offset ends past that offset.\<close>

lemma str_find_drop:
  assumes "str_find (drop offset s) pat = Some i" and "pat \<noteq> []"
  shows "offset < length s" and "offset < offset + i + length pat" and "offset + i + length pat \<le> length s"
proof -
  from str_find_bound [OF assms(1)] assms(2) have "i + length pat \<le> length s - offset" "0 < length pat"
    by simp_all
  then show "offset < length s" "offset < offset + i + length pat" "offset + i + length pat \<le> length s"
    by linarith+
qed

lemma str_find_progress:
  assumes "str_find (drop offset s) pat = Some i" and "pat \<noteq> []" and "offset + i + length pat \<le> offset'"
  shows "Suc (length s) - offset' < Suc (length s) - offset"
  using str_find_drop [OF assms(1,2)] assms(3) by linarith

text \<open>The end of the private-key block that starts at \<open>start\<close>, whose header line ends at \<open>line_end\<close>.\<close>

definition private_key_end :: "string \<Rightarrow> nat \<Rightarrow> nat \<Rightarrow> nat" where
  "private_key_end upper start line_end =
     (case Option.bind (str_find (drop start upper) ''-----END '') (\<lambda>relative_end.
        let trailer_start = start + relative_end
        in Option.bind (str_find (drop trailer_start upper) ''-----'') (\<lambda>first.
           map_option (\<lambda>l. trailer_start + first + 5 + l + 5)
             (str_find (drop (trailer_start + first + 5) upper) ''-----''))) of
        None \<Rightarrow> line_end
      | Some e \<Rightarrow> e)"

function scan_private_keys_from :: "string \<Rightarrow> nat \<Rightarrow> raw_finding list" where
  "scan_private_keys_from upper offset =
     (case str_find (drop offset upper) ''-----BEGIN '' of
        None \<Rightarrow> []
      | Some relative \<Rightarrow>
          let start = offset + relative;
              line_end = (case str_find (drop start upper) (''-----'' @ [CHR 0x0A]) of
                            None \<Rightarrow> length upper | Some v \<Rightarrow> start + v + 6);
              hdr = take (min line_end (length upper) - start) (drop start upper);
              found = (if str_contains hdr ''PRIVATE KEY'' \<or> str_contains hdr ''OPENSSH PRIVATE''
                       then [(PrivateKey, start, private_key_end upper start line_end)] else []);
              offset' = max line_end (start + 1)
          in found @ (if length upper \<le> offset' then [] else scan_private_keys_from upper offset'))"
  by pat_completeness auto
termination
  by (relation "measure (\<lambda>(upper, offset). length upper - offset)") auto

definition scan_private_keys :: "string \<Rightarrow> raw_finding list" where
  "scan_private_keys input = scan_private_keys_from (to_ascii_uppercase input) 0"

text \<open>
  The value assigned behind a separator: white space is skipped, an opening quote is skipped, and the
  value runs to the closing quote or to a delimiter.
\<close>

definition assigned_value :: "string \<Rightarrow> nat \<Rightarrow> nat \<times> nat" where
  "assigned_value input start0 =
     (let start1 = start0 + length (takeWhile is_ascii_whitespace (drop start0 input));
          quote = (if start1 < length input then Some (input ! start1) else None);
          start = (if quote \<in> {Some CHR 0x27, Some CHR 0x22} then start1 + 1 else start1)
      in (start, scan_token_end input start quote))"

text \<open>
  One needle of \<open>scan_assignments\<close>. The needles of the table are not empty; an empty one, which would
  not advance, finds nothing here.
\<close>

function scan_assignment_from :: "string \<Rightarrow> string \<Rightarrow> string \<Rightarrow> secret_class \<Rightarrow> nat \<Rightarrow> raw_finding list" where
  "scan_assignment_from input lower needle cl offset =
     (if needle = [] then []
      else case str_find (drop offset lower) needle of
        None \<Rightarrow> []
      | Some relative \<Rightarrow>
          (case position (\<lambda>b. b = CHR ''='' \<or> b = CHR '':'') (drop (offset + relative + length needle) input) of
             None \<Rightarrow> []
           | Some separator \<Rightarrow>
               if 4 < separator then scan_assignment_from input lower needle cl (offset + relative + length needle)
               else
                 let after_name = offset + relative + length needle;
                     (start, fin) = assigned_value input (after_name + separator + 1);
                     offset' = max fin after_name
                 in (if 6 \<le> fin - start then [(cl, start, fin)] else []) @
                    (if length input \<le> offset' then []
                     else scan_assignment_from input lower needle cl offset')))"
  by pat_completeness auto
termination
  by (relation "measure (\<lambda>(input, lower, needle, cl, offset). Suc (length lower) - offset)")
    (simp_all add: str_find_progress)

definition scan_assignments :: "string \<Rightarrow> raw_finding list" where
  "scan_assignments input =
     concat (map (\<lambda>(needle, cl). scan_assignment_from input (to_ascii_lowercase input) needle cl 0)
       [(''password'', Password), (''passwd'', Password), (''api_key'', ApiKey), (''apikey'', ApiKey),
        (''access_token'', AccessToken), (''client_secret'', Credential), (''secret'', Credential)])"

text \<open>One prefix of \<open>scan_tokens\<close>: the token starts at the prefix, or behind it for \<open>Bearer\<close>.\<close>

function scan_token_from :: "string \<Rightarrow> string \<Rightarrow> nat \<Rightarrow> secret_class \<Rightarrow> nat \<Rightarrow> raw_finding list" where
  "scan_token_from input prefix minimum cl offset =
     (case str_find (drop offset input) prefix of
        None \<Rightarrow> []
      | Some relative \<Rightarrow>
          let start = offset + relative + (if prefix = ''Bearer '' then length prefix else 0);
              fin = (case position (\<lambda>b. \<not> is_token_byte b) (drop start input) of
                       None \<Rightarrow> length input | Some relative_end \<Rightarrow> start + relative_end);
              offset' = max fin (offset + relative + 1)
          in (if minimum \<le> fin - start then [(cl, start, fin)] else []) @
             (if length input \<le> offset' then [] else scan_token_from input prefix minimum cl offset'))"
  by pat_completeness auto
termination
  by (relation "measure (\<lambda>(input, prefix, minimum, cl, offset). length input - offset)") auto

definition looks_like_jwt :: "string \<Rightarrow> bool" where
  "looks_like_jwt token \<longleftrightarrow>
     length (filter (\<lambda>c. c = CHR ''.'') token) = 2 \<and>
     list_all (\<lambda>part. 6 \<le> length part \<and> list_all is_token_byte part) (split_on (CHR ''.'') token)"

definition scan_tokens :: "string \<Rightarrow> raw_finding list" where
  "scan_tokens input =
     concat (map (\<lambda>(prefix, minimum, cl). scan_token_from input prefix minimum cl 0)
       [(''AKIA'', 20, KnownFormat), (''ASIA'', 20, KnownFormat), (''ghp_'', 24, AccessToken),
        (''github_pat_'', 32, AccessToken), (''sk-'', 24, ApiKey), (''Bearer '', 20, AccessToken)]) @
     map (\<lambda>(start, fin). (AccessToken, start, fin))
       (filter (\<lambda>(start, fin). looks_like_jwt (take (fin - start) (drop start input))) (ascii_tokens input 24))"

function scan_connection_strings_from :: "string \<Rightarrow> nat \<Rightarrow> raw_finding list" where
  "scan_connection_strings_from input offset =
     (case str_find (drop offset input) ''://'' of
        None \<Rightarrow> []
      | Some relative \<Rightarrow>
          let scheme_end = offset + relative + 3;
              fin = (case position is_ascii_whitespace (drop scheme_end input) of
                       None \<Rightarrow> length input | Some relative_end \<Rightarrow> scheme_end + relative_end);
              candidate = take (fin - scheme_end) (drop scheme_end input);
              offset' = max fin scheme_end
          in (case str_find candidate ''@'' of
                None \<Rightarrow> []
              | Some at \<Rightarrow> if str_contains (take at candidate) '':''
                  then [(ConnectionString, scheme_end, scheme_end + at)] else []) @
             (if length input \<le> offset' then [] else scan_connection_strings_from input offset'))"
  by pat_completeness auto
termination
  by (relation "measure (\<lambda>(input, offset). length input - offset)") auto

definition scan_connection_strings :: "string \<Rightarrow> raw_finding list" where
  "scan_connection_strings input = scan_connection_strings_from input 0"

definition scan_high_entropy :: "(string \<Rightarrow> bool) \<Rightarrow> string \<Rightarrow> raw_finding list" where
  "scan_high_entropy entropic input =
     map (\<lambda>(start, fin). (HighEntropy, start, fin))
       (filter (\<lambda>(start, fin). entropic (take (fin - start) (drop start input))) (ascii_tokens input 32))"

definition scan_secrets :: "(string \<Rightarrow> bool) \<Rightarrow> string \<Rightarrow> nat \<Rightarrow> security_error + secret_finding list" where
  "scan_secrets entropic input max_bytes =
     rbind (rguard (\<not> (max_bytes = 0 \<or> max_bytes < length input))
       (ResourceExhausted ''secret scan byte budget exceeded'')) (\<lambda>_.
     let raw = scan_private_keys input @ scan_assignments input @ scan_tokens input @
           scan_connection_strings input @ scan_high_entropy entropic input;
         sorted_raw = remdups_adj (sort_key (\<lambda>(cl, start, fin). (start, fin, cl)) raw)
     in rbind (rguard (length sorted_raw \<le> MAX_SECRET_FINDINGS)
          (ResourceExhausted ''secret finding budget exceeded'')) (\<lambda>_.
        Inr (map (\<lambda>(cl, start, fin). \<lparr>finding_class = cl, finding_start = start, finding_end = fin\<rparr>) sorted_raw)))"

declare scan_private_keys_from.simps [simp del] scan_assignment_from.simps [simp del]
  scan_token_from.simps [simp del] scan_connection_strings_from.simps [simp del]

section \<open>Redaction\<close>

type_synonym span = "nat \<times> nat \<times> secret_class"

definition span_valid :: "string \<Rightarrow> nat \<Rightarrow> nat \<Rightarrow> bool" where
  "span_valid input start fin \<longleftrightarrow> is_char_boundary input start \<and> is_char_boundary input fin \<and> start < fin"

text \<open>The merging loop; the vector \<open>merged\<close> is kept with its last element first.\<close>

fun redact_merge :: "string \<Rightarrow> span list \<Rightarrow> span list \<Rightarrow> security_error + span list" where
  "redact_merge input merged [] = Inr merged"
| "redact_merge input merged ((start, fin, cl) # ranges) =
     (if \<not> span_valid input start fin
      then Inl (IntegrityFailure ''secret scanner returned an invalid UTF-8 span'')
      else case merged of
          [] \<Rightarrow> redact_merge input [(start, fin, cl)] ranges
        | (start0, fin0, cl0) # ms \<Rightarrow>
            if start \<le> fin0 then redact_merge input ((start0, max fin0 fin, cl0) # ms) ranges
            else redact_merge input ((start, fin, cl) # merged) ranges)"

definition redaction_marker :: "secret_class \<Rightarrow> string" where
  "redaction_marker cl = ''[REDACTED:'' @ secret_class_name cl @ '']''"

definition replace_range :: "string \<Rightarrow> nat \<Rightarrow> nat \<Rightarrow> string \<Rightarrow> string" where
  "replace_range s start fin v = take start s @ v @ drop fin s"

definition redact_ranges :: "string \<Rightarrow> span list \<Rightarrow> security_error + string" where
  "redact_ranges input ranges =
     rbind (redact_merge input [] ranges) (\<lambda>merged.
     Inr (foldl (\<lambda>output (start, fin, cl). replace_range output start fin (redaction_marker cl)) input merged))"

definition finding_spans :: "secret_finding list \<Rightarrow> span list" where
  "finding_spans fs = map (\<lambda>f. (finding_start f, finding_end f, finding_class f)) fs"

text \<open>
  The sort of the code is not stable: spans with equal bounds and different classes may come in either
  order. The order here keeps the one of the findings; the lemmas on \<open>redact_ranges\<close> hold of every
  list of spans that is sorted by its starts.
\<close>

definition redact :: "string \<Rightarrow> secret_finding list \<Rightarrow> security_error + string" where
  "redact input fs = redact_ranges input (sort_key (\<lambda>(start, fin, _). (start, fin)) (finding_spans fs))"

section \<open>The policy\<close>

definition is_vault_reference :: "string \<Rightarrow> bool" where
  "is_vault_reference input \<longleftrightarrow>
     starts_with input ''vault://'' \<and>
     (let reference = drop 8 input
      in require_label input ''vault_reference'' = Inr () \<and> reference \<noteq> [] \<and> length reference \<le> 500 \<and>
         list_all (\<lambda>segment. segment \<noteq> [] \<and> list_all (\<lambda>b. is_ascii_alphanumeric b \<or> b \<in> set ''-_.'') segment)
           (split_on (CHR ''/'') reference))"

definition keyed_secret_digest :: "crypto \<Rightarrow> bytes \<Rightarrow> secret_digest_key \<Rightarrow> string" where
  "keyed_secret_digest c bs key = blake3_keyed_hex c (digest_key_bytes key) (SECRET_DIGEST_DOMAIN @ bs)"

text \<open>
  What the policy calls outside this file: the entropy verdict, the cryptography, and the encoder
  and the randomness of restricted-field encryption.
\<close>

record secret_services =
  entropic :: "string \<Rightarrow> bool"
  service_crypto :: crypto
  header_json :: "restricted_field_header \<Rightarrow> bytes option"
  nonce_random :: "bytes option"

definition apply_secret_policy_inner ::
    "secret_services \<Rightarrow> string \<Rightarrow> secret_policy \<Rightarrow> string option \<Rightarrow> secret_digest_key option
      \<Rightarrow> (restricted_field_key \<times> restricted_field_metadata) option \<Rightarrow> security_error + secret_policy_outcome" where
  "apply_secret_policy_inner sv input policy handle digest_key restricted =
     rbind (scan_secrets (entropic sv) input (max_scan_bytes policy)) (\<lambda>fs.
     case action policy of
       VaultReferenceOnly \<Rightarrow>
         rbind (rguard (\<not> (fs \<noteq> [] \<or> \<not> is_vault_reference input))
           (PolicyDenied ''vault-reference-only policy requires a secret-free opaque vault handle'')) (\<lambda>_.
         Inr \<lparr>protected = VaultReference input, findings = fs, restricted_processing = True\<rparr>)
     | DigestOnly \<Rightarrow>
         rbind (ok_or (PolicyDenied ''digest-only policy requires an external privacy-digest key'') digest_key) (\<lambda>key.
         Inr \<lparr>protected = Digested (digest_key_id key) (digest_key_generation key)
                  (keyed_secret_digest (service_crypto sv) (str_bytes input) key),
              findings = fs, restricted_processing = True\<rparr>)
     | SourceHandleOnly \<Rightarrow>
         rbind (ok_or (PolicyDenied ''source-handle-only policy requires a trusted handle'') handle) (\<lambda>h.
         rbind (require_label h ''trusted_source_handle'') (\<lambda>_.
         Inr \<lparr>protected = SourceHandle h, findings = fs, restricted_processing = True\<rparr>))
     | EncryptedRestricted \<Rightarrow>
         rbind (ok_or (PolicyDenied ''encrypted-restricted policy requires an external field key and metadata'')
           restricted) (\<lambda>(key, m).
         rbind (encrypt_restricted_field (service_crypto sv) (header_json sv) (str_bytes input) m key (nonce_random sv)) (\<lambda>e.
         Inr \<lparr>protected = Encrypted e, findings = fs, restricted_processing = True\<rparr>))
     | Reject \<Rightarrow>
         if fs = [] then Inr \<lparr>protected = Clear input, findings = fs, restricted_processing = False\<rparr>
         else Inl SecretRejected
     | Redact \<Rightarrow>
         if fs = [] then Inr \<lparr>protected = Clear input, findings = fs, restricted_processing = False\<rparr>
         else rbind (redact input fs) (\<lambda>text.
           Inr \<lparr>protected = Redacted text, findings = fs, restricted_processing = True\<rparr>))"

definition apply_secret_policy ::
    "secret_services \<Rightarrow> string \<Rightarrow> secret_policy \<Rightarrow> string option \<Rightarrow> security_error + secret_policy_outcome" where
  "apply_secret_policy sv input policy handle = apply_secret_policy_inner sv input policy handle None None"

definition apply_secret_policy_with_digest_key ::
    "secret_services \<Rightarrow> string \<Rightarrow> secret_policy \<Rightarrow> string option \<Rightarrow> secret_digest_key
      \<Rightarrow> security_error + secret_policy_outcome" where
  "apply_secret_policy_with_digest_key sv input policy handle key =
     apply_secret_policy_inner sv input policy handle (Some key) None"

definition apply_secret_policy_with_encryption ::
    "secret_services \<Rightarrow> string \<Rightarrow> secret_policy \<Rightarrow> string option \<Rightarrow> restricted_field_key
      \<Rightarrow> restricted_field_metadata \<Rightarrow> security_error + secret_policy_outcome" where
  "apply_secret_policy_with_encryption sv input policy handle key m =
     apply_secret_policy_inner sv input policy handle None (Some (key, m))"

end
