(* ===== verification/Security_Redaction.thy ===== *)
theory Security_Redaction
  imports Security_Secrets
begin

text \<open>
  What the secret scanner and the secret policy of \<open>crates/contextdb-security/src/secrets.rs\<close> promise:
  every finding of the scanner is a valid span of the input, redaction replaces exactly the bytes the
  findings cover, and the policy releases no text that holds a finding.
\<close>

section \<open>Redaction replaces exactly the findings\<close>

text \<open>
  The specification reads the input byte by byte: a byte outside every span is kept, a byte that opens
  a run of covered bytes becomes the marker of the first span there, every other covered byte vanishes.
\<close>

definition covered :: "span list \<Rightarrow> nat \<Rightarrow> bool" where
  "covered ranges i \<longleftrightarrow> list_ex (\<lambda>(start, fin, _). start \<le> i \<and> i < fin) ranges"

definition span_class_at :: "span list \<Rightarrow> nat \<Rightarrow> secret_class" where
  "span_class_at ranges i = (case find (\<lambda>(start, _, _). start = i) ranges of Some (_, _, cl) \<Rightarrow> cl | None \<Rightarrow> KnownFormat)"

definition redacted_byte :: "string \<Rightarrow> span list \<Rightarrow> nat \<Rightarrow> string" where
  "redacted_byte input ranges i =
     (if \<not> covered ranges i then [input ! i]
      else if i = 0 \<or> \<not> covered ranges (i - 1) then redaction_marker (span_class_at ranges i)
      else [])"

definition redaction :: "string \<Rightarrow> span list \<Rightarrow> string" where
  "redaction input ranges = concat (map (redacted_byte input ranges) [0..<length input])"

subsection \<open>The merged spans\<close>

text \<open>Merged spans, the last first: not empty, and each one starts strictly behind the end of the next.\<close>

fun separated :: "span list \<Rightarrow> bool" where
  "separated [] \<longleftrightarrow> True"
| "separated ((start, fin, cl) # ms) \<longleftrightarrow>
     start < fin \<and> (case ms of [] \<Rightarrow> True | (start0, fin0, _) # _ \<Rightarrow> fin0 < start) \<and> separated ms"

definition opens :: "span list \<Rightarrow> span \<Rightarrow> bool" where
  "opens ranges m \<longleftrightarrow>
     (\<exists>fin. find (\<lambda>(start, _, _). start = fst m) ranges = Some (fst m, fin, snd (snd m)))"

definition merges :: "span list \<Rightarrow> span list \<Rightarrow> bool" where
  "merges ranges ms \<longleftrightarrow>
     separated ms \<and> (\<forall>i. covered ms i \<longleftrightarrow> covered ranges i) \<and> (\<forall>m \<in> set ms. opens ranges m)"

lemma covered_simps [simp]:
  "\<not> covered [] i"
  "covered ((start, fin, cl) # ms) i \<longleftrightarrow> start \<le> i \<and> i < fin \<or> covered ms i"
  "covered (xs @ ys) i \<longleftrightarrow> covered xs i \<or> covered ys i"
  by (auto simp: covered_def)

lemma covered_iff: "covered ms i \<longleftrightarrow> (\<exists>(start, fin, cl) \<in> set ms. start \<le> i \<and> i < fin)"
  by (auto simp: covered_def list_ex_iff)

lemma separated_before:
  "separated ((start, fin, cl) # ms) \<Longrightarrow> (s, e, c) \<in> set ms \<Longrightarrow> s < e \<and> e < start"
proof (induction ms arbitrary: start fin cl)
  case (Cons m ms)
  obtain s0 e0 c0 where m: "m = (s0, e0, c0)" by (cases m)
  with Cons.prems have "e0 < start" "s0 < e0" "separated ((s0, e0, c0) # ms)" by auto
  with Cons.IH [of s0 e0 c0] Cons.prems(2) show ?case by (auto simp: m)
qed simp

lemma separated_covered:
  "separated ((start, fin, cl) # ms) \<Longrightarrow> covered ms i \<Longrightarrow> Suc i < start"
  using separated_before by (fastforce simp only: covered_iff)

text \<open>A span that touches the last merged one extends it; any other opens a new one.\<close>

lemma find_append: "find P xs = Some x \<Longrightarrow> find P (xs @ ys) = Some x"
  by (induction xs) auto

lemma find_None_append: "find P xs = None \<Longrightarrow> find P (xs @ ys) = find P ys"
  by (induction xs) (auto split: if_splits)

lemma opens_append: "opens ranges m \<Longrightarrow> opens (ranges @ rs) m"
  by (auto simp: opens_def intro: find_append)

lemma merges_extend:
  assumes m: "merges ranges ((s0, e0, c0) # ms)"
    and le: "\<forall>(s', _, _) \<in> set ranges. s' \<le> s" and touch: "s \<le> e0"
  shows "merges (ranges @ [(s, e, c)]) ((s0, max e0 e, c0) # ms)"
proof -
  from m obtain e' where f0: "find (\<lambda>(s, _, _). s = s0) ranges = Some (s0, e', c0)"
    by (auto simp: merges_def opens_def)
  then have "(s0, e', c0) \<in> set ranges" by (auto simp: find_Some_iff in_set_conv_nth)
  with le have "s0 \<le> s" by auto
  have cov: "covered ranges i \<longleftrightarrow> s0 \<le> i \<and> i < e0 \<or> covered ms i" for i
    using m by (simp add: merges_def)
  have "covered ((s0, max e0 e, c0) # ms) i = covered (ranges @ [(s, e, c)]) i" for i
    using touch \<open>s0 \<le> s\<close> by (auto simp: cov)
  moreover from m have "separated ((s0, max e0 e, c0) # ms)" by (auto simp: merges_def)
  moreover from m have "opens ranges (s0, e0, c0)" "\<forall>m \<in> set ms. opens ranges m" by (auto simp: merges_def)
  then have "\<forall>m \<in> set ((s0, max e0 e, c0) # ms). opens (ranges @ [(s, e, c)]) m"
    using opens_append by (auto simp: opens_def [of _ "(_, _, _)"])
  ultimately show ?thesis unfolding merges_def by blast
qed

lemma merges_push:
  assumes m: "merges ranges ms" and pos: "\<forall>(s', e', _) \<in> set ranges. s' < e'"
    and apart: "\<forall>(s0, e0, _) \<in> set (take 1 ms). e0 < s" and "s < e"
  shows "merges (ranges @ [(s, e, c)]) ((s, e, c) # ms)"
proof -
  have sep: "separated ((s, e, c) # ms)"
    using m apart \<open>s < e\<close> by (auto simp: merges_def split: list.splits)
  have none: "find (\<lambda>(s', _, _). s' = s) ranges = None"
  proof (rule ccontr)
    assume "find (\<lambda>(s', _, _). s' = s) ranges \<noteq> None"
    then obtain e' c' where "(s, e', c') \<in> set ranges" by (auto simp: find_None_iff)
    moreover from this pos have "s < e'" by auto
    ultimately have "covered ranges s" unfolding covered_iff by (intro bexI [of _ "(s, e', c')"]) simp_all
    with m have "covered ms s" by (simp add: merges_def)
    from separated_covered [OF sep this] show False by simp
  qed
  have "opens (ranges @ [(s, e, c)]) (s, e, c)"
    by (simp add: opens_def find_None_append [OF none])
  then have "\<forall>m \<in> set ((s, e, c) # ms). opens (ranges @ [(s, e, c)]) m"
    using m by (auto simp: merges_def opens_append)
  moreover have "\<And>i. covered ((s, e, c) # ms) i = covered (ranges @ [(s, e, c)]) i"
    using m by (auto simp: merges_def)
  ultimately show ?thesis using sep unfolding merges_def by blast
qed

text \<open>The loop fails at the first invalid span and otherwise merges all of them.\<close>

definition spans_ok :: "string \<Rightarrow> span list \<Rightarrow> bool" where
  "spans_ok input ranges \<longleftrightarrow> list_all (\<lambda>(start, fin, _). span_valid input start fin) ranges"

lemma redact_merge_error:
  "\<not> spans_ok input ranges \<Longrightarrow>
    redact_merge input ms ranges = Inl (IntegrityFailure ''secret scanner returned an invalid UTF-8 span'')"
  by (induction input ms ranges rule: redact_merge.induct) (auto simp: spans_ok_def split: list.splits)

lemma redact_merge_merges:
  assumes "spans_ok input (done_ranges @ ranges)" and "sorted (map fst (done_ranges @ ranges))" and "merges done_ranges ms"
  shows "\<exists>ms'. redact_merge input ms ranges = Inr ms' \<and> merges (done_ranges @ ranges) ms'"
  using assms
proof (induction ranges arbitrary: done_ranges ms)
  case (Cons r ranges)
  obtain s e c where r: "r = (s, e, c)" by (cases r)
  have v: "span_valid input s e" and lt: "s < e" and pos: "\<forall>(s', e', _) \<in> set done_ranges. s' < e'"
    using Cons.prems(1) by (auto simp: r spans_ok_def span_valid_def list_all_append list_all_iff split: prod.splits)
  have le: "\<forall>(s', _, _) \<in> set done_ranges. s' \<le> s"
    using Cons.prems(2) by (force simp: r sorted_append)
  have step: "\<exists>ms'. redact_merge input ms1 ranges = Inr ms' \<and> merges (done_ranges @ r # ranges) ms'"
    if "merges (done_ranges @ [r]) ms1" for ms1
    using Cons.IH [of "done_ranges @ [r]" ms1] Cons.prems that by simp
  show ?case
  proof (cases ms)
    case Nil
    with Cons.prems(3) pos lt have "merges (done_ranges @ [r]) [r]" unfolding r by (intro merges_push) auto
    from step [OF this] show ?thesis by (simp add: r v Nil)
  next
    case ms: (Cons m ms2)
    obtain s0 e0 c0 where m: "m = (s0, e0, c0)" by (cases m)
    show ?thesis
    proof (cases "s \<le> e0")
      case True
      have "merges (done_ranges @ [r]) ((s0, max e0 e, c0) # ms2)"
        unfolding r using Cons.prems(3) le True by (intro merges_extend) (auto simp: ms m)
      from step [OF this] show ?thesis by (simp add: r v ms m True)
    next
      case False
      have "merges (done_ranges @ [r]) (r # ms)"
        unfolding r using Cons.prems(3) pos lt False by (intro merges_push) (auto simp: ms m)
      from step [OF this] show ?thesis using False by (simp add: r v ms m)
    qed
  qed
qed simp

subsection \<open>Replacing the merged spans\<close>

definition merged_byte :: "string \<Rightarrow> span list \<Rightarrow> nat \<Rightarrow> string" where
  "merged_byte input ms i =
     (case find (\<lambda>(start, fin, _). start \<le> i \<and> i < fin) ms of
        None \<Rightarrow> [input ! i]
      | Some (start, _, cl) \<Rightarrow> if i = start then redaction_marker cl else [])"

lemma merged_byte_uncovered: "\<not> covered ms i \<Longrightarrow> merged_byte input ms i = [input ! i]"
proof -
  assume "\<not> covered ms i"
  then have "find (\<lambda>(start, fin, _). start \<le> i \<and> i < fin) ms = None"
    by (auto simp: find_None_iff covered_iff)
  then show ?thesis by (simp add: merged_byte_def)
qed

lemma concat_map_bytes:
  "k \<le> length input \<Longrightarrow> (\<And>i. j \<le> i \<Longrightarrow> i < k \<Longrightarrow> f i = [input ! i]) \<Longrightarrow>
    concat (map f [j..<k]) = drop j (take k input)"
proof -
  assume k: "k \<le> length input" and f: "\<And>i. j \<le> i \<Longrightarrow> i < k \<Longrightarrow> f i = [input ! i]"
  have "concat (map f [j..<k]) = concat (map (\<lambda>i. [input ! i]) [j..<k])"
    using f by (intro arg_cong [where f = concat] map_cong) auto
  also have "\<dots> = map ((!) input) [j..<k]" by (induction k) auto
  also have "\<dots> = drop j (take k input)" using k by (intro nth_equalityI) auto
  finally show ?thesis .
qed

lemma merged_byte_head:
  assumes "s < e"
  shows "concat (map (merged_byte input ((s, e, c) # ms)) [s..<e]) = redaction_marker c"
proof -
  have "concat (map (merged_byte input ((s, e, c) # ms)) [Suc s..<e]) = []"
    by (auto simp: merged_byte_def)
  then show ?thesis using assms by (simp add: upt_conv_Cons merged_byte_def)
qed

lemma replace_loop:
  assumes "separated ms" and "\<forall>(s, e, _) \<in> set (take 1 ms). e \<le> k" and "k \<le> length input"
  shows "foldl (\<lambda>output (start, fin, cl). replace_range output start fin (redaction_marker cl)) (take k input @ rest) ms =
           concat (map (merged_byte input ms) [0..<k]) @ rest"
  using assms
proof (induction ms arbitrary: k rest)
  case Nil
  then have "concat (map (merged_byte input []) [0..<k]) = take k input"
    using concat_map_bytes [of k input 0 "merged_byte input []"] merged_byte_uncovered [of "[]"] by simp
  then show ?case by (simp only: foldl.simps)
next
  case (Cons m ms)
  obtain s e c where m: "m = (s, e, c)" by (cases m)
  from Cons.prems have se: "s < e" "e \<le> k" "separated ms" and sep: "separated ((s, e, c) # ms)" by (auto simp: m)
  have hd: "\<forall>(s', e', _) \<in> set (take 1 ms). e' \<le> s"
    using sep by (cases ms) auto
  have step: "replace_range (take k input @ rest) s e (redaction_marker c) =
      take s input @ (redaction_marker c @ drop e (take k input) @ rest)"
    using se Cons.prems(3) by (simp add: replace_range_def min_def)
  have low: "map (merged_byte input (m # ms)) [0..<s] = map (merged_byte input ms) [0..<s]"
    by (simp add: merged_byte_def m)
  have "merged_byte input (m # ms) i = [input ! i]" if "e \<le> i" for i
    using that separated_covered [OF sep, of i] se by (intro merged_byte_uncovered) (auto simp: m)
  then have high: "concat (map (merged_byte input (m # ms)) [e..<k]) = drop e (take k input)"
    using Cons.prems(3) by (intro concat_map_bytes) auto
  have "[0..<k] = [0..<s] @ [s..<e] @ [e..<k]"
    using se by (metis append_assoc le_add_diff_inverse less_imp_le_nat upt_add_eq_append zero_le)
  then have "concat (map (merged_byte input (m # ms)) [0..<k]) =
      concat (map (merged_byte input ms) [0..<s]) @ redaction_marker c @ drop e (take k input)"
    using merged_byte_head [OF se(1), of input c ms] by (simp add: low [unfolded m] high [unfolded m] m)
  then show ?case
    using Cons.IH [OF se(3) hd, of "redaction_marker c @ drop e (take k input) @ rest"] se Cons.prems(3) step
    by (simp add: m)
qed

lemma separated_apart:
  "separated ms \<Longrightarrow> (s, e, c) \<in> set ms \<Longrightarrow> (s', e', c') \<in> set ms \<Longrightarrow> (s, e, c) = (s', e', c') \<or> e < s' \<or> e' < s"
proof (induction ms)
  case (Cons m ms)
  obtain s0 e0 c0 where m: "m = (s0, e0, c0)" by (cases m)
  from Cons.prems(1) have sep: "separated ((s0, e0, c0) # ms)" "separated ms" by (simp_all add: m)
  from Cons.prems(2,3) separated_before [OF sep(1)] Cons.IH [OF sep(2)] show ?case
    by (auto simp: m)
qed simp

lemma merged_byte_redacted:
  assumes m: "merges ranges ms"
  shows "merged_byte input ms i = redacted_byte input ranges i"
proof (cases "find (\<lambda>(start, fin, _). start \<le> i \<and> i < fin) ms")
  case None
  then have "\<not> covered ms i" by (auto simp: find_None_iff covered_iff)
  with m show ?thesis by (simp add: merged_byte_uncovered redacted_byte_def merges_def)
next
  case (Some x)
  obtain s e c where x: "x = (s, e, c)" by (cases x)
  from Some have mem: "(s, e, c) \<in> set ms" and i: "s \<le> i" "i < e"
    by (auto simp: find_Some_iff x) (metis nth_mem)
  have cov: "covered ranges j" if "s \<le> j" "j < e" for j
  proof -
    have "covered ms j" unfolding covered_iff using mem that by (intro bexI [of _ "(s, e, c)"]) simp_all
    with m show ?thesis by (simp add: merges_def)
  qed
  show ?thesis
  proof (cases "i = s")
    case True
    have "\<not> covered ms (i - 1)" if "i \<noteq> 0"
    proof
      assume "covered ms (i - 1)"
      then obtain s' e' c' where "(s', e', c') \<in> set ms" "s' \<le> i - 1" "i - 1 < e'" by (auto simp: covered_iff)
      with separated_apart [OF _ mem this(1)] m i that True show False by (auto simp: merges_def)
    qed
    then have "i = 0 \<or> \<not> covered ranges (i - 1)" using m by (auto simp: merges_def)
    moreover have "span_class_at ranges i = c"
      using m mem True by (auto simp: merges_def opens_def span_class_at_def)
    ultimately show ?thesis using True Some cov i by (simp add: merged_byte_def x redacted_byte_def)
  next
    case False
    with i cov [of "i - 1"] cov [of i] Some show ?thesis by (simp add: merged_byte_def x redacted_byte_def)
  qed
qed

lemma spans_covered_bound: "spans_ok input ranges \<Longrightarrow> covered ranges i \<Longrightarrow> i < length input"
  by (fastforce simp: spans_ok_def span_valid_def is_char_boundary_def covered_def list_all_iff list_ex_iff)

lemma merges_bound:
  assumes "merges ranges ms" and "spans_ok input ranges"
  shows "\<forall>(s, e, _) \<in> set (take 1 ms). e \<le> length input"
proof (cases ms)
  case (Cons m ms')
  obtain s e c where m: "m = (s, e, c)" by (cases m)
  with assms(1) have "s < e" and "covered ms (e - 1) = covered ranges (e - 1)"
    unfolding merges_def by (simp add: Cons, blast)
  then have "covered ranges (e - 1)" by (auto simp: Cons m)
  from spans_covered_bound [OF assms(2) this] \<open>s < e\<close> show ?thesis by (simp add: Cons m)
qed simp

theorem redact_ranges_exact:
  assumes "sorted (map fst ranges)"
  shows "redact_ranges input ranges =
    (if spans_ok input ranges then Inr (redaction input ranges)
     else Inl (IntegrityFailure ''secret scanner returned an invalid UTF-8 span''))"
proof (cases "spans_ok input ranges")
  case True
  have "merges [] []" by (simp add: merges_def)
  with redact_merge_merges [of input "[]" ranges "[]"] assms True
  obtain ms where ms: "redact_merge input [] ranges = Inr ms" "merges ranges ms" by auto
  have "foldl (\<lambda>output (start, fin, cl). replace_range output start fin (redaction_marker cl)) input ms =
      concat (map (merged_byte input ms) [0..<length input])"
    using replace_loop [of ms "length input" input "[]"] merges_bound [OF ms(2) True] ms(2)
    by (simp add: merges_def)
  also have "\<dots> = redaction input ranges"
    unfolding redaction_def using merged_byte_redacted [OF ms(2)]
    by (intro arg_cong [where f = concat] map_cong) simp_all
  finally show ?thesis using True ms(1) by (simp add: redact_ranges_def)
next
  case False
  then show ?thesis by (simp add: redact_ranges_def redact_merge_error)
qed

section \<open>The scanner returns valid spans\<close>

subsection \<open>Character boundaries\<close>

text \<open>The framing of UTF-8: a lead byte announces its continuation bytes.\<close>

definition is_continuation :: "char \<Rightarrow> bool" where
  "is_continuation c \<longleftrightarrow> 128 \<le> (of_char c :: nat) \<and> (of_char c :: nat) < 192"

definition continuations :: "char \<Rightarrow> nat" where
  "continuations c = (let n = (of_char c :: nat) in if n < 192 then 0 else if n < 224 then 1 else if n < 240 then 2 else 3)"

function utf8_framed :: "string \<Rightarrow> bool" where
  "utf8_framed [] = True"
| "utf8_framed (c # cs) \<longleftrightarrow> \<not> is_continuation c \<and> continuations c \<le> length cs \<and>
     list_all is_continuation (take (continuations c) cs) \<and> utf8_framed (drop (continuations c) cs)"
  by pat_completeness auto
termination
  by (relation "measure length") auto

definition is_ascii :: "char \<Rightarrow> bool" where
  "is_ascii c \<longleftrightarrow> (of_char c :: nat) < 128"

lemma utf8_after_ascii:
  "utf8_framed s \<Longrightarrow> Suc i < length s \<Longrightarrow> is_ascii (s ! i) \<Longrightarrow> \<not> is_continuation (s ! Suc i)"
proof (induction s arbitrary: i rule: utf8_framed.induct)
  case (2 c cs)
  let ?k = "continuations c"
  show ?case
  proof (cases "i = 0")
    case True
    with "2.prems" have "?k = 0" by (simp add: is_ascii_def continuations_def)
    with "2.prems" True show ?thesis by (cases cs) auto
  next
    case False
    then obtain j where j: "i = Suc j" by (cases i) auto
    show ?thesis
    proof (cases "j < ?k")
      case True
      with "2.prems" have "is_continuation (cs ! j)" by (auto simp: list_all_length)
      with "2.prems" show ?thesis by (simp add: j is_continuation_def is_ascii_def)
    next
      case False
      with "2.prems" "2.IH" [of "j - ?k"] show ?thesis by (auto simp: j Suc_diff_le)
    qed
  qed
qed simp

lemma boundary_at: "i < length s \<Longrightarrow> is_ascii (s ! i) \<Longrightarrow> is_char_boundary s i"
  by (simp add: is_char_boundary_def is_ascii_def)

lemma boundary_after: "utf8_framed s \<Longrightarrow> i < length s \<Longrightarrow> is_ascii (s ! i) \<Longrightarrow> is_char_boundary s (Suc i)"
  using utf8_after_ascii [of s i] by (auto simp: is_char_boundary_def is_continuation_def)

lemma boundary_end [simp]: "is_char_boundary s (length s)"
  by (simp add: is_char_boundary_def)

subsection \<open>Searches\<close>

lemma starts_with_nth: "starts_with xs ps \<Longrightarrow> k < length ps \<Longrightarrow> xs ! k = ps ! k"
  by (induction xs ps arbitrary: k rule: starts_with.induct) (auto simp: nth_Cons split: nat.splits)

lemma str_find_nth: "str_find s pat = Some i \<Longrightarrow> k < length pat \<Longrightarrow> s ! (i + k) = pat ! k"
proof (induction s pat arbitrary: i rule: str_find.induct)
  case (2 x xs pat)
  then show ?case
    by (cases "starts_with (x # xs) pat") (auto simp: starts_with_nth)
qed (simp split: if_splits)

lemma position_Some:
  "position P xs = Some i \<Longrightarrow> i < length xs \<and> P (xs ! i) \<and> (\<forall>j < i. \<not> P (xs ! j))"
  by (induction xs arbitrary: i) (auto split: if_splits simp: less_Suc_eq_0_disj)

lemma position_None: "position P xs = None \<Longrightarrow> x \<in> set xs \<Longrightarrow> \<not> P x"
  by (induction xs) (auto split: if_splits)

lemma str_find_drop_nth:
  assumes "str_find (drop offset s) pat = Some i" and "k < length pat"
  shows "s ! (offset + i + k) = pat ! k" and "offset + i + k < length s"
proof -
  from assms(2) have "pat \<noteq> []" by auto
  from str_find_drop [OF assms(1) this] assms(2) show "offset + i + k < length s" by linarith
  with str_find_nth [OF assms] show "s ! (offset + i + k) = pat ! k" by (simp add: add.assoc)
qed

lemma ascii_bytes:
  "is_ascii_alphanumeric b \<Longrightarrow> is_ascii b"
  "is_token_byte b \<Longrightarrow> is_ascii b"
  "is_ascii_whitespace b \<Longrightarrow> is_ascii b"
  by (auto simp: is_ascii_def is_token_byte_def is_ascii_alphanumeric_def is_ascii_uppercase_def
      is_ascii_lowercase_def is_ascii_digit_def is_ascii_whitespace_def less_eq_char_def)

definition raw_ok :: "string \<Rightarrow> raw_finding \<Rightarrow> bool" where
  "raw_ok input f \<longleftrightarrow> (case f of (_, start, fin) \<Rightarrow> span_valid input start fin)"

subsection \<open>Tokens\<close>

lemma ascii_tokens_loop_bytes:
  assumes "(s, e) \<in> set (ascii_tokens_loop minimum start (length pre) bs)" and "0 < minimum"
    and "\<forall>v. start = Some v \<longrightarrow> v < length pre \<and> is_token_byte (pre ! v) \<and> is_token_byte (pre ! (length pre - 1))"
  shows "s < e \<and> e \<le> length (pre @ bs) \<and> is_token_byte ((pre @ bs) ! s) \<and> is_token_byte ((pre @ bs) ! (e - 1))"
  using assms
proof (induction bs arbitrary: pre start)
  case Nil
  then show ?case by (auto split: option.splits if_splits)
next
  case (Cons b bs)
  have len: "length (pre @ [b]) = Suc (length pre)" by simp
  have at: "s < e \<and> e \<le> length ((pre @ [b]) @ bs) \<and> is_token_byte ((pre @ [b] @ bs) ! s) \<and>
      is_token_byte ((pre @ [b] @ bs) ! (e - 1))"
    if "(s, e) \<in> set (ascii_tokens_loop minimum st (Suc (length pre)) bs)"
      and "\<forall>v. st = Some v \<longrightarrow> v < Suc (length pre) \<and> is_token_byte ((pre @ [b]) ! v) \<and> is_token_byte b" for st
    using Cons.IH [of st "pre @ [b]"] that Cons.prems(2) by simp
  show ?case
  proof (cases "is_token_byte b")
    case True
    with Cons.prems have "(s, e) \<in> set (ascii_tokens_loop minimum
        (Some (case start of None \<Rightarrow> length pre | Some v \<Rightarrow> v)) (Suc (length pre)) bs)" by simp
    from at [OF this] True Cons.prems(3) show ?thesis by (auto simp: nth_append split: option.splits)
  next
    case False
    then consider (now) v where "start = Some v" "minimum \<le> length pre - v" "s = v" "e = length pre"
      | (later) "(s, e) \<in> set (ascii_tokens_loop minimum None (Suc (length pre)) bs)"
      using Cons.prems(1) by (auto split: option.splits if_splits)
    then show ?thesis
    proof cases
      case now
      with Cons.prems(2,3) show ?thesis by (auto simp: nth_append)
    next
      case later
      from at [OF this] show ?thesis by simp
    qed
  qed
qed

lemma ascii_tokens_valid:
  assumes "utf8_framed input" and "(s, e) \<in> set (ascii_tokens input minimum)" and "0 < minimum"
  shows "span_valid input s e"
proof -
  from ascii_tokens_loop_bytes [of s e minimum None "[]" input] assms(2,3)
  have t: "s < e" "e \<le> length input" "is_token_byte (input ! s)" "is_token_byte (input ! (e - 1))"
    by (simp_all add: ascii_tokens_def)
  with boundary_at [of s input] boundary_after [OF assms(1), of "e - 1"] ascii_bytes(2) show ?thesis
    by (auto simp: span_valid_def)
qed

text \<open>A run of bytes that all satisfy a test, read from an offset.\<close>

lemma run_end:
  assumes "fin = (case position (\<lambda>b. \<not> P b) (drop start input) of None \<Rightarrow> length input | Some r \<Rightarrow> start + r)"
    and "start < fin"
  shows "fin \<le> length input \<and> P (input ! (fin - 1))"
proof (cases "position (\<lambda>b. \<not> P b) (drop start input)")
  case None
  with assms have fin: "fin = length input" by simp
  with assms(2) have "input ! (fin - 1) \<in> set (drop start input)"
    by (auto simp: in_set_conv_nth intro!: exI [of _ "length input - start - 1"])
  from position_None [OF None this] fin show ?thesis by simp
next
  case (Some r)
  from position_Some [OF this] assms Some have "r < length input - start" "0 < r" "\<forall>j < r. P (input ! (start + j))"
    by auto
  with assms Some show ?thesis by (auto dest!: spec [of _ "r - 1"])
qed

lemma scan_token_from_valid:
  assumes u: "utf8_framed input" and pre: "prefix \<noteq> []" "list_all is_ascii prefix" and "0 < minimum"
  shows "f \<in> set (scan_token_from input prefix minimum cl offset) \<Longrightarrow> raw_ok input f"
  using assms
proof (induction input prefix minimum cl offset rule: scan_token_from.induct)
  case (1 input prefix minimum cl offset)
  from "1.prems"(1) obtain r where r: "str_find (drop offset input) prefix = Some r"
    by (cases "str_find (drop offset input) prefix") (simp_all add: scan_token_from.simps)
  define start where "start = offset + r + (if prefix = ''Bearer '' then length prefix else 0)"
  define fin where "fin = (case position (\<lambda>b. \<not> is_token_byte b) (drop start input) of
      None \<Rightarrow> length input | Some relative_end \<Rightarrow> start + relative_end)"
  define offset' where "offset' = max fin (offset + r + 1)"
  have ascii: "is_ascii (input ! (offset + r + k))" "offset + r + k < length input" if "k < length prefix" for k
    using str_find_drop_nth [OF r that] "1.prems"(4) that by (simp_all add: list_all_length)
  from "1.prems"(1) consider (here) "f = (cl, start, fin)" "minimum \<le> fin - start"
    | (later) "f \<in> set (scan_token_from input prefix minimum cl offset')" "\<not> length input \<le> offset'"
    by (subst (asm) scan_token_from.simps)
      (auto simp: r Let_def start_def [symmetric] fin_def [symmetric] offset'_def split: if_splits)
  then show ?case
  proof cases
    case here
    with "1.prems"(5) have lt: "start < fin" by simp
    from run_end [OF fin_def lt] have e: "fin \<le> length input" "is_ascii (input ! (fin - 1))"
      using ascii_bytes(2) by auto
    have "is_char_boundary input start"
      using ascii [of 0] ascii [of "length prefix - 1"] "1.prems"(2,3)
        boundary_at [of start input] boundary_after [of input "start - 1"]
      by (cases prefix) (auto simp: start_def)
    with e lt boundary_after [OF "1.prems"(2), of "fin - 1"] here show ?thesis
      by (simp add: raw_ok_def span_valid_def)
  next
    case later
    with "1.IH" [OF r start_def fin_def offset'_def] "1.prems" show ?thesis by simp
  qed
qed

subsection \<open>Connection strings\<close>

lemma scan_connection_strings_from_valid:
  assumes u: "utf8_framed input"
  shows "f \<in> set (scan_connection_strings_from input offset) \<Longrightarrow> raw_ok input f"
  using assms
proof (induction input offset rule: scan_connection_strings_from.induct)
  case (1 input offset)
  from "1.prems"(1) obtain r where r: "str_find (drop offset input) ''://'' = Some r"
    by (cases "str_find (drop offset input) ''://''") (simp_all add: scan_connection_strings_from.simps)
  define scheme_end where "scheme_end = offset + r + 3"
  define fin where "fin = (case position is_ascii_whitespace (drop scheme_end input) of
      None \<Rightarrow> length input | Some relative_end \<Rightarrow> scheme_end + relative_end)"
  define candidate where "candidate = take (fin - scheme_end) (drop scheme_end input)"
  define offset' where "offset' = max fin scheme_end"
  from "1.prems"(1) consider (here) at where "f = (ConnectionString, scheme_end, scheme_end + at)"
      "str_find candidate ''@'' = Some at" "str_contains (take at candidate) '':''"
    | (later) "f \<in> set (scan_connection_strings_from input offset')" "\<not> length input \<le> offset'"
    by (subst (asm) scan_connection_strings_from.simps)
      (auto simp: r Let_def scheme_end_def [symmetric] fin_def [symmetric] candidate_def [symmetric]
        offset'_def [symmetric] split: if_splits option.splits)
  then show ?case
  proof cases
    case here
    have "0 < at" using here(3) by (cases at) (auto simp: str_contains_def)
    moreover have at: "at < length candidate" "candidate ! at = CHR ''@''"
      using str_find_bound [OF here(2)] str_find_nth [OF here(2), of 0] by simp_all
    then have "scheme_end + at < length input" "is_ascii (input ! (scheme_end + at))"
      by (auto simp: candidate_def is_ascii_def)
    moreover have "is_ascii (input ! (offset + r + 2))" "offset + r + 2 < length input"
      using str_find_drop_nth [OF r, of 2] by (simp_all add: is_ascii_def)
    ultimately show ?thesis
      using boundary_at [of "scheme_end + at" input] boundary_after [OF "1.prems"(2), of "offset + r + 2"]
      by (simp add: here(1) raw_ok_def span_valid_def scheme_end_def numeral_eq_Suc)
  next
    case later
    with "1.IH" [OF r scheme_end_def fin_def candidate_def offset'_def] "1.prems" show ?thesis by simp
  qed
qed

subsection \<open>Assignments\<close>

lemma scan_token_end_boundary:
  assumes "start \<le> length input"
  shows "is_char_boundary input (scan_token_end input start quote)"
proof (cases "position (\<lambda>b. if quote \<in> {Some CHR 0x27, Some CHR 0x22} then Some b = quote
                     else is_ascii_whitespace b \<or> b \<in> set '',;}]'') (drop start input)")
  case None
  then show ?thesis by (simp add: scan_token_end_def)
next
  case (Some r)
  from position_Some [OF this] have "start + r < length input" "is_ascii (input ! (start + r))"
    using ascii_bytes(3) by (auto simp: is_ascii_def split: if_splits)
  with boundary_at Some show ?thesis by (simp add: scan_token_end_def)
qed

lemma assigned_value_boundary:
  assumes u: "utf8_framed input" and "0 < start0" "start0 \<le> length input" "is_ascii (input ! (start0 - 1))"
    and v: "assigned_value input start0 = (start, fin)"
  shows "is_char_boundary input start" and "is_char_boundary input fin"
proof -
  define w where "w = takeWhile is_ascii_whitespace (drop start0 input)"
  define start1 where "start1 = start0 + length w"
  define quote where "quote = (if start1 < length input then Some (input ! start1) else None)"
  have le: "start1 \<le> length input"
    using assms(3) length_takeWhile_le [of is_ascii_whitespace "drop start0 input"] by (simp add: start1_def w_def)
  have white: "is_ascii (input ! (start1 - 1))"
  proof (cases "w = []")
    case False
    then have "is_ascii_whitespace (w ! (length w - 1))"
      using set_takeWhileD [of "w ! (length w - 1)"] by (metis diff_less length_greater_0_conv nth_mem w_def zero_less_one)
    moreover have "w ! (length w - 1) = input ! (start0 + (length w - 1))"
      using False le assms(3) by (simp add: w_def takeWhile_nth)
    moreover have "start0 + (length w - 1) = start1 - 1" using False by (cases w) (simp_all add: start1_def)
    ultimately show ?thesis using ascii_bytes(3) by simp
  qed (use assms(4) in \<open>simp add: start1_def\<close>)
  have b1: "is_char_boundary input start1"
    using boundary_after [OF u, of "start1 - 1"] white le assms(2) by (simp add: start1_def)
  have b2: "is_char_boundary input (start1 + 1)" "start1 + 1 \<le> length input"
    if "quote \<in> {Some CHR 0x27, Some CHR 0x22}"
    using boundary_after [OF u, of start1] that by (auto simp: quote_def is_ascii_def split: if_splits)
  from v have s: "start = (if quote \<in> {Some CHR 0x27, Some CHR 0x22} then start1 + 1 else start1)"
    and f: "fin = scan_token_end input start quote"
    by (auto simp: assigned_value_def Let_def w_def [symmetric] start1_def [symmetric] quote_def [symmetric])
  from b1 b2 s show "is_char_boundary input start" by auto
  have "start \<le> length input" using le b2 s by auto
  from scan_token_end_boundary [OF this] f show "is_char_boundary input fin" by simp
qed

lemma scan_assignment_from_valid:
  assumes "f \<in> set (scan_assignment_from input lower needle cl offset)" and "utf8_framed input"
    and "length lower = length input"
  shows "raw_ok input f"
  using assms
proof (induction input lower needle cl offset rule: scan_assignment_from.induct)
  case (1 input lower needle cl offset)
  from "1.prems"(1) have ne: "needle \<noteq> []" by (auto simp: scan_assignment_from.simps)
  with "1.prems"(1) obtain r where r: "str_find (drop offset lower) needle = Some r"
    by (cases "str_find (drop offset lower) needle") (simp_all add: scan_assignment_from.simps)
  define after_name where "after_name = offset + r + length needle"
  with "1.prems"(1) ne r obtain sep where
    sep: "position (\<lambda>b. b = CHR ''='' \<or> b = CHR '':'') (drop after_name input) = Some sep"
    by (cases "position (\<lambda>b. b = CHR ''='' \<or> b = CHR '':'') (drop after_name input)")
      (simp_all add: scan_assignment_from.simps)
  obtain start fin where v: "assigned_value input (after_name + sep + 1) = (start, fin)"
    by (cases "assigned_value input (after_name + sep + 1)")
  from "1.prems"(1) ne consider
      (far) "4 < sep" "f \<in> set (scan_assignment_from input lower needle cl after_name)"
    | (here) "f = (cl, start, fin)" "6 \<le> fin - start"
    | (later) "\<not> 4 < sep" "f \<in> set (scan_assignment_from input lower needle cl (max fin after_name))"
        "\<not> length input \<le> max fin after_name"
    using sep v by (subst (asm) scan_assignment_from.simps)
      (auto simp: r Let_def after_name_def split: if_splits)
  then show ?case
  proof cases
    case far
    with "1.IH"(1) [OF ne r sep [unfolded after_name_def]] "1.prems" show ?thesis by (simp add: after_name_def)
  next
    case here
    from position_Some [OF sep] have "after_name + sep < length input" "is_ascii (input ! (after_name + sep))"
      by (auto simp: is_ascii_def)
    with assigned_value_boundary [OF "1.prems"(2) _ _ _ v] here show ?thesis
      by (simp add: raw_ok_def span_valid_def)
  next
    case later
    with "1.IH"(2) [OF ne r sep [unfolded after_name_def] later(1) after_name_def refl v [symmetric] refl]
      "1.prems" show ?thesis by simp
  qed
qed

subsection \<open>Private keys\<close>

lemma upper_length [simp]: "length (to_ascii_uppercase input) = length input"
  by (simp add: to_ascii_uppercase_def)

lemma lower_length [simp]: "length (to_ascii_lowercase input) = length input"
  by (simp add: to_ascii_lowercase_def)

lemma upper_ascii: "i < length input \<Longrightarrow> is_ascii (to_ascii_uppercase input ! i) = is_ascii (input ! i)"
  by (auto simp: to_ascii_uppercase_def is_ascii_def is_ascii_lowercase_def less_eq_char_def)

lemma upper_boundary_at:
  "i < length input \<Longrightarrow> is_ascii (to_ascii_uppercase input ! i) \<Longrightarrow> is_char_boundary input i"
  by (simp add: boundary_at upper_ascii)

lemma upper_boundary_after:
  "utf8_framed input \<Longrightarrow> 0 < i \<Longrightarrow> i \<le> length input \<Longrightarrow> is_ascii (to_ascii_uppercase input ! (i - 1)) \<Longrightarrow>
    is_char_boundary input i"
  using boundary_after [of input "i - 1"] by (simp add: upper_ascii)

text \<open>The end of a match of a pattern of ASCII bytes is a boundary.\<close>

lemma upper_match_end:
  assumes "utf8_framed input" and "str_find (drop offset (to_ascii_uppercase input)) pat = Some i"
    and "pat \<noteq> []" and "list_all is_ascii pat"
  shows "is_char_boundary input (offset + i + length pat)"
proof -
  from str_find_drop_nth [OF assms(2), of "length pat - 1"] assms(3,4)
  have "is_ascii (to_ascii_uppercase input ! (offset + i + (length pat - 1)))"
    by (simp add: list_all_length)
  moreover have "offset + i + (length pat - 1) = offset + i + length pat - 1"
    using assms(3) by (cases pat) simp_all
  ultimately show ?thesis
    using str_find_drop [OF assms(2,3)] assms(1,3) by (intro upper_boundary_after) simp_all
qed

lemma private_key_end_boundary:
  assumes u: "utf8_framed input" and "is_char_boundary input line_end" "start < line_end"
    and e: "e = private_key_end (to_ascii_uppercase input) start line_end"
  shows "is_char_boundary input e \<and> start < e"
proof (cases "e = line_end")
  case False
  with e obtain r first l where
    "str_find (drop (start + r + first + 5) (to_ascii_uppercase input)) ''-----'' = Some l"
    "e = start + r + first + 5 + l + 5"
    by (auto simp: private_key_end_def Let_def split: option.splits Option.bind_splits)
  with upper_match_end [OF u this(1)] show ?thesis by (simp add: is_ascii_def)
qed (use assms in simp)

lemma scan_private_keys_from_valid:
  assumes "f \<in> set (scan_private_keys_from upper offset)" and "utf8_framed input" and "upper = to_ascii_uppercase input"
  shows "raw_ok input f"
  using assms
proof (induction upper offset rule: scan_private_keys_from.induct)
  case (1 upper offset)
  from "1.prems"(1) obtain r where r: "str_find (drop offset upper) ''-----BEGIN '' = Some r"
    by (cases "str_find (drop offset upper) ''-----BEGIN ''") (simp_all add: scan_private_keys_from.simps)
  define start where "start = offset + r"
  define line_end where "line_end = (case str_find (drop start upper) (''-----'' @ [CHR 0x0A]) of
      None \<Rightarrow> length upper | Some v \<Rightarrow> start + v + 6)"
  have s: "start < length input" "is_ascii (upper ! start)"
    using str_find_drop_nth [OF r, of 0] "1.prems"(3) by (simp_all add: start_def is_ascii_def)
  have le: "is_char_boundary input line_end" "start < line_end"
    using s upper_match_end [OF "1.prems"(2), of start "''-----'' @ [CHR 0x0A]"] "1.prems"(3)
    by (auto simp: line_end_def is_ascii_def numeral_eq_Suc split: option.splits)
  from "1.prems"(1) consider (here) "f = (PrivateKey, start, private_key_end upper start line_end)"
    | (later) "f \<in> set (scan_private_keys_from upper (max line_end (start + 1)))" "\<not> length upper \<le> max line_end (start + 1)"
    by (subst (asm) scan_private_keys_from.simps)
      (auto simp: r Let_def start_def [symmetric] line_end_def split: if_splits)
  then show ?case
  proof cases
    case here
    with private_key_end_boundary [OF "1.prems"(2) le refl] upper_boundary_at [OF s(1)] s(2) "1.prems"(3)
    show ?thesis by (simp add: raw_ok_def span_valid_def)
  next
    case later
    with "1.IH" [OF r start_def line_end_def refl refl refl] "1.prems" show ?thesis by simp
  qed
qed

subsection \<open>The scan\<close>

lemma scanners_valid:
  assumes u: "utf8_framed input"
  shows "f \<in> set (scan_private_keys input) \<Longrightarrow> raw_ok input f"
    and "f \<in> set (scan_assignments input) \<Longrightarrow> raw_ok input f"
    and "f \<in> set (scan_tokens input) \<Longrightarrow> raw_ok input f"
    and "f \<in> set (scan_connection_strings input) \<Longrightarrow> raw_ok input f"
    and "f \<in> set (scan_high_entropy verdict input) \<Longrightarrow> raw_ok input f"
proof -
  show "raw_ok input f" if "f \<in> set (scan_private_keys input)"
    using scan_private_keys_from_valid [OF _ u refl] that by (simp add: scan_private_keys_def)
  show "raw_ok input f" if "f \<in> set (scan_assignments input)"
    using that by (auto simp: scan_assignments_def intro: scan_assignment_from_valid [OF _ u lower_length])
  show "raw_ok input f" if "f \<in> set (scan_connection_strings input)"
    using scan_connection_strings_from_valid [OF u] that by (simp add: scan_connection_strings_def)
  have prefixes: "raw_ok input f"
    if "f \<in> set (scan_token_from input prefix minimum cl 0)" "prefix \<noteq> []" "list_all is_ascii prefix" "0 < minimum"
    for prefix minimum cl
    using scan_token_from_valid [OF u that(2,3,4,1)] .
  have "raw_ok input (cl, s, e)" if "(s, e) \<in> set (ascii_tokens input n)" "0 < n" for cl s e n
    using ascii_tokens_valid [OF u that] by (simp add: raw_ok_def)
  with prefixes show "raw_ok input f" if "f \<in> set (scan_tokens input)"
    using that by (auto simp: scan_tokens_def is_ascii_def)
  show "raw_ok input f" if "f \<in> set (scan_high_entropy verdict input)"
    using that ascii_tokens_valid [OF u] by (auto simp: scan_high_entropy_def raw_ok_def)
qed

lemma scan_secrets_spans:
  assumes "utf8_framed input" and "scan_secrets verdict input limit = Inr fs"
  shows "spans_ok input (finding_spans fs)"
  using assms(2) scanners_valid [OF assms(1)]
  by (auto simp: scan_secrets_def rguard_def Let_def spans_ok_def finding_spans_def list_all_iff raw_ok_def
      split: if_splits)

section \<open>What the policy releases\<close>

lemma sorted_spans: "sorted (map fst (sort_key (\<lambda>(start, fin, _). (start, fin :: nat)) xs :: span list))"
proof -
  have "sorted (map (\<lambda>(start, fin, _). (start, fin)) (sort_key (\<lambda>(start, fin, _). (start, fin)) xs))"
    by simp
  then show ?thesis
    by (simp add: sorted_wrt_map) (erule sorted_wrt_mono_rel [rotated], auto simp: less_eq_prod_def)
qed

definition sorted_findings :: "secret_finding list \<Rightarrow> span list" where
  "sorted_findings fs = sort_key (\<lambda>(start, fin, _). (start, fin)) (finding_spans fs)"

lemma redact_exact:
  "redact input fs =
     (if spans_ok input (finding_spans fs) then Inr (redaction input (sorted_findings fs))
      else Inl (IntegrityFailure ''secret scanner returned an invalid UTF-8 span''))"
  unfolding redact_def sorted_findings_def
  using redact_ranges_exact [OF sorted_spans, of input "finding_spans fs"]
  by (simp add: spans_ok_def list_all_iff)

subsection \<open>An instance\<close>

definition demo_text :: string where
  "demo_text = ''password=hunter22 ok''"

definition demo_services :: secret_services where
  "demo_services = \<lparr>entropic = (\<lambda>_. False), service_crypto = demo_crypto,
     header_json = (\<lambda>_. None), nonce_random = None\<rparr>"

definition demo_findings :: "secret_finding list" where
  "demo_findings = [\<lparr>finding_class = Password, finding_start = 9, finding_end = 17\<rparr>]"

definition demo_policy :: secret_policy where
  "demo_policy = \<lparr>action = Redact, max_scan_bytes = 64\<rparr>"

lemma demo_scan: "scan_secrets (entropic demo_services) demo_text (max_scan_bytes demo_policy) = Inr demo_findings"
proof -
  have "scan_secrets (\<lambda>_. False) demo_text 64 = Inr demo_findings" by code_simp
  then show ?thesis by (simp add: demo_services_def demo_policy_def)
qed

lemma demo_redaction: "redaction demo_text (sorted_findings demo_findings) = ''password=[REDACTED:Password] ok''"
  by code_simp

lemma demo_framed: "utf8_framed demo_text" "action demo_policy = Redact" "demo_findings \<noteq> []"
  by code_simp+

text \<open>C29. The redaction policy is total and exact: on a UTF-8 text within the scan budget it never fails
  with an invalid span, text without findings is released unchanged and not restricted, and otherwise
  the released text keeps every byte outside the findings, in order, and has one marker in place of
  each run of covered bytes.
\<close>

theorem redaction_is_exact:
  assumes "utf8_framed input" and "action policy = Redact"
    and "scan_secrets (entropic sv) input (max_scan_bytes policy) = Inr fs"
  shows "apply_secret_policy sv input policy handle =
    Inr \<lparr>protected = (if fs = [] then Clear input else Redacted (redaction input (sorted_findings fs))),
         findings = fs, restricted_processing = (fs \<noteq> [])\<rparr>"
  using assms scan_secrets_spans [OF assms(1,3)]
  by (simp add: apply_secret_policy_def apply_secret_policy_inner_def redact_exact)

theorem redaction_is_exact_witness:
  "apply_secret_policy demo_services demo_text demo_policy None =
     Inr \<lparr>protected = Redacted ''password=[REDACTED:Password] ok'', findings = demo_findings, restricted_processing = True\<rparr>"
  using redaction_is_exact [OF demo_framed(1,2) demo_scan, of None] demo_framed(3) by (simp add: demo_redaction)

text \<open>C30. The policy fails closed: a text is released in clear only when the scan found nothing and the
  action is to reject or to redact; every other outcome is marked as restricted and holds no text
  but a redaction, a keyed digest, a restricted envelope, or a handle that the action admits.
\<close>

theorem secret_policy_fails_closed:
  assumes "apply_secret_policy_inner sv input policy handle digest_key restricted = Inr out"
  shows "scan_secrets (entropic sv) input (max_scan_bytes policy) = Inr (findings out) \<and>
    (restricted_processing out \<longleftrightarrow> findings out \<noteq> [] \<or> action policy \<notin> {Reject, Redact}) \<and>
    (case protected out of
       Clear text \<Rightarrow> text = input \<and> findings out = [] \<and> action policy \<in> {Reject, Redact}
     | Redacted text \<Rightarrow> action policy = Redact \<and> text = redaction input (sorted_findings (findings out))
     | Digested i g d \<Rightarrow> action policy = DigestOnly \<and>
         (\<exists>key. digest_key = Some key \<and> i = digest_key_id key \<and> g = digest_key_generation key \<and>
            d = blake3_keyed_hex (service_crypto sv) (digest_key_bytes key) (SECRET_DIGEST_DOMAIN @ str_bytes input))
     | Encrypted e \<Rightarrow> action policy = EncryptedRestricted \<and>
         (\<exists>key m. restricted = Some (key, m) \<and>
            encrypt_restricted_field (service_crypto sv) (header_json sv) (str_bytes input) m key (nonce_random sv) = Inr e)
     | SourceHandle h \<Rightarrow> action policy = SourceHandleOnly \<and> handle = Some h
     | VaultReference r \<Rightarrow> action policy = VaultReferenceOnly \<and> r = input \<and> findings out = [] \<and> is_vault_reference r)"
proof -
  from assms obtain fs where "scan_secrets (entropic sv) input (max_scan_bytes policy) = Inr fs"
    by (auto simp: apply_secret_policy_inner_def)
  with assms show ?thesis
    by (cases "action policy")
      (auto simp: apply_secret_policy_inner_def redact_exact keyed_secret_digest_def rguard_def ok_or_def
        split: if_splits option.splits)
qed

lemma demo_outcome:
  "apply_secret_policy_inner demo_services demo_text demo_policy None None None =
     Inr \<lparr>protected = Redacted ''password=[REDACTED:Password] ok'', findings = demo_findings, restricted_processing = True\<rparr>"
  using demo_scan demo_framed scan_secrets_spans [OF demo_framed(1) demo_scan] demo_redaction
  by (simp add: apply_secret_policy_inner_def redact_exact)

theorem secret_policy_fails_closed_witness:
  "scan_secrets (entropic demo_services) demo_text (max_scan_bytes demo_policy) = Inr demo_findings \<and>
   ''password=[REDACTED:Password] ok'' = redaction demo_text (sorted_findings demo_findings)"
  using secret_policy_fails_closed [OF demo_outcome] by simp

end
