(* ===== verification/Security_Taint.thy ===== *)
theory Security_Taint
  imports Security_Redaction
begin

text \<open>
  Sanitising untrusted sources and authorising sensitive inference,
  \<open>crates/contextdb-security/src/taint.rs\<close>: control characters are removed, the remaining text is
  labelled with the injection patterns it holds, and a sensitive inference needs an explicit,
  verified and consented policy.
\<close>

section \<open>Operations\<close>

datatype source_taint =
    InstructionInContent
  | CredentialRequest
  | DataExfiltrationPattern
  | ToolInvocationRequest
  | PolicyOverrideAttempt
  | EncodedPayload

datatype sensitive_inference_class =
    Health
  | Religion
  | Politics
  | Sexuality
  | Biometrics
  | CriminalAllegation
  | PsychologicalDiagnosis
  | FinancialState
  | PreciseLocation

record sensitive_inference_policy =
  allowed_classes :: "sensitive_inference_class list"
  verified_basis :: bool
  explicit_consent :: bool

definition authorize_inference ::
    "sensitive_inference_policy \<Rightarrow> sensitive_inference_class \<Rightarrow> string \<Rightarrow> security_error + unit" where
  "authorize_inference p cl policy_basis =
     rguard (\<not> (\<not> verified_basis p \<or> \<not> explicit_consent p \<or> cl \<notin> set (allowed_classes p) \<or> is_blank policy_basis))
       (PolicyDenied ''sensitive inference is denied by default'')"

record tainted_content =
  content :: string
  taints :: "source_taint list"

definition grants_instruction_authority :: "tainted_content \<Rightarrow> bool" where
  "grants_instruction_authority t = False"

definition grants_tool_authority :: "tainted_content \<Rightarrow> bool" where
  "grants_tool_authority t = False"

text \<open>\<open>str::chars\<close>: the characters of a UTF-8 string, each as the bytes that encode it.\<close>

function utf8_chars :: "string \<Rightarrow> string list" where
  "utf8_chars [] = []"
| "utf8_chars (c # cs) = (c # take (continuations c) cs) # utf8_chars (drop (continuations c) cs)"
  by pat_completeness auto
termination
  by (relation "measure length") auto

definition keeps_character :: "string \<Rightarrow> bool" where
  "keeps_character ch \<longleftrightarrow> \<not> has_control ch \<or> ch \<in> {[CHR 0x0A], [CHR 0x0D], [CHR 0x09]}"

definition strip_control :: "string \<Rightarrow> string" where
  "strip_control s = concat (filter keeps_character (utf8_chars s))"

definition contains_any :: "string \<Rightarrow> string list \<Rightarrow> bool" where
  "contains_any v needles = list_ex (str_contains v) needles"

text \<open>\<open>str::split_ascii_whitespace\<close>: the non-empty pieces between ASCII white space.\<close>

fun ascii_words :: "string \<Rightarrow> string \<Rightarrow> string list" where
  "ascii_words word [] = (if word = [] then [] else [word])"
| "ascii_words word (c # cs) =
     (if is_ascii_whitespace c then (if word = [] then [] else [word]) @ ascii_words [] cs
      else ascii_words (word @ [c]) cs)"

definition looks_like_encoded_payload :: "string \<Rightarrow> bool" where
  "looks_like_encoded_payload input =
     list_ex (\<lambda>token. 80 \<le> length token \<and> length token mod 4 = 0 \<and>
       list_all (\<lambda>b. is_ascii_alphanumeric b \<or> b \<in> set ''+/='') token) (ascii_words [] input)"

text \<open>The labels are inserted in the order of their declaration, which is the order of the set.\<close>

definition detect_taints :: "string \<Rightarrow> source_taint list" where
  "detect_taints text =
     (let lower = to_ascii_lowercase text in map fst (filter snd
       [(InstructionInContent, contains_any lower
           [''ignore previous'', ''ignore all previous'', ''system prompt'', ''developer message'',
            ''follow these instructions'', ''new instructions:'']),
        (CredentialRequest, contains_any lower
           [''send your password'', ''reveal your api key'', ''provide credentials'', ''show me the token'',
            ''private key'']),
        (DataExfiltrationPattern, contains_any lower
           [''upload to http'', ''send to http'', ''exfiltrate'', ''post the data'', ''curl http'', ''curl -x post'']),
        (ToolInvocationRequest, contains_any lower
           [''run this command'', ''execute this command'', ''call the tool'', ''invoke the tool'', ''powershell -'',
            ''bash -c'']),
        (PolicyOverrideAttempt, contains_any lower
           [''override policy'', ''bypass policy'', ''disable safety'', ''you are now'', ''do not obey'']),
        (EncodedPayload, contains_any lower
           [''data:text/'', ''base64,'', ''begin encoded'', ''decode and execute''] \<or> looks_like_encoded_payload text)]))"

definition sanitize_untrusted_source :: "string \<Rightarrow> nat \<Rightarrow> security_error + tainted_content" where
  "sanitize_untrusted_source input max_bytes =
     rbind (rguard (\<not> (max_bytes = 0 \<or> max_bytes < length input))
       (ResourceExhausted ''untrusted source exceeds the sanitization budget'')) (\<lambda>_.
     let text = strip_control input in Inr \<lparr>content = text, taints = detect_taints text\<rparr>)"

section \<open>Sanitising is idempotent and only removes\<close>

text \<open>The encoding of one character.\<close>

definition frame :: "string \<Rightarrow> bool" where
  "frame ch \<longleftrightarrow> (case ch of [] \<Rightarrow> False
     | c # cs \<Rightarrow> \<not> is_continuation c \<and> length cs = continuations c \<and> list_all is_continuation cs)"

lemma utf8_chars_frames: "utf8_framed s \<Longrightarrow> list_all frame (utf8_chars s)"
  by (induction s rule: utf8_chars.induct) (auto simp: frame_def)

lemma utf8_chars_concat: "list_all frame chs \<Longrightarrow> utf8_chars (concat chs) = chs"
proof (induction chs)
  case (Cons ch chs)
  then obtain c cs where "ch = c # cs" "length cs = continuations c" by (auto simp: frame_def split: list.splits)
  with Cons show ?case by (simp flip: \<open>length cs = continuations c\<close>)
qed simp

lemma concat_utf8_chars: "concat (utf8_chars s) = s"
  by (induction s rule: utf8_chars.induct) simp_all

lemma utf8_framed_concat: "list_all frame chs \<Longrightarrow> utf8_framed (concat chs)"
proof (induction chs)
  case (Cons ch chs)
  then obtain c cs where "ch = c # cs" "length cs = continuations c" "\<not> is_continuation c" "list_all is_continuation cs"
    by (auto simp: frame_def split: list.splits)
  with Cons show ?case by (simp flip: \<open>length cs = continuations c\<close>)
qed simp

lemma strip_frames: "utf8_framed s \<Longrightarrow> list_all frame (filter keeps_character (utf8_chars s))"
  using utf8_chars_frames by (auto simp: list_all_iff)

lemma strip_control_chars:
  "utf8_framed s \<Longrightarrow> utf8_chars (strip_control s) = filter keeps_character (utf8_chars s)"
  by (simp add: strip_control_def utf8_chars_concat strip_frames)

lemma strip_control_framed: "utf8_framed s \<Longrightarrow> utf8_framed (strip_control s)"
  by (simp add: strip_control_def utf8_framed_concat strip_frames)

lemma strip_control_idem: "utf8_framed s \<Longrightarrow> strip_control (strip_control s) = strip_control s"
  using strip_control_chars [of s] by (simp add: strip_control_def [of "strip_control s"])
    (simp add: strip_control_def)

lemma strip_control_length: "length (strip_control s) \<le> length s"
proof -
  have "length (concat (filter P xs)) \<le> length (concat xs)" for P and xs :: "string list"
    by (induction xs) auto
  from this [of keeps_character "utf8_chars s"] show ?thesis by (simp add: strip_control_def concat_utf8_chars)
qed

theorem sanitize_is_stable:
  assumes "utf8_framed input" and "sanitize_untrusted_source input limit = Inr t"
  shows "sanitize_untrusted_source (content t) limit = Inr t \<and> utf8_framed (content t) \<and>
    length (content t) \<le> length input \<and> list_all keeps_character (utf8_chars (content t)) \<and>
    \<not> grants_instruction_authority t \<and> \<not> grants_tool_authority t"
  using assms strip_control_length [of input]
  by (auto simp: sanitize_untrusted_source_def rguard_def Let_def strip_control_idem strip_control_framed
      strip_control_chars grants_instruction_authority_def grants_tool_authority_def list_all_iff split: if_splits)

lemma inference_denied_by_default:
  "authorize_inference p cl basis = Inr () \<longleftrightarrow>
     verified_basis p \<and> explicit_consent p \<and> cl \<in> set (allowed_classes p) \<and> \<not> is_blank basis"
  by (auto simp: authorize_inference_def rguard_def)

end
