(* ===== verification/Security_Benchmark.thy ===== *)
theory Security_Benchmark
  imports Security_Base "HOL-Library.Product_Lexorder"
begin

text \<open>
  The forbidden-influence benchmark of \<open>crates/contextdb-security/src/benchmark.rs\<close>: pairs of runs
  without and with a prohibited record are compared, and the release gate passes when no pair
  differs. The JSON encoders of the compared values are arguments.
\<close>

section \<open>Cases, results and reports\<close>

datatype bench_g_scenario =
    UserPrivateVsShared
  | PairwiseVsTeam
  | RevokedConsent
  | DoNotMention
  | LocalOnly
  | HardDeleteScenario
  | BackupLineage
  | ExportSubset
  | MaliciousSource

fun scenario_name :: "bench_g_scenario \<Rightarrow> string" where
  "scenario_name UserPrivateVsShared = ''UserPrivateVsShared''"
| "scenario_name PairwiseVsTeam = ''PairwiseVsTeam''"
| "scenario_name RevokedConsent = ''RevokedConsent''"
| "scenario_name DoNotMention = ''DoNotMention''"
| "scenario_name LocalOnly = ''LocalOnly''"
| "scenario_name HardDeleteScenario = ''HardDelete''"
| "scenario_name BackupLineage = ''BackupLineage''"
| "scenario_name ExportSubset = ''ExportSubset''"
| "scenario_name MaliciousSource = ''MaliciousSource''"

definition all_scenarios :: "bench_g_scenario list" where
  "all_scenarios = [UserPrivateVsShared, PairwiseVsTeam, RevokedConsent, DoNotMention, LocalOnly,
     HardDeleteScenario, BackupLineage, ExportSubset, MaliciousSource]"

record bench_g_observation =
  candidate_digest :: string
  ranking_digest :: string
  summary_digest :: string
  evidence_digest :: string
  latency_bucket :: u64
  prohibited_touches :: u64
  prohibited_bytes :: u64

record bench_g_case =
  case_id :: string
  scenario :: bench_g_scenario
  baseline :: bench_g_observation
  forbidden_present :: bench_g_observation
  allowed_latency_bucket_delta :: u64

record bench_g_case_result =
  result_case_id :: string
  result_scenario :: bench_g_scenario
  candidates_invariant :: bool
  ranking_invariant :: bool
  summary_invariant :: bool
  evidence_invariant :: bool
  strict_no_touch :: bool
  timing_within_budget :: bool
  case_passed :: bool

record bench_g_report =
  report_schema :: string
  dataset_digest :: string
  report_cases :: "bench_g_case_result list"
  total_cases :: u64
  passed_cases :: u64
  report_touches :: u64
  report_bytes :: u64
  report_passed :: bool

section \<open>Evaluation\<close>

definition abs_diff :: "u64 \<Rightarrow> u64 \<Rightarrow> u64" where
  "abs_diff a b = (if a < b then b - a else a - b)"

definition evaluate_case :: "bench_g_case \<Rightarrow> bench_g_case_result" where
  "evaluate_case k =
     (let b = baseline k; f = forbidden_present k;
          candidates = (candidate_digest b = candidate_digest f);
          ranking = (ranking_digest b = ranking_digest f);
          summary = (summary_digest b = summary_digest f);
          evidence = (evidence_digest b = evidence_digest f);
          no_touch = (prohibited_touches f = 0 \<and> prohibited_bytes f = 0);
          timing = (abs_diff (latency_bucket b) (latency_bucket f) \<le> allowed_latency_bucket_delta k)
      in \<lparr>result_case_id = case_id k, result_scenario = scenario k, candidates_invariant = candidates,
          ranking_invariant = ranking, summary_invariant = summary, evidence_invariant = evidence,
          strict_no_touch = no_touch, timing_within_budget = timing,
          case_passed = (candidates \<and> ranking \<and> summary \<and> evidence \<and> no_touch \<and> timing)\<rparr>)"

text \<open>
  The state of the loop: the scenarios seen (the code also counts them and does not read the
  counts), the case identifiers, the results, and the two counters.
\<close>

record bench_g_loop =
  seen :: "bench_g_scenario list"
  ids :: "string btree_set"
  results :: "bench_g_case_result list"
  touches :: u64
  materialized :: u64

definition bench_g_step :: "bench_g_case \<Rightarrow> bench_g_loop \<Rightarrow> security_error + bench_g_loop" where
  "bench_g_step k st =
     rbind (rguard (\<not> (is_blank (case_id k) \<or> case_id k \<in> set (ids st)))
       (InvalidInput ''BENCH-G case IDs must be non-empty and unique'')) (\<lambda>_.
     rbind (ok_or (ResourceExhausted ''BENCH-G touch counter overflow'')
       (checked_add_word (touches st) (prohibited_touches (forbidden_present k)))) (\<lambda>t.
     rbind (ok_or (ResourceExhausted ''BENCH-G byte counter overflow'')
       (checked_add_word (materialized st) (prohibited_bytes (forbidden_present k)))) (\<lambda>m.
     Inr \<lparr>seen = scenario k # seen st, ids = bs_insert (case_id k) (ids st),
          results = results st @ [evaluate_case k], touches = t, materialized = m\<rparr>)))"

definition require_scenario :: "bench_g_scenario list \<Rightarrow> bench_g_scenario \<Rightarrow> security_error + unit" where
  "require_scenario sc s = rguard (s \<in> set sc) (InvalidInput (''BENCH-G is missing '' @ scenario_name s))"

definition evaluate_bench_g ::
    "crypto \<Rightarrow> (bench_g_case list \<Rightarrow> bytes option) \<Rightarrow> bench_g_case list \<Rightarrow> security_error + bench_g_report" where
  "evaluate_bench_g c js cases =
     rbind (rguard (cases \<noteq> []) (InvalidInput ''BENCH-G requires cases'')) (\<lambda>_.
     rbind (rfold bench_g_step cases \<lparr>seen = [], ids = [], results = [], touches = 0, materialized = 0\<rparr>) (\<lambda>st.
     rbind (rall (require_scenario (seen st)) all_scenarios) (\<lambda>_.
     let rs = sort_key result_case_id (results st) in
     rbind (ok_or (ResourceExhausted ''BENCH-G case count overflow'') (u64_of_usize (length rs))) (\<lambda>n.
     rbind (ok_or (ResourceExhausted ''BENCH-G pass count overflow'')
       (u64_of_usize (length (filter case_passed rs)))) (\<lambda>p.
     rbind (canonical_json js cases) (\<lambda>b.
     Inr \<lparr>report_schema = ''contextdb.bench-g.v1'', dataset_digest = blake3_hex c b, report_cases = rs,
          total_cases = n, passed_cases = p, report_touches = touches st, report_bytes = materialized st,
          report_passed = (p = n \<and> touches st = 0 \<and> materialized st = 0)\<rparr>))))))"

section \<open>The reference fixture\<close>

datatype fixture_policy = Allowed | Denied

record fixture_record =
  identity :: string
  fixture_policy :: fixture_policy
  fixture_payload :: string

text \<open>The encoders of the compared values.\<close>

record fixture_json =
  ids_json :: "string list \<Rightarrow> bytes option"
  ranking_json :: "(nat \<times> string \<times> string) list \<Rightarrow> bytes option"
  candidates_json :: "(string \<times> string) list \<Rightarrow> bytes option"
  cases_json :: "bench_g_case list \<Rightarrow> bytes option"

definition saturating_add_u64 :: "u64 \<Rightarrow> u64 \<Rightarrow> u64" where
  "saturating_add_u64 a b = (case checked_add_word a b of None \<Rightarrow> - 1 | Some s \<Rightarrow> s)"

definition materialize :: "fixture_record \<Rightarrow> u64 \<Rightarrow> u64 \<Rightarrow> bytes \<times> u64 \<times> u64" where
  "materialize r t m =
     (if fixture_policy r = Denied
      then (str_bytes (fixture_payload r), saturating_add_u64 t 1,
            saturating_add_u64 m (of_nat (length (fixture_payload r))))
      else (str_bytes (fixture_payload r), t, m))"

fun fixture_candidates ::
    "crypto \<Rightarrow> fixture_record list \<Rightarrow> u64 \<Rightarrow> u64 \<Rightarrow> (string \<times> string) list \<times> u64 \<times> u64" where
  "fixture_candidates c [] t m = ([], t, m)"
| "fixture_candidates c (r # rs) t m =
     (if fixture_policy r = Denied then fixture_candidates c rs t m
      else let (payload, t', m') = materialize r t m;
               (cands, t'', m'') = fixture_candidates c rs t' m'
           in ((identity r, blake3_hex c payload) # cands, t'', m''))"

definition execute_fixture ::
    "crypto \<Rightarrow> fixture_json \<Rightarrow> fixture_record list \<Rightarrow> security_error + bench_g_observation" where
  "execute_fixture c js records =
     (let (unsorted, t, m) = fixture_candidates c records 0 0;
          cands = sort unsorted;
          cand_ids = map fst cands;
          ranking = map (\<lambda>(rank, i, d). (rank, i, d)) (enumerate 0 cands)
      in rbind (canonical_json (ids_json js) cand_ids) (\<lambda>b1.
         rbind (canonical_json (ranking_json js) ranking) (\<lambda>b2.
         rbind (canonical_json (candidates_json js) cands) (\<lambda>b3.
         rbind (canonical_json (ids_json js) cand_ids) (\<lambda>b4.
         Inr \<lparr>candidate_digest = blake3_hex c b1, ranking_digest = blake3_hex c b2,
              summary_digest = blake3_hex c b3, evidence_digest = blake3_hex c b4,
              latency_bucket = (case u64_of_usize (length cands) of None \<Rightarrow> - 1 | Some n \<Rightarrow> n),
              prohibited_touches = t, prohibited_bytes = m\<rparr>)))))"

definition reference_case ::
    "crypto \<Rightarrow> fixture_json \<Rightarrow> nat \<times> bench_g_scenario \<Rightarrow> security_error + bench_g_case" where
  "reference_case c js = (\<lambda>(index, s).
     let allowed = \<lparr>identity = ''allowed:'' @ decimal index, fixture_policy = Allowed,
           fixture_payload = ''authorized evidence for scenario '' @ decimal index\<rparr>;
         forbidden = \<lparr>identity = ''forbidden:'' @ decimal index, fixture_policy = Denied,
           fixture_payload = ''prohibited unique payload '' @ scenario_name s\<rparr>
     in rbind (execute_fixture c js [allowed]) (\<lambda>b.
        rbind (execute_fixture c js [allowed, forbidden]) (\<lambda>f.
        Inr \<lparr>case_id = ''bench-g:'' @ decimal index @ '':'' @ scenario_name s, scenario = s, baseline = b,
             forbidden_present = f, allowed_latency_bucket_delta = 0\<rparr>)))"

definition run_reference_bench_g :: "crypto \<Rightarrow> fixture_json \<Rightarrow> security_error + bench_g_report" where
  "run_reference_bench_g c js =
     rbind (rmap (reference_case c js) (enumerate 0 all_scenarios)) (evaluate_bench_g c (cases_json js))"

section \<open>The gate passes exactly when no case leaks\<close>

text \<open>What the loop has computed: the counters are the exact sums, the identifiers are distinct.\<close>

lemma bench_g_step_Inr:
  "bench_g_step k st = Inr st' \<longleftrightarrow>
     \<not> is_blank (case_id k) \<and> case_id k \<notin> set (ids st) \<and>
     unat (touches st) + unat (prohibited_touches (forbidden_present k)) < 2 ^ 64 \<and>
     unat (materialized st) + unat (prohibited_bytes (forbidden_present k)) < 2 ^ 64 \<and>
     st' = \<lparr>seen = scenario k # seen st, ids = bs_insert (case_id k) (ids st),
            results = results st @ [evaluate_case k],
            touches = touches st + prohibited_touches (forbidden_present k),
            materialized = materialized st + prohibited_bytes (forbidden_present k)\<rparr>"
  by (auto simp: bench_g_step_def rguard_def ok_or_def checked_add_word_def split: if_splits option.splits)

lemma bench_g_fold:
  assumes "rfold bench_g_step cases st = Inr st'"
  shows "results st' = results st @ map evaluate_case cases \<and>
    set (seen st') = set (seen st) \<union> scenario ` set cases \<and>
    unat (touches st') = unat (touches st) + (\<Sum>k\<leftarrow>cases. unat (prohibited_touches (forbidden_present k))) \<and>
    unat (materialized st') = unat (materialized st) + (\<Sum>k\<leftarrow>cases. unat (prohibited_bytes (forbidden_present k)))"
  using assms
proof (induction cases arbitrary: st)
  case (Cons k cases)
  then obtain st1 where "bench_g_step k st = Inr st1" "rfold bench_g_step cases st1 = Inr st'" by auto
  with Cons.IH [OF this(2)] show ?case
    by (auto simp: bench_g_step_Inr unat_word_ariths)
qed simp

lemma length_filter_map_iff: "length (filter P (map f xs)) = length (map f xs) \<longleftrightarrow> list_all (\<lambda>x. P (f x)) xs"
proof (induction xs)
  case (Cons x xs)
  have "length (filter (P \<circ> f) xs) \<noteq> Suc (length xs)"
    using length_filter_le [of "P \<circ> f" xs] by linarith
  with Cons show ?case by (auto simp: filter_map)
qed simp

theorem bench_g_gate_exact:
  assumes "evaluate_bench_g c js cases = Inr report"
  shows "report_passed report \<longleftrightarrow> list_all (\<lambda>k. case_passed (evaluate_case k)) cases"
    and "report_cases report = sort_key result_case_id (map evaluate_case cases)"
    and "set all_scenarios \<subseteq> scenario ` set cases"
proof -
  from assms obtain st where
    st: "rfold bench_g_step cases \<lparr>seen = [], ids = [], results = [], touches = 0, materialized = 0\<rparr> = Inr st"
    and sc: "rall (require_scenario (seen st)) all_scenarios = Inr ()"
    and n: "u64_of_usize (length (results st)) = Some (total_cases report)"
    and p: "u64_of_usize (length (filter case_passed (results st))) = Some (passed_cases report)"
    and r: "report_cases report = sort_key result_case_id (results st)"
      "report_passed report \<longleftrightarrow> passed_cases report = total_cases report \<and> touches st = 0 \<and> materialized st = 0"
    by (auto simp: evaluate_bench_g_def Let_def ok_or_def filter_sort split: option.splits)
  from bench_g_fold [OF st] have fold: "results st = map evaluate_case cases" "set (seen st) = scenario ` set cases"
    "unat (touches st) = (\<Sum>k\<leftarrow>cases. unat (prohibited_touches (forbidden_present k)))"
    "unat (materialized st) = (\<Sum>k\<leftarrow>cases. unat (prohibited_bytes (forbidden_present k)))"
    by simp_all
  from r(1) fold(1) show "report_cases report = sort_key result_case_id (map evaluate_case cases)" by simp
  from sc fold(2) show "set all_scenarios \<subseteq> scenario ` set cases"
    by (auto simp: rall_Inr_iff require_scenario_def)
  have "passed_cases report = total_cases report \<longleftrightarrow> length (filter case_passed (results st)) = length (results st)"
    using n p by (auto simp: u64_of_usize_def of_nat_inverse split: if_splits dest: arg_cong [where f = unat])
  also have "\<dots> \<longleftrightarrow> list_all (\<lambda>k. case_passed (evaluate_case k)) cases"
    using fold(1) length_filter_map_iff by simp
  finally have "report_passed report \<longleftrightarrow>
      list_all (\<lambda>k. case_passed (evaluate_case k)) cases \<and> touches st = 0 \<and> materialized st = 0"
    using r(2) by simp
  moreover have "touches st = 0 \<and> materialized st = 0" if "list_all (\<lambda>k. case_passed (evaluate_case k)) cases"
  proof -
    have "\<forall>k \<in> set cases. prohibited_touches (forbidden_present k) = 0 \<and> prohibited_bytes (forbidden_present k) = 0"
      using that by (auto simp: list_all_iff evaluate_case_def Let_def)
    with fold(3,4) have "unat (touches st) = 0" "unat (materialized st) = 0" by (simp_all cong: map_cong)
    then show ?thesis by (simp add: unat_eq_0)
  qed
  ultimately show "report_passed report \<longleftrightarrow> list_all (\<lambda>k. case_passed (evaluate_case k)) cases" by blast
qed

section \<open>The reference fixture passes\<close>

definition reference_id :: "nat \<times> bench_g_scenario \<Rightarrow> string" where
  "reference_id = (\<lambda>(index, s). ''bench-g:'' @ decimal index @ '':'' @ scenario_name s)"

lemma reference_ids:
  "distinct (map reference_id (enumerate 0 all_scenarios))"
  "list_all (\<lambda>x. \<not> is_blank (reference_id x)) (enumerate 0 all_scenarios)"
  by code_simp+

text \<open>A denied record is skipped before its payload is read, so it leaves no trace in the observation.\<close>

lemma fixture_no_influence:
  "fixture_policy f = Denied \<Longrightarrow> execute_fixture c js (rs @ [f]) = execute_fixture c js rs"
proof -
  assume "fixture_policy f = Denied"
  then have "fixture_candidates c (rs @ [f]) t m = fixture_candidates c rs t m" for t m
    by (induction c rs t m rule: fixture_candidates.induct) (auto split: prod.splits)
  then show ?thesis by (simp add: execute_fixture_def)
qed

lemma fixture_no_touch: "execute_fixture c js rs = Inr ob \<Longrightarrow> prohibited_touches ob = 0 \<and> prohibited_bytes ob = 0"
proof -
  have "fixture_candidates c rs t m = (cs, t', m') \<Longrightarrow> t' = t \<and> m' = m" for t m cs t' m'
    by (induction c rs t m arbitrary: cs rule: fixture_candidates.induct)
      (auto simp: materialize_def split: if_splits prod.splits)
  then show "execute_fixture c js rs = Inr ob \<Longrightarrow> ?thesis"
    by (auto simp: execute_fixture_def Let_def split: prod.splits)
qed

definition fixture_json_total :: "fixture_json \<Rightarrow> bool" where
  "fixture_json_total js \<longleftrightarrow>
     (\<forall>x. ids_json js x \<noteq> None) \<and> (\<forall>x. ranking_json js x \<noteq> None) \<and> (\<forall>x. candidates_json js x \<noteq> None) \<and>
     (\<forall>x. cases_json js x \<noteq> None)"

lemma execute_fixture_total: "fixture_json_total js \<Longrightarrow> \<exists>ob. execute_fixture c js rs = Inr ob"
  by (cases "fixture_candidates c rs 0 0")
    (fastforce simp: execute_fixture_def fixture_json_total_def Let_def)

lemma reference_case_passes:
  assumes "fixture_json_total js"
  shows "\<exists>k. reference_case c js x = Inr k \<and> case_passed (evaluate_case k) \<and> case_id k = reference_id x \<and>
    scenario k = snd x"
proof -
  obtain index s where x: "x = (index, s)" by (cases x)
  let ?allowed = "\<lparr>identity = ''allowed:'' @ decimal index, fixture_policy = Allowed,
           fixture_payload = ''authorized evidence for scenario '' @ decimal index\<rparr>"
  let ?forbidden = "\<lparr>identity = ''forbidden:'' @ decimal index, fixture_policy = Denied,
           fixture_payload = ''prohibited unique payload '' @ scenario_name s\<rparr>"
  obtain ob where ob: "execute_fixture c js [?allowed] = Inr ob" using execute_fixture_total [OF assms] by blast
  moreover have "execute_fixture c js [?allowed, ?forbidden] = Inr ob"
    using fixture_no_influence [of ?forbidden c js "[?allowed]"] ob by simp
  ultimately show ?thesis
    using fixture_no_touch [OF ob] by (simp add: x reference_case_def Let_def evaluate_case_def abs_diff_def reference_id_def)
qed

lemma reference_cases:
  assumes "fixture_json_total js"
  shows "\<exists>ks. rmap (reference_case c js) xs = Inr ks \<and> list_all (\<lambda>k. case_passed (evaluate_case k)) ks \<and>
    map case_id ks = map reference_id xs \<and> map scenario ks = map snd xs"
proof (induction xs)
  case (Cons x xs)
  with reference_case_passes [OF assms, of c x] show ?case by auto
qed simp

lemma bench_g_fold_total:
  assumes "distinct (map case_id cases)" and "\<forall>k \<in> set cases. \<not> is_blank (case_id k) \<and> case_id k \<notin> set (ids st)"
    and "list_all (\<lambda>k. case_passed (evaluate_case k)) cases"
  shows "\<exists>st'. rfold bench_g_step cases st = Inr st'"
  using assms
proof (induction cases arbitrary: st)
  case (Cons k cases)
  then have "prohibited_touches (forbidden_present k) = 0" "prohibited_bytes (forbidden_present k) = 0"
    by (simp_all add: evaluate_case_def Let_def)
  with Cons.prems have "\<exists>st1. bench_g_step k st = Inr st1 \<and> ids st1 = bs_insert (case_id k) (ids st)"
    using unsigned_less [of "touches st"] unsigned_less [of "materialized st"] by (simp add: bench_g_step_Inr)
  then obtain st1 where st1: "bench_g_step k st = Inr st1" "ids st1 = bs_insert (case_id k) (ids st)" by blast
  moreover have "\<forall>k' \<in> set cases. case_id k' \<noteq> case_id k" using Cons.prems(1) by (simp add: image_iff) metis
  ultimately show ?case using Cons.IH [of st1] Cons.prems by auto
qed simp

theorem reference_bench_g_passes:
  assumes "fixture_json_total js"
  shows "\<exists>report. run_reference_bench_g c js = Inr report \<and> report_passed report"
proof -
  from reference_cases [OF assms, of c "enumerate 0 all_scenarios"] obtain ks where
    ks: "rmap (reference_case c js) (enumerate 0 all_scenarios) = Inr ks"
    and pass: "list_all (\<lambda>k. case_passed (evaluate_case k)) ks"
    and ids: "map case_id ks = map reference_id (enumerate 0 all_scenarios)"
    and scen: "map scenario ks = all_scenarios"
    by auto
  have "\<forall>i \<in> set (map case_id ks). \<not> is_blank i"
    using reference_ids(2) unfolding ids by (auto simp: list_all_iff)
  moreover have "distinct (map case_id ks)" using reference_ids(1) ids by simp
  ultimately obtain st where
    st: "rfold bench_g_step ks \<lparr>seen = [], ids = [], results = [], touches = 0, materialized = 0\<rparr> = Inr st"
    using bench_g_fold_total [of ks "\<lparr>seen = [], ids = [], results = [], touches = 0, materialized = 0\<rparr>"] pass by auto
  have len: "length ks = 9" using arg_cong [OF scen, of length] by (simp add: all_scenarios_def)
  have "set all_scenarios = scenario ` set ks" using arg_cong [OF scen, of set] by simp
  with bench_g_fold [OF st] have sc: "rall (require_scenario (seen st)) all_scenarios = Inr ()"
    by (auto simp: rall_Inr_iff require_scenario_def)
  have r: "results st = map evaluate_case ks" using bench_g_fold [OF st] by simp
  have "length (filter case_passed (map evaluate_case ks)) < 2 ^ 64"
    using length_filter_le [of case_passed "map evaluate_case ks"] len by simp
  moreover obtain b where "cases_json js ks = Some b"
    using assms unfolding fixture_json_total_def by blast
  moreover have "ks \<noteq> []" using len by auto
  ultimately obtain report where "evaluate_bench_g c (cases_json js) ks = Inr report"
    using st sc len by (simp add: evaluate_bench_g_def Let_def r filter_sort u64_of_usize_def)
  with bench_g_gate_exact(1) [OF this] pass ks show ?thesis by (simp add: run_reference_bench_g_def)
qed

end
