(* ===== verification/Core_Lineage.thy ===== *)
theory Core_Lineage
  imports Core_Errors "HOL-Library.Product_Lexorder"
begin

text \<open>
  Provenance, \<open>crates/contextdb-core/src/provenance.rs\<close>: revision numbers, lineage nodes with their
  derived order, derivations, and the lineage graph, whose validation is a depth-first search for
  support cycles. The search is shown to accept exactly the acyclic graphs.
\<close>

section \<open>Revisions, pipelines and nodes\<close>

definition revision_new :: "u32 \<Rightarrow> validation_error + u32" where
  "revision_new v = rbind (rguard (v \<noteq> 0) InvalidRevisionSequence) (\<lambda>_. Inr v)"

definition revision_checked_next :: "u32 \<Rightarrow> u32 option" where
  "revision_checked_next v = checked_add_word v 1"

record pipeline_identity =
  pipeline_name :: string
  pipeline_version :: string
  pipeline_schema_version :: string

definition pipeline_validate :: "pipeline_identity \<Rightarrow> validation_error + unit" where
  "pipeline_validate p =
     rbind (validate_non_blank (pipeline_name p) ''pipeline.name'') (\<lambda>_.
     rbind (validate_non_blank (pipeline_version p) ''pipeline.version'') (\<lambda>_.
     validate_non_blank (pipeline_schema_version p) ''pipeline.schema_version''))"

datatype derivation_kind =
  ActorAssertion | DeterministicProjector | ModelExtraction | Consolidation | HumanAdjudication | Migration | Import

datatype lineage_node =
    Observation uuid
  | EpisodeView uuid u32
  | Artifact uuid
  | Evidence uuid
  | NodeRevision uuid u32
  | ClaimRevision uuid u32
  | EdgeRevision uuid u32
  | ConflictRevision uuid u32
  | ContinuityProfile uuid u32
  | Candidate uuid
  | Summary uuid
  | ContextPack uuid
  | External string string

text \<open>The derived order: first the variant, then the fields.\<close>

fun node_key :: "lineage_node \<Rightarrow> nat \<times> uuid \<times> u32 \<times> string \<times> string" where
  "node_key (Observation i) = (0, i, 0, [], [])"
| "node_key (EpisodeView i r) = (1, i, r, [], [])"
| "node_key (Artifact i) = (2, i, 0, [], [])"
| "node_key (Evidence i) = (3, i, 0, [], [])"
| "node_key (NodeRevision i r) = (4, i, r, [], [])"
| "node_key (ClaimRevision i r) = (5, i, r, [], [])"
| "node_key (EdgeRevision i r) = (6, i, r, [], [])"
| "node_key (ConflictRevision i r) = (7, i, r, [], [])"
| "node_key (ContinuityProfile i r) = (8, i, r, [], [])"
| "node_key (Candidate i) = (9, i, 0, [], [])"
| "node_key (Summary i) = (10, i, 0, [], [])"
| "node_key (ContextPack i) = (11, i, 0, [], [])"
| "node_key (External n i) = (12, 0, 0, n, i)"

lemma node_key_inj: "node_key a = node_key b \<Longrightarrow> a = b"
  by (cases a; cases b) simp_all

instantiation lineage_node :: linorder
begin

definition less_eq_lineage_node :: "lineage_node \<Rightarrow> lineage_node \<Rightarrow> bool" where
  "a \<le> b \<longleftrightarrow> node_key a \<le> node_key b"

definition less_lineage_node :: "lineage_node \<Rightarrow> lineage_node \<Rightarrow> bool" where
  "a < b \<longleftrightarrow> node_key a < node_key b"

instance
proof
  fix a b c :: lineage_node
  show "a < b \<longleftrightarrow> a \<le> b \<and> \<not> b \<le> a"
    unfolding less_eq_lineage_node_def less_lineage_node_def by (rule less_le_not_le)
  show "a \<le> a" unfolding less_eq_lineage_node_def by (rule order_refl)
  show "a \<le> b \<Longrightarrow> b \<le> c \<Longrightarrow> a \<le> c" unfolding less_eq_lineage_node_def by (rule order_trans)
  show "a \<le> b \<Longrightarrow> b \<le> a \<Longrightarrow> a = b"
    unfolding less_eq_lineage_node_def by (intro node_key_inj) (rule antisym)
  show "a \<le> b \<or> b \<le> a" unfolding less_eq_lineage_node_def by (rule linear)
qed

end

definition node_validate :: "lineage_node \<Rightarrow> validation_error + unit" where
  "node_validate n =
     (case n of
        External namespace identifier \<Rightarrow>
          rbind (validate_non_blank namespace ''lineage.namespace'') (\<lambda>_.
          validate_non_blank identifier ''lineage.identifier'')
      | _ \<Rightarrow> Inr ())"

record derivation_ref =
  derivation_id :: uuid
  derivation_kind :: derivation_kind
  derivation_actor :: "uuid option"
  model_call :: "uuid option"
  pipeline :: pipeline_identity
  inputs :: "lineage_node list"

definition derivation_validate :: "derivation_ref \<Rightarrow> validation_error + unit" where
  "derivation_validate d =
     rbind (pipeline_validate (pipeline d)) (\<lambda>_.
     rbind (rall node_validate (inputs d)) (\<lambda>_.
     rbind (rguard (\<not> (derivation_kind d = ActorAssertion \<and> derivation_actor d = None)) InvalidAssertionDerivation) (\<lambda>_.
     rguard (\<not> (derivation_kind d = ModelExtraction \<and> model_call d = None))
       (InvalidState ''model extraction requires model_call''))))"

definition derivation_validate_for :: "derivation_ref \<Rightarrow> lineage_node \<Rightarrow> validation_error + unit" where
  "derivation_validate_for d target =
     rbind (derivation_validate d) (\<lambda>_. rguard (target \<notin> set (inputs d)) SelfSupportingLineage)"

section \<open>The lineage graph\<close>

record lineage_edge =
  derived :: lineage_node
  support :: lineage_node

type_synonym adjacency = "(lineage_node, lineage_node list) btree_map"

definition add_edge :: "lineage_edge \<Rightarrow> adjacency \<Rightarrow> validation_error + adjacency" where
  "add_edge e adj =
     rbind (node_validate (derived e)) (\<lambda>_.
     rbind (node_validate (support e)) (\<lambda>_.
     rbind (rguard (derived e \<noteq> support e) SelfSupportingLineage) (\<lambda>_.
     Inr (bt_upsert (support e) [] (\<lambda>ss. ss) (bt_upsert (derived e) [] (\<lambda>ss. ss @ [support e]) adj)))))"

text \<open>
  \<open>visit_lineage\<close> removes from \<open>visiting\<close> the node it has inserted before it returns successfully, so
  the set is the same again after every call and is an argument here; \<open>visited\<close> is threaded.
\<close>

function (sequential) visit_lineage ::
    "adjacency \<Rightarrow> lineage_node list \<Rightarrow> lineage_node list \<Rightarrow> lineage_node \<Rightarrow> validation_error + lineage_node list"
  and visit_sources ::
    "adjacency \<Rightarrow> lineage_node list \<Rightarrow> lineage_node list \<Rightarrow> lineage_node list \<Rightarrow> validation_error + lineage_node list" where
  "visit_lineage adj visiting visited node =
     (if node \<in> set visited then Inr visited
      else if node \<in> set visiting then Inl LineageCycle
      else case bt_get adj node of
          None \<Rightarrow> Inr (bs_insert node visited)
        | Some sources \<Rightarrow>
            rbind (visit_sources adj (bs_insert node visiting) visited sources) (\<lambda>visited'.
            Inr (bs_insert node visited')))"
| "visit_sources adj visiting visited [] = Inr visited"
| "visit_sources adj visiting visited (s # ss) =
     rbind (visit_lineage adj visiting visited s) (\<lambda>visited'. visit_sources adj visiting visited' ss)"
  by pat_completeness auto
termination
proof (relation "measures
    [\<lambda>x. case x of Inl (adj, visiting, _, _) \<Rightarrow> card (fst ` set adj - set visiting)
                 | Inr (adj, visiting, _, _) \<Rightarrow> card (fst ` set adj - set visiting),
     \<lambda>x. case x of Inl _ \<Rightarrow> 0 | Inr (_, _, _, ss) \<Rightarrow> Suc (length ss)]", goal_cases)
  case (2 adj visiting visited node sources)
  then have "node \<in> fst ` set adj - set visiting" by (force dest: map_of_SomeD)
  then have "card (fst ` set adj - insert node (set visiting)) < card (fst ` set adj - set visiting)"
    by (intro psubset_card_mono) auto
  then show ?case by simp
qed auto

definition lineage_validate :: "lineage_edge list \<Rightarrow> validation_error + unit" where
  "lineage_validate edges =
     rbind (rfold add_edge edges []) (\<lambda>adj.
     rbind (visit_sources adj [] [] (map fst adj)) (\<lambda>_. Inr ()))"

declare visit_lineage.simps [simp del]

section \<open>The search accepts exactly the acyclic graphs\<close>

definition adj_edges :: "adjacency \<Rightarrow> (lineage_node \<times> lineage_node) set" where
  "adj_edges adj = {(n, s). \<exists>ss. bt_get adj n = Some ss \<and> s \<in> set ss}"

text \<open>Visited nodes: all their supports are visited, and none of them supports itself.\<close>

definition settled :: "adjacency \<Rightarrow> lineage_node list \<Rightarrow> bool" where
  "settled adj visited \<longleftrightarrow>
     (\<forall>n \<in> set visited. (\<forall>s. (n, s) \<in> adj_edges adj \<longrightarrow> s \<in> set visited) \<and> (n, n) \<notin> (adj_edges adj)\<^sup>+)"

lemma settled_closed:
  assumes "(n, m) \<in> (adj_edges adj)\<^sup>+" and "settled adj visited" and "n \<in> set visited"
  shows "m \<in> set visited"
  using assms by (induction rule: trancl_induct) (auto simp: settled_def)

lemma settled_insert:
  assumes "settled adj visited" and "node \<notin> set visited"
    and s: "\<And>s. (node, s) \<in> adj_edges adj \<Longrightarrow> s \<in> set visited"
  shows "settled adj (bs_insert node visited)"
proof -
  have "(node, node) \<notin> (adj_edges adj)\<^sup>+"
  proof
    assume "(node, node) \<in> (adj_edges adj)\<^sup>+"
    then obtain m where m: "(node, m) \<in> adj_edges adj" "m = node \<or> (m, node) \<in> (adj_edges adj)\<^sup>+"
      by (auto elim: converse_tranclE)
    from s [OF m(1)] m(2) assms(2) settled_closed [OF _ assms(1)] show False by auto
  qed
  with assms show ?thesis by (auto simp: settled_def)
qed

lemma visit_settles:
  "visit_lineage adj visiting visited node = Inr visited' \<Longrightarrow> settled adj visited \<Longrightarrow>
     settled adj visited' \<and> set visited \<subseteq> set visited' \<and> node \<in> set visited' \<and>
     (set visited' - set visited) \<inter> set visiting = {}"
  "visit_sources adj visiting visited ss = Inr visited' \<Longrightarrow> settled adj visited \<Longrightarrow>
     settled adj visited' \<and> set visited \<subseteq> set visited' \<and> set ss \<subseteq> set visited' \<and>
     (set visited' - set visited) \<inter> set visiting = {}"
proof (induction adj visiting visited node and adj visiting visited ss arbitrary: visited' and visited'
    rule: visit_lineage_visit_sources.induct)
  case (1 adj visiting visited node)
  show ?case
  proof (cases "node \<in> set visited")
    case True
    with "1.prems" show ?thesis by (simp add: visit_lineage.simps)
  next
    case new: False
    with "1.prems"(1) have nv: "node \<notin> set visiting" by (auto simp: visit_lineage.simps split: if_splits)
    show ?thesis
    proof (cases "bt_get adj node")
      case None
      have "settled adj (bs_insert node visited)"
        using settled_insert [OF "1.prems"(2) new] None by (simp add: adj_edges_def)
      with "1.prems"(1) None new nv show ?thesis by (auto simp: visit_lineage.simps)
    next
      case (Some sources)
      with "1.prems"(1) new nv obtain v1 where v1: "visit_sources adj (bs_insert node visiting) visited sources = Inr v1"
        "visited' = bs_insert node v1"
        by (auto simp: visit_lineage.simps)
      note ih = "1.IH" [OF new nv Some v1(1) "1.prems"(2)]
      then have "node \<notin> set v1" using new by auto
      moreover have "s \<in> set v1" if "(node, s) \<in> adj_edges adj" for s
        using that Some ih by (auto simp: adj_edges_def)
      ultimately have "settled adj (bs_insert node v1)" using settled_insert [of adj v1 node] ih by blast
      with ih v1(2) nv show ?thesis by auto
    qed
  qed
next
  case (3 adj visiting visited s ss)
  then obtain v1 where v1: "visit_lineage adj visiting visited s = Inr v1" "visit_sources adj visiting v1 ss = Inr visited'"
    by auto
  from "3.IH"(1) [OF v1(1) "3.prems"(2)] have a: "settled adj v1" "set visited \<subseteq> set v1" "s \<in> set v1"
    "(set v1 - set visited) \<inter> set visiting = {}" by auto
  from "3.IH"(2) [OF v1(2) a(1)] a show ?case by auto
qed auto

text \<open>A refused node is reached from itself: every node on the search path reaches the current one.\<close>

lemma visit_cycle:
  "visit_lineage adj visiting visited node = Inl e \<Longrightarrow> \<forall>x \<in> set visiting. (x, node) \<in> (adj_edges adj)\<^sup>+ \<Longrightarrow>
     e = LineageCycle \<and> \<not> acyclic (adj_edges adj)"
  "visit_sources adj visiting visited ss = Inl e \<Longrightarrow> \<forall>s \<in> set ss. \<forall>x \<in> set visiting. (x, s) \<in> (adj_edges adj)\<^sup>+ \<Longrightarrow>
     e = LineageCycle \<and> \<not> acyclic (adj_edges adj)"
proof (induction adj visiting visited node and adj visiting visited ss rule: visit_lineage_visit_sources.induct)
  case (1 adj visiting visited node)
  show ?case
  proof (cases "node \<in> set visiting")
    case True
    with "1.prems" show ?thesis by (auto simp: visit_lineage.simps acyclic_def split: if_splits)
  next
    case False
    with "1.prems"(1) obtain sources where s: "node \<notin> set visited" "bt_get adj node = Some sources"
      "visit_sources adj (bs_insert node visiting) visited sources = Inl e"
      by (auto simp: visit_lineage.simps rbind_Inl_iff split: if_splits option.splits)
    have edge: "(node, x) \<in> adj_edges adj" if "x \<in> set sources" for x using s(2) that by (auto simp: adj_edges_def)
    have "\<forall>x \<in> set sources. \<forall>y \<in> set (bs_insert node visiting). (y, x) \<in> (adj_edges adj)\<^sup>+"
      using edge "1.prems"(2) by (auto intro: trancl_into_trancl)
    from "1.IH" [OF s(1) False s(2,3) this] show ?thesis .
  qed
next
  case (3 adj visiting visited s ss)
  then show ?case by (auto simp: rbind_Inl_iff)
qed auto

text \<open>The adjacency map holds exactly the edges and their nodes.\<close>

definition edge_pairs :: "lineage_edge list \<Rightarrow> (lineage_node \<times> lineage_node) set" where
  "edge_pairs edges = (\<lambda>e. (derived e, support e)) ` set edges"

definition edge_ok :: "lineage_edge \<Rightarrow> bool" where
  "edge_ok e \<longleftrightarrow> node_validate (derived e) = Inr () \<and> node_validate (support e) = Inr ()"

lemma add_edge_Inr:
  "add_edge e adj = Inr adj' \<Longrightarrow> edge_ok e \<and> derived e \<noteq> support e \<and>
     adj_edges adj' = insert (derived e, support e) (adj_edges adj) \<and>
     fst ` set adj' = {derived e, support e} \<union> fst ` set adj"
proof -
  assume a: "add_edge e adj = Inr adj'"
  then have v: "edge_ok e" "derived e \<noteq> support e"
    and adj': "adj' = bt_upsert (support e) [] (\<lambda>ss. ss) (bt_upsert (derived e) [] (\<lambda>ss. ss @ [support e]) adj)"
    by (auto simp: add_edge_def edge_ok_def)
  have "adj_edges adj' = insert (derived e, support e) (adj_edges adj)"
    using v(2) by (auto simp: adj' adj_edges_def split: option.splits if_splits)
  moreover have "fst ` set adj' = {derived e, support e} \<union> fst ` set adj"
    unfolding adj' bt_upsert_def by (simp only: bt_insert_keys) blast
  ultimately show ?thesis using v by simp
qed

lemma add_edges_Inr:
  "rfold add_edge edges adj = Inr adj' \<Longrightarrow> list_all edge_ok edges \<and> (\<forall>e \<in> set edges. derived e \<noteq> support e) \<and>
     adj_edges adj' = edge_pairs edges \<union> adj_edges adj \<and> fst ` set adj' = Field (edge_pairs edges) \<union> fst ` set adj"
proof (induction edges arbitrary: adj)
  case (Cons e edges)
  then obtain a1 where a1: "add_edge e adj = Inr a1" "rfold add_edge edges a1 = Inr adj'" by auto
  from Cons.IH [OF a1(2)] add_edge_Inr [OF a1(1)] show ?case by (auto simp: edge_pairs_def Field_def)
qed (simp add: edge_pairs_def)

lemma add_edges_total:
  "list_all edge_ok edges \<Longrightarrow> \<forall>e \<in> set edges. derived e \<noteq> support e \<Longrightarrow> \<exists>adj'. rfold add_edge edges adj = Inr adj'"
  by (induction edges arbitrary: adj) (auto simp: add_edge_def edge_ok_def)

text \<open>C13. The lineage check accepts exactly the graphs without support cycles: validation succeeds if
  and only if every node of every edge is well formed and no item supports itself, directly or through
  any number of others.\<close>

theorem lineage_accepts_acyclic:
  "lineage_validate edges = Inr () \<longleftrightarrow> list_all edge_ok edges \<and> acyclic (edge_pairs edges)"
proof
  assume "lineage_validate edges = Inr ()"
  then obtain adj v where adj: "rfold add_edge edges [] = Inr adj" "visit_sources adj [] [] (map fst adj) = Inr v"
    by (auto simp: lineage_validate_def)
  from add_edges_Inr [OF adj(1)] have e: "list_all edge_ok edges" "adj_edges adj = edge_pairs edges"
    "fst ` set adj = Field (edge_pairs edges)" by (auto simp: adj_edges_def)
  have v: "settled adj v" "Field (edge_pairs edges) \<subseteq> set v"
    using visit_settles(2) [OF adj(2)] e(3) by (auto simp: settled_def)
  have "(n, n) \<notin> (edge_pairs edges)\<^sup>+" for n
  proof
    assume c: "(n, n) \<in> (edge_pairs edges)\<^sup>+"
    then have "n \<in> Field (edge_pairs edges)" by (metis FieldI1 tranclD)
    with v c e(2) show False by (auto simp: settled_def)
  qed
  with e(1) show "list_all edge_ok edges \<and> acyclic (edge_pairs edges)" by (simp add: acyclic_def)
next
  assume a: "list_all edge_ok edges \<and> acyclic (edge_pairs edges)"
  then have "\<forall>e \<in> set edges. derived e \<noteq> support e"
    by (force simp: acyclic_def edge_pairs_def)
  with a add_edges_total obtain adj where adj: "rfold add_edge edges [] = Inr adj" by blast
  from add_edges_Inr [OF adj] have "adj_edges adj = edge_pairs edges" by (auto simp: adj_edges_def)
  with a visit_cycle(2) [of adj "[]" "[]" "map fst adj"] adj show "lineage_validate edges = Inr ()"
    by (cases "visit_sources adj [] [] (map fst adj)") (auto simp: lineage_validate_def)
qed

end
