(* ===== verification/Core_Policy.thy ===== *)
theory Core_Policy
  imports Core_Lineage
begin

text \<open>
  The policy envelope of semantic revisions, \<open>crates/contextdb-core/src/policy.rs\<close> with the intervals
  of \<open>time.rs\<close>: scopes, perspective, ownership and audience grants, consent, use, retention and
  security, their validation, and the check that an automatically derived object is not more
  permissive than its source. Identifiers are UUIDs; an ordered set is the list of its elements.
\<close>

section \<open>Intervals\<close>

record time_range =
  range_start :: int
  range_end :: "int option"

definition time_range_validate :: "time_range \<Rightarrow> validation_error + unit" where
  "time_range_validate r =
     (case range_end r of
        Some e \<Rightarrow> if range_start r \<ge> e then Inl (InvalidTimeRange (range_start r) e) else Inr ()
      | None \<Rightarrow> Inr ())"

definition time_range_new :: "int \<Rightarrow> int option \<Rightarrow> validation_error + time_range" where
  "time_range_new s e =
     (let r = \<lparr>range_start = s, range_end = e\<rparr> in rbind (time_range_validate r) (\<lambda>_. Inr r))"

definition open_ended :: "int \<Rightarrow> time_range" where
  "open_ended s = \<lparr>range_start = s, range_end = None\<rparr>"

definition before_end :: "int \<Rightarrow> time_range \<Rightarrow> bool" where
  "before_end t r \<longleftrightarrow> (case range_end r of None \<Rightarrow> True | Some e \<Rightarrow> t < e)"

definition range_overlaps :: "time_range \<Rightarrow> time_range \<Rightarrow> bool" where
  "range_overlaps a b \<longleftrightarrow> before_end (range_start a) b \<and> before_end (range_start b) a"

definition range_contains :: "time_range \<Rightarrow> int \<Rightarrow> bool" where
  "range_contains r t \<longleftrightarrow> t \<ge> range_start r \<and> before_end t r"

text \<open>On valid intervals, overlapping is having a common instant.\<close>

lemma range_overlaps_iff:
  assumes "time_range_validate a = Inr ()" and "time_range_validate b = Inr ()"
  shows "range_overlaps a b \<longleftrightarrow> (\<exists>t. range_contains a t \<and> range_contains b t)"
proof
  assume "range_overlaps a b"
  with assms show "\<exists>t. range_contains a t \<and> range_contains b t"
    by (intro exI [of _ "max (range_start a) (range_start b)"])
      (auto simp: range_overlaps_def range_contains_def before_end_def time_range_validate_def split: option.splits if_splits)
next
  assume "\<exists>t. range_contains a t \<and> range_contains b t"
  then show "range_overlaps a b"
    by (auto simp: range_overlaps_def range_contains_def before_end_def split: option.splits)
qed

section \<open>The envelope\<close>

datatype scope_kind =
    WorkspaceScope | MemorySpaceScope | SubjectScope | RelationshipScope | ProjectScope | RepositoryScope
  | OrganisationScope | TeamScope | SessionScope | TaskScope | PlaceScope | TimeRegionScope
  | SecurityCompartmentScope | DomainScope | OtherScope string

datatype scope_inheritance = Exact | Descendants

record scope_ref =
  scope_kind :: scope_kind
  scope_id :: uuid
  inheritance :: scope_inheritance

definition scope_validate :: "scope_ref \<Rightarrow> validation_error + unit" where
  "scope_validate s = (case scope_kind s of OtherScope label \<Rightarrow> validate_non_blank label ''scope.kind'' | _ \<Rightarrow> Inr ())"

datatype epistemic_role =
    Experiencer | Witness | Asserter | Interpreter | Verifier | ExternalReporter | FictionalNarrator | OtherRole string

record perspective =
  knower :: uuid
  experiencer :: "uuid option"
  narrator :: uuid
  role :: epistemic_role

definition perspective_validate :: "perspective \<Rightarrow> validation_error + unit" where
  "perspective_validate p = (case role p of OtherRole label \<Rightarrow> validate_non_blank label ''perspective.role'' | _ \<Rightarrow> Inr ())"

datatype purpose =
    Conversation | Personalisation | TaskExecution | KnowledgeRecall | Safety | Audit | ExportPurpose | MigrationPurpose
  | UserSpecified string

definition purpose_validate :: "purpose \<Rightarrow> validation_error + unit" where
  "purpose_validate p = (case p of UserSpecified label \<Rightarrow> validate_non_blank label ''purpose'' | _ \<Rightarrow> Inr ())"

datatype audience = PublicAudience | Owner | SubjectAudience uuid | GroupAudience uuid | MemorySpaceAudience uuid

definition covers :: "audience \<Rightarrow> audience \<Rightarrow> bool" where
  "covers a narrower \<longleftrightarrow> a = PublicAudience \<or> a = narrower"

datatype access_capability = Retrieve | InfluenceResponse | Mention | ExportCapability | Derive | Modify

record audience_grant =
  audience :: audience
  purposes :: "purpose list"
  capabilities :: "access_capability list"

definition grant_validate :: "audience_grant \<Rightarrow> validation_error + unit" where
  "grant_validate g =
     rbind (rguard (purposes g \<noteq> []) (EmptyCollection ''audience_grant.purposes'')) (\<lambda>_.
     rbind (rguard (capabilities g \<noteq> []) (EmptyCollection ''audience_grant.capabilities'')) (\<lambda>_.
     rall purpose_validate (purposes g)))"

record modification_policy =
  owners_may_modify :: bool
  delegates_may_modify :: bool
  system_may_derive :: bool

record ownership_policy =
  owners :: "uuid list"
  audience_grants :: "audience_grant list"
  allowed_purposes :: "purpose list"
  modification :: modification_policy

definition ensure_distinct :: "'a list \<Rightarrow> string \<Rightarrow> validation_error + unit" where
  "ensure_distinct vs field = rguard (distinct vs) (DuplicateIdentifier field)"

definition validate_owned_grant :: "purpose list \<Rightarrow> audience_grant \<Rightarrow> validation_error + unit" where
  "validate_owned_grant allowed g =
     rbind (grant_validate g) (\<lambda>_.
     rguard (set (purposes g) \<subseteq> set allowed) (InvalidState ''grant purpose is not allowed by ownership policy''))"

definition ownership_validate :: "ownership_policy \<Rightarrow> validation_error + unit" where
  "ownership_validate p =
     rbind (ensure_distinct (owners p) ''ownership.owners'') (\<lambda>_.
     rbind (rguard (allowed_purposes p \<noteq> []) (EmptyCollection ''ownership.allowed_purposes'')) (\<lambda>_.
     rbind (rall purpose_validate (allowed_purposes p)) (\<lambda>_.
     rall (validate_owned_grant (allowed_purposes p)) (audience_grants p))))"

datatype memory_class =
    RawExperience | PersonalFact | RelationshipClass | Sensitive | Procedural | Operational | ArtifactClass
  | OtherClass string

datatype consent_status = ConsentDenied | ConsentUnknown | ConsentGranted

fun consent_rank :: "consent_status \<Rightarrow> nat" where
  "consent_rank ConsentDenied = 0"
| "consent_rank ConsentUnknown = 1"
| "consent_rank ConsentGranted = 2"

record consent_state =
  consent_subject :: uuid
  memory_class :: memory_class
  status :: consent_status
  valid_time :: time_range

definition consent_state_validate :: "consent_state \<Rightarrow> validation_error + unit" where
  "consent_state_validate c =
     rbind (case memory_class c of OtherClass label \<Rightarrow> validate_non_blank label ''consent.memory_class'' | _ \<Rightarrow> Inr ()) (\<lambda>_.
     time_range_validate (valid_time c))"

record consent_policy =
  consent_required :: bool
  decisions :: "consent_state list"

definition consent_validate :: "consent_policy \<Rightarrow> validation_error + unit" where
  "consent_validate p =
     rbind (rguard (\<not> (consent_required p \<and> decisions p = [])) (EmptyCollection ''consent.decisions'')) (\<lambda>_.
     rall consent_state_validate (decisions p))"

datatype policy_decision = Deny | Conditional | Allow

fun decision_rank :: "policy_decision \<Rightarrow> nat" where
  "decision_rank Deny = 0"
| "decision_rank Conditional = 1"
| "decision_rank Allow = 2"

datatype retention_policy = Ephemeral | SessionRetention | Duration u64 | Indefinite

fun permits_at_most :: "retention_policy \<Rightarrow> retention_policy \<Rightarrow> bool" where
  "permits_at_most _ Indefinite = True"
| "permits_at_most Ephemeral _ = True"
| "permits_at_most SessionRetention SessionRetention = True"
| "permits_at_most SessionRetention (Duration _) = True"
| "permits_at_most (Duration d) (Duration original) = (d \<le> original)"
| "permits_at_most left right = (left = right)"

record memory_use_policy =
  retrieve :: policy_decision
  influence_response :: policy_decision
  mention_explicitly :: policy_decision
  external_model_use :: policy_decision
  retention :: retention_policy

datatype security_classification = Public | Internal | Confidential | Restricted

fun classification_rank :: "security_classification \<Rightarrow> nat" where
  "classification_rank Public = 0"
| "classification_rank Internal = 1"
| "classification_rank Confidential = 2"
| "classification_rank Restricted = 3"

record security_policy =
  classification :: security_classification
  labels :: "string list"
  required_compartments :: "uuid list"
  allow_external_processing :: bool

definition security_validate :: "security_policy \<Rightarrow> validation_error + unit" where
  "security_validate p = rall (\<lambda>l. validate_non_blank l ''security.label'') (labels p)"

record semantic_envelope =
  scopes :: "scope_ref list"
  perspective :: perspective
  ownership :: ownership_policy
  consent :: consent_policy
  use_policy :: memory_use_policy
  security :: security_policy
  derivation :: derivation_ref

definition envelope_validate :: "semantic_envelope \<Rightarrow> validation_error + unit" where
  "envelope_validate v =
     rbind (rall scope_validate (scopes v)) (\<lambda>_.
     rbind (perspective_validate (perspective v)) (\<lambda>_.
     rbind (ownership_validate (ownership v)) (\<lambda>_.
     rbind (consent_validate (consent v)) (\<lambda>_.
     rbind (security_validate (security v)) (\<lambda>_.
     derivation_validate (derivation v))))))"

definition validate_for_target :: "semantic_envelope \<Rightarrow> lineage_node \<Rightarrow> validation_error + unit" where
  "validate_for_target v target =
     rbind (envelope_validate v) (\<lambda>_. derivation_validate_for (derivation v) target)"

section \<open>Derivation\<close>

definition modification_is_broader :: "modification_policy \<Rightarrow> modification_policy \<Rightarrow> bool" where
  "modification_is_broader d s \<longleftrightarrow>
     owners_may_modify d \<and> \<not> owners_may_modify s \<or>
     delegates_may_modify d \<and> \<not> delegates_may_modify s \<or>
     system_may_derive d \<and> \<not> system_may_derive s"

definition grant_covered :: "audience_grant list \<Rightarrow> audience_grant \<Rightarrow> bool" where
  "grant_covered source g = list_ex (\<lambda>s. covers (audience s) (audience g) \<and>
     set (purposes g) \<subseteq> set (purposes s) \<and> set (capabilities g) \<subseteq> set (capabilities s)) source"

text \<open>A decision is within the source when a source decision on the same subject and class has at least its status.\<close>

definition consent_within :: "consent_policy \<Rightarrow> consent_state \<Rightarrow> bool" where
  "consent_within source d =
     (case filter (\<lambda>i. consent_subject i = consent_subject d \<and> memory_class i = memory_class d) (decisions source) of
        [] \<Rightarrow> False
      | i # is \<Rightarrow> consent_rank (status d) \<le> fold (\<lambda>j m. max m (consent_rank (status j))) is (consent_rank (status i)))"

definition validate_consent_derivation :: "consent_policy \<Rightarrow> consent_policy \<Rightarrow> validation_error + unit" where
  "validate_consent_derivation d source =
     rbind (rguard (\<not> (consent_required source \<and> \<not> consent_required d))
       (PolicyWeakening ''derived memory removed consent requirement'')) (\<lambda>_.
     rall (\<lambda>c. rguard (consent_within source c) (PolicyWeakening ''derived memory broadened consent'')) (decisions d))"

definition use_is_broader :: "memory_use_policy \<Rightarrow> memory_use_policy \<Rightarrow> bool" where
  "use_is_broader d s \<longleftrightarrow>
     decision_rank (retrieve d) > decision_rank (retrieve s) \<or>
     decision_rank (influence_response d) > decision_rank (influence_response s) \<or>
     decision_rank (mention_explicitly d) > decision_rank (mention_explicitly s) \<or>
     decision_rank (external_model_use d) > decision_rank (external_model_use s) \<or>
     \<not> permits_at_most (retention d) (retention s)"

definition security_is_weaker :: "security_policy \<Rightarrow> security_policy \<Rightarrow> bool" where
  "security_is_weaker d s \<longleftrightarrow>
     classification_rank (classification d) < classification_rank (classification s) \<or>
     \<not> set (labels s) \<subseteq> set (labels d) \<or>
     \<not> set (required_compartments s) \<subseteq> set (required_compartments d) \<or>
     allow_external_processing d \<and> \<not> allow_external_processing s"

definition validate_derived_from :: "semantic_envelope \<Rightarrow> semantic_envelope \<Rightarrow> validation_error + unit" where
  "validate_derived_from d s =
     rbind (envelope_validate d) (\<lambda>_.
     rbind (envelope_validate s) (\<lambda>_.
     rbind (rguard (list_all (\<lambda>x. x \<in> set (scopes s)) (scopes d))
       (PolicyWeakening ''derived scope is not constrained by the source'')) (\<lambda>_.
     rbind (rguard (set (owners (ownership d)) = set (owners (ownership s)))
       (PolicyWeakening ''derived ownership differs from source ownership'')) (\<lambda>_.
     rbind (rguard (set (allowed_purposes (ownership d)) \<subseteq> set (allowed_purposes (ownership s)))
       (PolicyWeakening ''derived purpose set is broader'')) (\<lambda>_.
     rbind (rguard (\<not> modification_is_broader (modification (ownership d)) (modification (ownership s)))
       (PolicyWeakening ''derived modification permissions are broader'')) (\<lambda>_.
     rbind (rall (\<lambda>g. rguard (grant_covered (audience_grants (ownership s)) g)
         (PolicyWeakening ''derived audience grant is broader'')) (audience_grants (ownership d))) (\<lambda>_.
     rbind (rguard (\<not> use_is_broader (use_policy d) (use_policy s))
       (PolicyWeakening ''derived memory-use policy is broader'')) (\<lambda>_.
     rbind (rguard (\<not> security_is_weaker (security d) (security s))
       (PolicyWeakening ''derived security policy is weaker'')) (\<lambda>_.
     validate_consent_derivation (consent d) (consent s))))))))))"

section \<open>Derivation narrows\<close>

text \<open>What an envelope lets an audience do for a purpose.\<close>

definition grants_access :: "semantic_envelope \<Rightarrow> audience \<Rightarrow> purpose \<Rightarrow> access_capability \<Rightarrow> bool" where
  "grants_access v a p c = list_ex (\<lambda>g. covers (audience g) a \<and> p \<in> set (purposes g) \<and> c \<in> set (capabilities g))
     (audience_grants (ownership v))"

definition consent_bounded :: "consent_policy \<Rightarrow> consent_policy \<Rightarrow> bool" where
  "consent_bounded d s \<longleftrightarrow> (\<forall>c \<in> set (decisions d). \<exists>i \<in> set (decisions s).
     consent_subject i = consent_subject c \<and> memory_class i = memory_class c \<and>
     consent_rank (status c) \<le> consent_rank (status i))"

definition narrower :: "semantic_envelope \<Rightarrow> semantic_envelope \<Rightarrow> bool" where
  "narrower d s \<longleftrightarrow>
     set (scopes d) \<subseteq> set (scopes s) \<and>
     set (owners (ownership d)) = set (owners (ownership s)) \<and>
     set (allowed_purposes (ownership d)) \<subseteq> set (allowed_purposes (ownership s)) \<and>
     (\<forall>a p c. grants_access d a p c \<longrightarrow> grants_access s a p c) \<and>
     \<not> modification_is_broader (modification (ownership d)) (modification (ownership s)) \<and>
     \<not> use_is_broader (use_policy d) (use_policy s) \<and>
     \<not> security_is_weaker (security d) (security s) \<and>
     (consent_required (consent s) \<longrightarrow> consent_required (consent d)) \<and>
     consent_bounded (consent d) (consent s)"














subsection \<open>Instances\<close>

definition demo_envelope :: "time_range \<Rightarrow> audience \<Rightarrow> semantic_envelope" where
  "demo_envelope r a = \<lparr>
     scopes = [\<lparr>scope_kind = ProjectScope, scope_id = 1, inheritance = Exact\<rparr>],
     perspective = \<lparr>knower = 2, experiencer = None, narrator = 3, role = Witness\<rparr>,
     ownership = \<lparr>owners = [2], audience_grants = [\<lparr>audience = a, purposes = [Conversation], capabilities = [Retrieve]\<rparr>],
       allowed_purposes = [Conversation],
       modification = \<lparr>owners_may_modify = True, delegates_may_modify = False, system_may_derive = True\<rparr>\<rparr>,
     consent = \<lparr>consent_required = True,
       decisions = [\<lparr>consent_subject = 2, memory_class = PersonalFact, status = ConsentGranted, valid_time = r\<rparr>]\<rparr>,
     use_policy = \<lparr>retrieve = Allow, influence_response = Allow, mention_explicitly = Conditional,
       external_model_use = Deny, retention = Indefinite\<rparr>,
     security = \<lparr>classification = Internal, labels = [], required_compartments = [], allow_external_processing = False\<rparr>,
     derivation = \<lparr>derivation_id = 4, derivation_kind = Import, derivation_actor = None, model_call = None,
       pipeline = \<lparr>pipeline_name = ''p'', pipeline_version = ''1'', pipeline_schema_version = ''1''\<rparr>, inputs = []\<rparr>\<rparr>"

lemmas demo_envelope_simps = demo_envelope_def validate_derived_from_def envelope_validate_def scope_validate_def
  perspective_validate_def ownership_validate_def ensure_distinct_def validate_owned_grant_def grant_validate_def
  purpose_validate_def consent_validate_def consent_state_validate_def security_validate_def derivation_validate_def
  pipeline_validate_def validate_non_blank_def modification_is_broader_def grant_covered_def covers_def
  use_is_broader_def security_is_weaker_def validate_consent_derivation_def consent_within_def

lemma demo_not_blank: "\<not> is_blank ''p''" "\<not> is_blank ''1''"
  by code_simp+

lemma demo_derived:
  assumes "time_range_validate r = Inr ()" and "time_range_validate r' = Inr ()" and "a' = PublicAudience \<or> a' = a"
  shows "validate_derived_from (demo_envelope r a) (demo_envelope r' a') = Inr ()"
  using assms by (auto simp: demo_envelope_simps demo_not_blank)

section \<open>Properties\<close>



definition consent_granted_at :: "semantic_envelope \<Rightarrow> uuid \<Rightarrow> memory_class \<Rightarrow> int \<Rightarrow> bool" where
  "consent_granted_at v subject cl t = list_ex (\<lambda>c. consent_subject c = subject \<and> memory_class c = cl \<and>
     status c = ConsentGranted \<and> range_contains (valid_time c) t) (decisions (consent v))"

text \<open>C14. The derivation check does not compare the validity of consent: there is an accepted
  derivation whose derived envelope holds a granted consent at a time at which its source holds none,
  because the source's consent has expired.\<close>

theorem derived_consent_outlives_source:
  "\<exists>d s subject cl t. validate_derived_from d s = Inr () \<and>
     consent_granted_at d subject cl t \<and> \<not> consent_granted_at s subject cl t"
proof (intro exI conjI)
  let ?d = "demo_envelope (open_ended 0) Owner"
  let ?s = "demo_envelope \<lparr>range_start = 0, range_end = Some 10\<rparr> Owner"
  show "validate_derived_from ?d ?s = Inr ()"
    by (rule demo_derived) (simp_all add: open_ended_def time_range_validate_def)
  show "consent_granted_at ?d 2 PersonalFact 10"
    by (simp add: consent_granted_at_def demo_envelope_def open_ended_def range_contains_def before_end_def)
  show "\<not> consent_granted_at ?s 2 PersonalFact 10"
    by (simp add: consent_granted_at_def demo_envelope_def range_contains_def before_end_def)
qed

end
