(* ===== verification/Model_Reliability.thy ===== *)
theory Model_Reliability
  imports ContextDB_Prelude
begin

text \<open>
  Reliability of model calls, \<open>crates/contextdb-model/src/reliability.rs\<close> and the attempt loop of
  \<open>gateway.rs\<close>: retry bounds and delays, the circuit breaker, provider availability, and the loop of
  \<open>execute_route\<close> that ties them together. The provider, the audit sink, the schema validator and the
  clock are outside the crate's logic: what they do in each attempt is a script, and the theorems
  hold for every script. Locks are not modelled.
\<close>

section \<open>Provider errors and retries\<close>

datatype model_runtime_error =
    InvalidModelNumber string string
  | ArithmeticOverflow
  | ModelSerialization
  | AuditFailure string

datatype provider_error_kind = Timeout | Unavailable | RateLimited | Refusal | InvalidRequest | Internal

definition retryable :: "provider_error_kind \<Rightarrow> bool" where
  "retryable k \<longleftrightarrow> k \<in> {Timeout, Unavailable, RateLimited, Internal}"

definition affects_circuit :: "provider_error_kind \<Rightarrow> bool" where
  "affects_circuit k = retryable k"

record provider_error =
  error_kind :: provider_error_kind
  retry_after_ms :: "u64 option"

record retry_policy =
  max_attempts :: u8
  per_attempt_timeout_ms :: u64
  total_timeout_ms :: u64
  base_backoff_ms :: u64
  max_backoff_ms :: u64
  max_schema_repairs :: u8

definition retry_policy_default :: retry_policy where
  "retry_policy_default = \<lparr>max_attempts = 3, per_attempt_timeout_ms = 30000, total_timeout_ms = 60000,
     base_backoff_ms = 100, max_backoff_ms = 2000, max_schema_repairs = 1\<rparr>"

definition retry_policy_validate :: "retry_policy \<Rightarrow> model_runtime_error + unit" where
  "retry_policy_validate p =
     rguard (\<not> (max_attempts p = 0 \<or> max_attempts p > 10 \<or> per_attempt_timeout_ms p = 0 \<or>
         total_timeout_ms p < per_attempt_timeout_ms p \<or> max_schema_repairs p > 1 \<or>
         base_backoff_ms p > max_backoff_ms p))
       (InvalidModelNumber ''retry_policy'' ''invalid attempt, timeout, backoff, or repair bound'')"

definition saturating_mul :: "u64 \<Rightarrow> u64 \<Rightarrow> u64" where
  "saturating_mul a b = (if unat a * unat b < 2 ^ 64 then a * b else - 1)"

definition saturating_add :: "u64 \<Rightarrow> u64 \<Rightarrow> u64" where
  "saturating_add a b = (if unat a + unat b < 2 ^ 64 then a + b else - 1)"

text \<open>The shift is at most 31, so \<open>checked_shl\<close> always succeeds.\<close>

definition delay_for :: "retry_policy \<Rightarrow> u8 \<Rightarrow> u64 option \<Rightarrow> u64" where
  "delay_for p completed retry_after =
     (let shift = min (unat completed - 1) 31;
          exponential = min (saturating_mul (base_backoff_ms p) (2 ^ shift)) (max_backoff_ms p)
      in min (case retry_after of None \<Rightarrow> exponential | Some d \<Rightarrow> d) (max_backoff_ms p))"

section \<open>The circuit breaker\<close>

record circuit_breaker_config =
  failure_threshold :: u32
  open_duration_ms :: u64

definition circuit_config_default :: circuit_breaker_config where
  "circuit_config_default = \<lparr>failure_threshold = 3, open_duration_ms = 30000\<rparr>"

definition circuit_config_validate :: "circuit_breaker_config \<Rightarrow> model_runtime_error + unit" where
  "circuit_config_validate c =
     rguard (\<not> (failure_threshold c = 0 \<or> open_duration_ms c = 0))
       (InvalidModelNumber ''circuit_breaker'' ''threshold and open duration must be positive'')"

datatype circuit_state = Closed u32 | Open u64 | HalfOpen bool

type_synonym 'k circuits = "('k, circuit_state) btree_map"

definition circuit_default :: circuit_state where
  "circuit_default = Closed 0"

definition circuit_snapshot :: "'k circuits \<Rightarrow> 'k \<Rightarrow> circuit_state" where
  "circuit_snapshot states key = (case bt_get states key of None \<Rightarrow> circuit_default | Some s \<Rightarrow> s)"

definition circuit_allow :: "'k::linorder \<Rightarrow> u64 \<Rightarrow> 'k circuits \<Rightarrow> 'k circuits \<times> bool" where
  "circuit_allow key now states =
     (case circuit_snapshot states key of
        Closed n \<Rightarrow> (bt_insert key (Closed n) states, True)
      | Open retry_at \<Rightarrow>
          if now < retry_at then (bt_insert key (Open retry_at) states, False)
          else (bt_insert key (HalfOpen True) states, True)
      | HalfOpen in_flight \<Rightarrow> (bt_insert key (HalfOpen True) states, \<not> in_flight))"

definition record_success :: "'k::linorder \<Rightarrow> 'k circuits \<Rightarrow> 'k circuits" where
  "record_success key states = bt_insert key (Closed 0) states"

definition record_failure ::
    "circuit_breaker_config \<Rightarrow> 'k::linorder \<Rightarrow> provider_error_kind \<Rightarrow> u64 \<Rightarrow> 'k circuits
      \<Rightarrow> 'k circuits \<times> (model_runtime_error + unit)" where
  "record_failure cfg key kind now states =
     (let state = circuit_snapshot states key in
      if \<not> affects_circuit kind then (bt_insert key (Closed 0) states, Inr ())
      else
        let failures = (case state of Closed n \<Rightarrow> if n = - 1 then - 1 else n + 1 | _ \<Rightarrow> failure_threshold cfg)
        in if failure_threshold cfg \<le> failures
           then (case checked_add_word now (open_duration_ms cfg) of
                   None \<Rightarrow> (bt_insert key state states, Inl ArithmeticOverflow)
                 | Some retry_at \<Rightarrow> (bt_insert key (Open retry_at) states, Inr ()))
           else (bt_insert key (Closed failures) states, Inr ()))"

section \<open>Availability\<close>

definition mark_unavailable :: "'p::linorder \<Rightarrow> u64 \<Rightarrow> ('p, u64) btree_map \<Rightarrow> ('p, u64) btree_map" where
  "mark_unavailable provider until m = bt_insert provider until m"

definition available :: "('p, u64) btree_map \<Rightarrow> 'p \<Rightarrow> u64 \<Rightarrow> bool" where
  "available m provider now = (case bt_get m provider of None \<Rightarrow> True | Some until \<Rightarrow> until \<le> now)"

section \<open>The attempt loop\<close>

datatype call_status = Succeeded | SchemaRejected | Refused | TimedOut | ProviderUnavailable | InvalidRequestStatus | Failed

fun provider_status :: "provider_error_kind \<Rightarrow> call_status" where
  "provider_status Timeout = TimedOut"
| "provider_status Unavailable = ProviderUnavailable"
| "provider_status RateLimited = ProviderUnavailable"
| "provider_status Refusal = Refused"
| "provider_status InvalidRequest = InvalidRequestStatus"
| "provider_status Internal = Failed"

text \<open>
  What happens outside the crate in one attempt: whether the audit sink takes the two events, whether
  the idempotency key serialises, the provider's response (an output that the schema validator turns
  into a proposal or rejects), and how the clock moves during the call and beyond the retry delay.
\<close>

record 'v attempt_script =
  start_audited :: bool
  key_serializes :: bool
  response :: "provider_error + 'v option"
  invoke_ms :: u64
  finish_audited :: bool
  oversleep_ms :: u64

datatype audit_event = Started nat u64 bool | Finished nat call_status

record ('k, 'p) gateway_state =
  circuits :: "'k circuits"
  unavailable_until :: "('p, u64) btree_map"
  clock_ms :: u64
  audit_log :: "audit_event list"

record ('k, 'p) route_config =
  route_retry :: retry_policy
  route_breaker :: circuit_breaker_config
  circuit_key :: 'k
  route_provider :: 'p
  total_deadline :: u64

definition delay_before_retry ::
    "('k, 'p) route_config \<Rightarrow> nat \<Rightarrow> u64 option \<Rightarrow> u64 \<Rightarrow> ('k, 'p) gateway_state \<Rightarrow> ('k, 'p) gateway_state option" where
  "delay_before_retry cfg attempt retry_after oversleep st =
     (if unat (max_attempts (route_retry cfg)) \<le> attempt then None
      else let delay = delay_for (route_retry cfg) (of_nat attempt) retry_after
           in if total_deadline cfg \<le> saturating_add (clock_ms st) delay then None
              else Some (st\<lparr>clock_ms := saturating_add (saturating_add (clock_ms st) delay) oversleep\<rparr>))"

text \<open>An event that the sink refuses ends the call with its error.\<close>

definition audit_finish ::
    "'v attempt_script \<Rightarrow> nat \<Rightarrow> call_status \<Rightarrow> ('k, 'p) gateway_state \<Rightarrow> model_runtime_error + ('k, 'p) gateway_state" where
  "audit_finish s attempt status st =
     (if finish_audited s then Inr (st\<lparr>audit_log := audit_log st @ [Finished attempt status]\<rparr>)
      else Inl (AuditFailure ''finish''))"

text \<open>
  The outcome of one attempt: the call ends with an answer, or the next attempt follows with a number
  of repairs made.
\<close>

datatype ('v, 'st) attempt_result = Return 'st "model_runtime_error + 'v option" | Again 'st u8

definition finish_attempt ::
    "('k, 'p) route_config \<Rightarrow> 'v attempt_script \<Rightarrow> nat \<Rightarrow> call_status \<Rightarrow> bool \<Rightarrow> u64 option \<Rightarrow> u8
      \<Rightarrow> ('k, 'p) gateway_state \<Rightarrow> ('v, ('k, 'p) gateway_state) attempt_result" where
  "finish_attempt cfg s attempt status stop retry_after repairs st =
     (case audit_finish s attempt status st of
        Inl e \<Rightarrow> Return st (Inl e)
      | Inr st' \<Rightarrow>
          if stop then Return st' (Inr None)
          else case delay_before_retry cfg attempt retry_after (oversleep_ms s) st' of
              None \<Rightarrow> Return st' (Inr None)
            | Some st'' \<Rightarrow> Again st'' repairs)"

definition note_rate_limit ::
    "('k, 'p::linorder) route_config \<Rightarrow> provider_error \<Rightarrow> ('k, 'p) gateway_state \<Rightarrow> ('k, 'p) gateway_state" where
  "note_rate_limit cfg err st =
     (case retry_after_ms err of
        Some delay \<Rightarrow>
          if error_kind err = RateLimited
          then st\<lparr>unavailable_until := mark_unavailable (route_provider cfg) (saturating_add (clock_ms st) delay)
                    (unavailable_until st)\<rparr>
          else st
      | None \<Rightarrow> st)"

definition after_response ::
    "('k::linorder, 'p::linorder) route_config \<Rightarrow> 'v attempt_script \<Rightarrow> nat \<Rightarrow> u64 \<Rightarrow> u8
      \<Rightarrow> ('k, 'p) gateway_state \<Rightarrow> ('v, ('k, 'p) gateway_state) attempt_result" where
  "after_response cfg s attempt deadline repairs st =
     (if deadline \<le> clock_ms st then
        (case record_failure (route_breaker cfg) (circuit_key cfg) Timeout (clock_ms st) (circuits st) of
           (cs, Inl e) \<Rightarrow> Return (st\<lparr>circuits := cs\<rparr>) (Inl e)
         | (cs, Inr _) \<Rightarrow> finish_attempt cfg s attempt TimedOut False None repairs (st\<lparr>circuits := cs\<rparr>))
      else case response s of
        Inr output \<Rightarrow>
          let st1 = st\<lparr>circuits := record_success (circuit_key cfg) (circuits st)\<rparr> in
          (case output of
             Some proposal \<Rightarrow>
               (case audit_finish s attempt Succeeded st1 of
                  Inl e \<Rightarrow> Return st1 (Inl e)
                | Inr st2 \<Rightarrow> Return st2 (Inr (Some proposal)))
           | None \<Rightarrow>
               finish_attempt cfg s attempt SchemaRejected
                 (max_schema_repairs (route_retry cfg) \<le> repairs \<or> attempt = unat (max_attempts (route_retry cfg)))
                 None (repairs + 1) st1)
      | Inl err \<Rightarrow>
          (case record_failure (route_breaker cfg) (circuit_key cfg) (error_kind err) (clock_ms st) (circuits st) of
             (cs, Inl e) \<Rightarrow> Return (st\<lparr>circuits := cs\<rparr>) (Inl e)
           | (cs, Inr _) \<Rightarrow>
               finish_attempt cfg s attempt (provider_status (error_kind err)) (\<not> retryable (error_kind err))
                 (retry_after_ms err) repairs (note_rate_limit cfg err (st\<lparr>circuits := cs\<rparr>))))"

definition run_attempt ::
    "('k::linorder, 'p::linorder) route_config \<Rightarrow> 'v attempt_script \<Rightarrow> nat \<Rightarrow> u8
      \<Rightarrow> ('k, 'p) gateway_state \<Rightarrow> ('v, ('k, 'p) gateway_state) attempt_result" where
  "run_attempt cfg s attempt repairs st =
     (let now = clock_ms st in
      if total_deadline cfg \<le> now \<or> \<not> available (unavailable_until st) (route_provider cfg) now
      then Return st (Inr None)
      else let (cs, allowed) = circuit_allow (circuit_key cfg) now (circuits st);
               st1 = st\<lparr>circuits := cs\<rparr>
           in if \<not> allowed then Return st1 (Inr None)
              else case checked_add_word now (per_attempt_timeout_ms (route_retry cfg)) of
                  None \<Rightarrow> Return st1 (Inl ArithmeticOverflow)
                | Some bound \<Rightarrow>
                    let deadline = min bound (total_deadline cfg) in
                    if \<not> start_audited s then Return st1 (Inl (AuditFailure ''start''))
                    else let st2 = st1\<lparr>audit_log := audit_log st1 @ [Started attempt now (repairs \<noteq> 0)]\<rparr> in
                      if \<not> key_serializes s then Return st2 (Inl ModelSerialization)
                      else after_response cfg s attempt deadline repairs
                             (st2\<lparr>clock_ms := saturating_add now (invoke_ms s)\<rparr>))"

fun attempts_from ::
    "('k::linorder, 'p::linorder) route_config \<Rightarrow> (nat \<Rightarrow> 'v attempt_script) \<Rightarrow> nat list \<Rightarrow> u8
      \<Rightarrow> ('k, 'p) gateway_state \<Rightarrow> ('k, 'p) gateway_state \<times> (model_runtime_error + 'v option)" where
  "attempts_from cfg script [] repairs st = (st, Inr None)"
| "attempts_from cfg script (a # as) repairs st =
     (case run_attempt cfg (script a) a repairs st of
        Return st' r \<Rightarrow> (st', r)
      | Again st' repairs' \<Rightarrow> attempts_from cfg script as repairs' st')"

definition route_attempts ::
    "('k::linorder, 'p::linorder) route_config \<Rightarrow> (nat \<Rightarrow> 'v attempt_script)
      \<Rightarrow> ('k, 'p) gateway_state \<Rightarrow> ('k, 'p) gateway_state \<times> (model_runtime_error + 'v option)" where
  "route_attempts cfg script st =
     attempts_from cfg script [1..<Suc (unat (max_attempts (route_retry cfg)))] 0 st"

section \<open>Delays and circuits\<close>

lemma delay_bounded: "delay_for p completed retry_after \<le> max_backoff_ms p"
  by (simp add: delay_for_def Let_def)

lemma snapshot_insert [simp]: "circuit_snapshot (bt_insert k v states) k = v"
  by (simp add: circuit_snapshot_def)

text \<open>A recorded outcome never leaves a claimed probe behind.\<close>

lemma record_success_releases: "circuit_snapshot (record_success key states) key = Closed 0"
  by (simp add: record_success_def)

lemma record_failure_releases:
  "record_failure cfg key kind now states = (cs, Inr u) \<Longrightarrow> circuit_snapshot cs key \<noteq> HalfOpen True"
  by (auto simp: record_failure_def Let_def split: if_splits option.splits)

text \<open>
  An open circuit denies every call until its retry instant; from then on exactly one call is admitted
  as a probe, and further ones are denied until an outcome is recorded.
\<close>

lemma open_circuit_denies: "circuit_snapshot states key = Open r \<Longrightarrow> snd (circuit_allow key now states) \<longleftrightarrow> r \<le> now"
  by (auto simp: circuit_allow_def not_less)

lemma single_probe:
  assumes "circuit_snapshot states key = Open r" and "r \<le> now" and "circuit_allow key now states = (cs, ok)"
  shows "ok \<and> (\<forall>later. \<not> snd (circuit_allow key later cs))"
  using assms by (auto simp: circuit_allow_def not_less [symmetric])

text \<open>Consecutive infrastructure failures below the threshold count up; the last one opens the circuit.\<close>

lemma failures_open_circuit:
  assumes "circuit_snapshot states key = Closed n" and "affects_circuit kind" and "n < failure_threshold cfg"
    and "record_failure cfg key kind now states = (cs, Inr u)"
  shows "circuit_snapshot cs key =
    (if n + 1 = failure_threshold cfg then Open (now + open_duration_ms cfg) else Closed (n + 1))"
proof -
  have "n \<noteq> - 1" using assms(3) by (metis not_less word_n1_ge)
  moreover have "failure_threshold cfg \<le> n + 1 \<longleftrightarrow> n + 1 = failure_threshold cfg"
    using assms(3) by (metis antisym inc_le order_refl)
  ultimately show ?thesis using assms(1,2,4)
    by (auto simp: record_failure_def Let_def checked_add_word_def split: if_splits)
qed

section \<open>One attempt\<close>

definition probe_free :: "('k, 'p) route_config \<Rightarrow> ('k, 'p) gateway_state \<Rightarrow> bool" where
  "probe_free cfg st \<longleftrightarrow> circuit_snapshot (circuits st) (circuit_key cfg) \<noteq> HalfOpen True"

text \<open>The state in which an attempt ends: one finished event more, and a recorded outcome.\<close>

definition finished_from :: "('k, 'p) route_config \<Rightarrow> nat \<Rightarrow> call_status \<Rightarrow> ('k, 'p) gateway_state \<Rightarrow> ('k, 'p) gateway_state \<Rightarrow> bool" where
  "finished_from cfg a x st st' \<longleftrightarrow> audit_log st' = audit_log st @ [Finished a x] \<and> probe_free cfg st'"

lemma finish_attempt_result:
  assumes "probe_free cfg st"
  shows "finish_attempt cfg s a x stop ra reps st = Return st' r \<Longrightarrow>
      r = Inr None \<and> finished_from cfg a x st st' \<or> (\<exists>e. r = Inl e) \<and> st' = st"
    and "finish_attempt cfg s a x stop ra reps st = Again st' reps' \<Longrightarrow> finished_from cfg a x st st'"
  using assms
  by (auto simp: finish_attempt_def audit_finish_def delay_before_retry_def finished_from_def probe_free_def Let_def
      split: if_splits option.splits)

lemma note_rate_limit_simps [simp]:
  "audit_log (note_rate_limit cfg err st) = audit_log st"
  "probe_free cfg' (note_rate_limit cfg err st) = probe_free cfg' st"
  by (auto simp: note_rate_limit_def probe_free_def split: option.splits)

text \<open>After the response the call ends with an error, finishes as \<open>finish_attempt\<close> does, or succeeds.\<close>

lemma after_response_cases:
  obtains (error) cs e where "after_response cfg s a dl reps st = Return (st\<lparr>circuits := cs\<rparr>) (Inl e)"
  | (finish) st2 x stop ra reps2 where "probe_free cfg st2" "audit_log st2 = audit_log st"
      "after_response cfg s a dl reps st = finish_attempt cfg s a x stop ra reps2 st2"
  | (success) p st2 where "response s = Inr (Some p)" "finished_from cfg a Succeeded st st2"
      "after_response cfg s a dl reps st = Return st2 (Inr (Some p))"
proof -
  have released: "probe_free cfg (st\<lparr>circuits := cs\<rparr>)"
    if "record_failure (route_breaker cfg) (circuit_key cfg) kind now (circuits st) = (cs, Inr u)" for cs kind now u
    using record_failure_releases [OF that] by (simp add: probe_free_def)
  let ?st1 = "st\<lparr>circuits := record_success (circuit_key cfg) (circuits st)\<rparr>"
  have st1: "probe_free cfg ?st1" by (simp add: probe_free_def record_success_releases)
  show thesis
  proof (cases "dl \<le> clock_ms st")
    case True
    obtain cs r where f: "record_failure (route_breaker cfg) (circuit_key cfg) Timeout (clock_ms st) (circuits st) = (cs, r)"
      by (cases "record_failure (route_breaker cfg) (circuit_key cfg) Timeout (clock_ms st) (circuits st)")
    show thesis
    proof (cases r)
      case (Inl e)
      with True f show thesis by (intro error [of cs e]) (simp add: after_response_def)
    next
      case (Inr u)
      with True f released [of Timeout "clock_ms st" cs u] show thesis
        by (intro finish [of "st\<lparr>circuits := cs\<rparr>" TimedOut False None reps]) (simp_all add: after_response_def)
    qed
  next
    case late: False
    show thesis
    proof (cases "response s")
      case (Inl err)
      obtain cs r where f: "record_failure (route_breaker cfg) (circuit_key cfg) (error_kind err) (clock_ms st) (circuits st) = (cs, r)"
        by (cases "record_failure (route_breaker cfg) (circuit_key cfg) (error_kind err) (clock_ms st) (circuits st)")
      show thesis
      proof (cases r)
        case r: (Inl e)
        with late f Inl show thesis by (intro error [of cs e]) (simp add: after_response_def)
      next
        case (Inr u)
        with late f Inl released [of "error_kind err" "clock_ms st" cs u] show thesis
          by (intro finish [of "note_rate_limit cfg err (st\<lparr>circuits := cs\<rparr>)" "provider_status (error_kind err)"
              "\<not> retryable (error_kind err)" "retry_after_ms err" reps]) (simp_all add: after_response_def)
      qed
    next
      case out: (Inr content)
      show thesis
      proof (cases content)
        case None
        with late out st1 show thesis
          by (intro finish [of ?st1 SchemaRejected
                "max_schema_repairs (route_retry cfg) \<le> reps \<or> a = unat (max_attempts (route_retry cfg))" None "reps + 1"])
            (simp_all add: after_response_def Let_def)
      next
        case (Some p)
        show thesis
        proof (cases "finish_audited s")
          case True
          with late out Some st1 show thesis
            by (intro success [of p "?st1\<lparr>audit_log := audit_log st @ [Finished a Succeeded]\<rparr>"])
              (simp_all add: after_response_def audit_finish_def finished_from_def probe_free_def)
        next
          case False
          with late out Some show thesis
            by (intro error [of "record_success (circuit_key cfg) (circuits st)" "AuditFailure ''finish''"])
              (simp add: after_response_def audit_finish_def)
        qed
      qed
    qed
  qed
qed

lemma after_response_Return:
  assumes "after_response cfg s a dl reps st = Return st' r"
  shows "(\<exists>e. r = Inl e) \<and> audit_log st' = audit_log st \<or>
    (\<exists>x. finished_from cfg a x st st' \<and>
       (r = Inr None \<or> (\<exists>p. r = Inr (Some p) \<and> x = Succeeded \<and> response s = Inr (Some p))))"
proof (cases rule: after_response_cases [of cfg s a dl reps st])
  case (finish st2 x stop ra reps2)
  with finish_attempt_result(1) [OF finish(1), of s a x stop ra reps2 st' r] assms show ?thesis
    by (auto simp: finished_from_def)
qed (use assms in auto)

lemma after_response_Again:
  assumes "after_response cfg s a dl reps st = Again st' reps'"
  shows "\<exists>x. finished_from cfg a x st st'"
proof (cases rule: after_response_cases [of cfg s a dl reps st])
  case (finish st2 x stop ra reps2)
  with finish_attempt_result(2) [OF finish(1), of s a x stop ra reps2 st' reps'] assms show ?thesis
    by (auto simp: finished_from_def)
qed (use assms in auto)

lemma run_attempt_cases:
  obtains (refused) cs where "run_attempt cfg s a reps st = Return (st\<lparr>circuits := cs\<rparr>) (Inr None)"
      "probe_free cfg st \<longrightarrow> probe_free cfg (st\<lparr>circuits := cs\<rparr>)"
  | (unstarted) cs e where "run_attempt cfg s a reps st = Return (st\<lparr>circuits := cs\<rparr>) (Inl e)"
  | (started) st2 where "clock_ms st < total_deadline cfg"
      "audit_log st2 = audit_log st @ [Started a (clock_ms st) (reps \<noteq> 0)]"
      "run_attempt cfg s a reps st = Return st2 (Inl ModelSerialization) \<or>
       (\<exists>dl. run_attempt cfg s a reps st = after_response cfg s a dl reps st2)"
proof -
  define now where "now = clock_ms st"
  obtain cs ok where allow: "circuit_allow (circuit_key cfg) now (circuits st) = (cs, ok)"
    by (cases "circuit_allow (circuit_key cfg) now (circuits st)")
  consider (no_call) "total_deadline cfg \<le> now \<or> \<not> available (unavailable_until st) (route_provider cfg) now"
    | (denied) "\<not> (total_deadline cfg \<le> now \<or> \<not> available (unavailable_until st) (route_provider cfg) now)" "\<not> ok"
    | (admitted) "now < total_deadline cfg" "available (unavailable_until st) (route_provider cfg) now" "ok"
    by fastforce
  then show thesis
  proof cases
    case no_call
    then show thesis by (intro refused [of "circuits st"]) (simp_all add: run_attempt_def Let_def now_def)
  next
    case denied
    have "probe_free cfg st \<longrightarrow> probe_free cfg (st\<lparr>circuits := cs\<rparr>)"
      using denied allow by (auto simp: circuit_allow_def probe_free_def split: circuit_state.splits if_splits)
    with denied allow show thesis by (intro refused [of cs]) (auto simp: run_attempt_def Let_def now_def)
  next
    case admitted
    show thesis
    proof (cases "checked_add_word now (per_attempt_timeout_ms (route_retry cfg))")
      case None
      with admitted allow show thesis
        by (intro unstarted [of cs ArithmeticOverflow]) (auto simp: run_attempt_def Let_def now_def)
    next
      case (Some bound)
      let ?st2 = "st\<lparr>circuits := cs, audit_log := audit_log st @ [Started a now (reps \<noteq> 0)]\<rparr>"
      show thesis
      proof (cases "start_audited s")
        case False
        with admitted allow Some show thesis
          by (intro unstarted [of cs "AuditFailure ''start''"]) (auto simp: run_attempt_def Let_def now_def)
      next
        case True
        show thesis
        proof (cases "key_serializes s")
          case False
          with True admitted allow Some show thesis
            by (intro started [of ?st2]) (auto simp: run_attempt_def Let_def now_def)
        next
          case key: True
          with True admitted allow Some show thesis
            by (intro started [of "?st2\<lparr>clock_ms := saturating_add now (invoke_ms s)\<rparr>"])
              (auto simp: run_attempt_def Let_def now_def)
        qed
      qed
    qed
  qed
qed

section \<open>The loop\<close>

definition call_events :: "(nat \<times> u64 \<times> bool \<times> call_status) list \<Rightarrow> audit_event list" where
  "call_events calls = concat (map (\<lambda>(a, t, f, x). [Started a t f, Finished a x]) calls)"

text \<open>What the loop has done: completed calls, at most one call without a recorded end, and an answer.\<close>

definition attempts_ok ::
    "('k, 'p) route_config \<Rightarrow> (nat \<Rightarrow> 'v attempt_script) \<Rightarrow> nat list \<Rightarrow> ('k, 'p) gateway_state \<Rightarrow> ('k, 'p) gateway_state
      \<Rightarrow> model_runtime_error + 'v option \<Rightarrow> (nat \<times> u64 \<times> bool \<times> call_status) list \<Rightarrow> (nat \<times> u64 \<times> bool) list \<Rightarrow> bool" where
  "attempts_ok cfg script as st st' r calls pending \<longleftrightarrow>
     audit_log st' = audit_log st @ call_events calls @ map (\<lambda>(a, t, f). Started a t f) pending \<and>
     length pending \<le> 1 \<and>
     (\<exists>rest. as = map fst calls @ map fst pending @ rest) \<and>
     (\<forall>(a, t, f, x) \<in> set calls. t < total_deadline cfg) \<and>
     (\<forall>(a, t, f) \<in> set pending. t < total_deadline cfg) \<and>
     (\<forall>v. r = Inr v \<longrightarrow> pending = [] \<and> (probe_free cfg st \<longrightarrow> probe_free cfg st')) \<and>
     (\<forall>p. r = Inr (Some p) \<longrightarrow> (\<exists>a t f. calls \<noteq> [] \<and> last calls = (a, t, f, Succeeded) \<and> response (script a) = Inr (Some p)))"

lemma attempts_from_ok:
  "attempts_from cfg script as reps st = (st', r) \<Longrightarrow> \<exists>calls pending. attempts_ok cfg script as st st' r calls pending"
proof (induction cfg script as reps st rule: attempts_from.induct)
  case (1 cfg script reps st)
  then show ?case by (intro exI [of _ "[]"]) (auto simp: attempts_ok_def call_events_def)
next
  case (2 cfg script a as reps st)
  show ?case
  proof (cases rule: run_attempt_cases [of cfg "script a" a reps st])
    case (refused cs)
    with "2.prems" show ?thesis by (intro exI [of _ "[]"]) (auto simp: attempts_ok_def call_events_def)
  next
    case (unstarted cs e)
    with "2.prems" show ?thesis by (intro exI [of _ "[]"]) (auto simp: attempts_ok_def call_events_def)
  next
    case (started st2)
    let ?start = "(a, clock_ms st, reps \<noteq> 0)"
    consider (ret) st3 where "run_attempt cfg (script a) a reps st = Return st3 r" "st' = st3"
      | (again) st3 reps' where "run_attempt cfg (script a) a reps st = Again st3 reps'"
          "attempts_from cfg script as reps' st3 = (st', r)"
      using "2.prems" by (auto split: attempt_result.splits)
    then show ?thesis
    proof cases
      case ret
      then consider (err) e where "r = Inl e" "audit_log st' = audit_log st2"
        | (fin) x where "finished_from cfg a x st2 st'"
            "r = Inr None \<or> (\<exists>p. r = Inr (Some p) \<and> x = Succeeded \<and> response (script a) = Inr (Some p))"
        using started(3)
      proof (elim disjE exE)
        fix dl
        assume "run_attempt cfg (script a) a reps st = after_response cfg (script a) a dl reps st2"
        with ret have "after_response cfg (script a) a dl reps st2 = Return st' r" by simp
        from after_response_Return [OF this] show ?thesis using that by blast
      qed auto
      then show ?thesis
      proof cases
        case err
        with started(1,2) show ?thesis
          by (intro exI [of _ "[]"] exI [of _ "[?start]"]) (simp add: attempts_ok_def call_events_def)
      next
        case fin
        with started(1,2) show ?thesis
          by (intro exI [of _ "[(a, clock_ms st, reps \<noteq> 0, x)]"] exI [of _ "[]"])
            (auto simp: attempts_ok_def call_events_def finished_from_def)
      qed
    next
      case again
      with started(3) obtain dl where "after_response cfg (script a) a dl reps st2 = Again st3 reps'" by auto
      from after_response_Again [OF this] obtain x where x: "finished_from cfg a x st2 st3" by blast
      from "2.IH" [OF again(1,2)] obtain calls pending where c: "attempts_ok cfg script as st3 st' r calls pending" by blast
      with x started(1,2) show ?thesis
        by (intro exI [of _ "(a, clock_ms st, reps \<noteq> 0, x) # calls"] exI [of _ pending])
          (auto simp: attempts_ok_def call_events_def finished_from_def)
    qed
  qed
qed

section \<open>Properties\<close>

definition demo_route :: "(nat, nat) route_config" where
  "demo_route = \<lparr>route_retry = retry_policy_default, route_breaker = circuit_config_default, circuit_key = 0,
     route_provider = 0, total_deadline = 60000\<rparr>"

definition demo_gateway :: "circuit_state \<Rightarrow> (nat, nat) gateway_state" where
  "demo_gateway c = \<lparr>circuits = [(0, c)], unavailable_until = [], clock_ms = 10, audit_log = []\<rparr>"

definition demo_attempt :: "provider_error + nat option \<Rightarrow> bool \<Rightarrow> nat attempt_script" where
  "demo_attempt r audited = \<lparr>start_audited = audited, key_serializes = True, response = r, invoke_ms = 5,
     finish_audited = True, oversleep_ms = 0\<rparr>"

text \<open>C31. The attempt loop of a model route is bounded and audited: it makes at most the configured number
  of attempts, numbered without gaps from one, and starts none at or after the total deadline; every
  attempt is preceded by its accepted audit event and, unless the call itself fails, followed by the
  event of its end, with no recovery probe left claimed; a proposal is returned only from the response
  of the last attempt, which is audited as successful.\<close>

theorem route_attempts_bounded:
  assumes "route_attempts cfg script st = (st', r)"
  shows "\<exists>calls pending. length calls + length pending \<le> unat (max_attempts (route_retry cfg)) \<and>
    attempts_ok cfg script [1..<Suc (unat (max_attempts (route_retry cfg)))] st st' r calls pending"
proof -
  from attempts_from_ok [OF assms [unfolded route_attempts_def]] obtain calls pending where
    ok: "attempts_ok cfg script [1..<Suc (unat (max_attempts (route_retry cfg)))] st st' r calls pending" by blast
  then obtain rest where "[1..<Suc (unat (max_attempts (route_retry cfg)))] = map fst calls @ map fst pending @ rest"
    unfolding attempts_ok_def by blast
  from arg_cong [OF this, of length] have "length calls + length pending \<le> unat (max_attempts (route_retry cfg))"
    by (simp del: upt_Suc)
  with ok show ?thesis by blast
qed

lemma demo_route_run:
  "route_attempts demo_route (\<lambda>a. demo_attempt (Inr (Some 7)) True) (demo_gateway (Closed 0)) =
     ((demo_gateway (Closed 0))\<lparr>clock_ms := 15, audit_log := [Started 1 10 False, Finished 1 Succeeded]\<rparr>, Inr (Some 7))"
  by (simp add: route_attempts_def demo_route_def demo_gateway_def demo_attempt_def retry_policy_default_def
      circuit_config_default_def run_attempt_def after_response_def available_def circuit_allow_def circuit_snapshot_def
      checked_add_word_def saturating_add_def audit_finish_def record_success_def Let_def upt_rec)

theorem route_attempts_bounded_witness:
  "\<exists>calls pending. length calls + length pending \<le> 3 \<and>
     attempts_ok demo_route (\<lambda>a. demo_attempt (Inr (Some 7)) True) [1..<4] (demo_gateway (Closed 0))
       ((demo_gateway (Closed 0))\<lparr>clock_ms := 15, audit_log := [Started 1 10 False, Finished 1 Succeeded]\<rparr>)
       (Inr (Some 7)) calls pending"
  using route_attempts_bounded [OF demo_route_run] by (simp add: demo_route_def retry_policy_default_def)


end
