(* ===== verification/Spec2Isabelle.thy ===== *)
theory Spec2Isabelle
  imports Format_Registry Journal_Properties Security_Admission Security_Policy Security_Audit
    Security_Deletion Security_Backup Security_Taint Security_Benchmark Core_Policy Model_Reliability
begin

text \<open>
  A verification library for ContextDB: the storage boundary and its in-memory backend, the record
  format, the logical journal, the security kernel, the policy and lineage rules of the core, and the
  reliability of model calls.

  \<^bold>\<open>The program's parts and how they interact.\<close> A storage engine keeps versioned keyspaces of byte
  strings. The format crate frames records with a checksum and plans migrations of stored formats.
  The journal's coordinator writes framed records through an engine, publishes them by moving one
  head record, answers repeated requests from idempotency records, and recovers, verifies, backs up
  and restores its store. The security kernel is independent of storage: admission quotas, the live
  policy overlay, the audit chain, the deletion workflow, encrypted backups and restricted fields,
  secret scanning, source sanitising and the forbidden-influence benchmark. The core defines the
  values the journal carries: their policy envelopes, which a derived value must not broaden, and their
  lineage, which must not be circular. The model gateway calls external models through a circuit
  breaker with bounded retries.

  \<^bold>\<open>Theories, sources and correspondence.\<close>
  \<^item> \<open>ContextDB_Prelude\<close>: results (a sum with the error on the left, \<open>rbind\<close> for the question-mark
    operator), machine words, checked arithmetic, ordered maps and sets as sorted lists, strings as
    the bytes of their UTF-8 encoding.
  \<^item> \<open>Storage_Contract\<close> (\<open>crates/contextdb-storage/src/lib.rs\<close>): bounded scan pages, the loop that drains
    them, and the traits as records of methods; the documented laws of a trait are the locales
    \<open>page_reader\<close>, \<open>read_snapshot\<close> and \<open>storage_engine\<close>.
  \<^item> \<open>Memory_Storage\<close> (\<open>crates/contextdb-storage-memory\<close>) interprets these locales; \<open>Fault_Storage\<close>
    (\<open>crates/contextdb-storage-fault\<close>) interprets \<open>storage_engine\<close> on the wrapper around it.
  \<^item> \<open>Record_Frame\<close>, \<open>Format_Registry\<close> (\<open>crates/contextdb-format/src/lib.rs\<close>): the record envelope,
    reader capabilities, the migration registry and planner.
  \<^item> \<open>Journal_Model\<close>, \<open>Journal_Coordinator\<close> (\<open>crates/contextdb-journal/src\<close>): data, framing and every
    operation of the coordinator. \<open>Journal_Records\<close>, \<open>Journal_Refinement\<close>, \<open>Journal_Calls\<close>,
    \<open>Journal_Snapshots\<close>, \<open>Journal_Recovery\<close> and \<open>Journal_Backup\<close> hold the specification of a journal
    as a list of published operations and the lemmas of the coordinator for every engine that
    satisfies the contract; \<open>Journal_Example\<close> is a concrete run; \<open>Journal_Properties\<close> states the
    results for the in-memory engine below the fault wrapper.
  \<^item> \<open>Security_Base\<close> (\<open>error.rs\<close> and the keys of \<open>backup.rs\<close> in \<open>crates/contextdb-security/src\<close>), and one
    theory for each file of that crate: \<open>Security_Admission\<close> (\<open>admission.rs\<close>), \<open>Security_Policy\<close>
    (\<open>policy.rs\<close>), \<open>Security_Audit\<close> (\<open>audit.rs\<close>), \<open>Security_Deletion\<close> (\<open>deletion.rs\<close>),
    \<open>Security_Backup\<close> (\<open>backup.rs\<close>), \<open>Security_Fields\<close> (\<open>field_encryption.rs\<close>), \<open>Security_Secrets\<close> with
    \<open>Security_Redaction\<close> (\<open>secrets.rs\<close>), \<open>Security_Taint\<close> (\<open>taint.rs\<close>) and \<open>Security_Benchmark\<close>
    (\<open>benchmark.rs\<close>). The stateful objects interpret the locale \<open>guarded_machine\<close>: an invariant that
    every call keeps, refused calls included, and a preorder in which the state only grows.
  \<^item> \<open>Core_Errors\<close>, \<open>Core_Lineage\<close> and \<open>Core_Policy\<close> (\<open>error.rs\<close>, \<open>provenance.rs\<close>, \<open>policy.rs\<close> and the valid-time
    intervals of \<open>time.rs\<close> in \<open>crates/contextdb-core/src\<close>).
  \<^item> \<open>Model_Reliability\<close> (\<open>reliability.rs\<close> and the attempt loop of \<open>execute_route\<close> in \<open>gateway.rs\<close>, in
    \<open>crates/contextdb-model/src\<close>).

  A struct is a record, an enumeration a datatype, a method that changes its object takes and returns
  it, and each early return is a branch with the error of the source. A loop that jumps over its input
  is a function with a termination proof.

  \<^bold>\<open>What the lemmas show.\<close>
  \<^item> Storage: commits are serialisable and the first committer wins, versions never change, a
    transaction reads what its commit will publish, scans are exact within the documented limits, and
    each injected fault has exactly its described effect.
  \<^item> Format: encoding and decoding are inverse and frames canonical; migration plans are shortest and
    found whenever there is one; the space estimate is exact and cannot overflow.
  \<^item> Journal: under every fault schedule the coordinator simulates an abstract machine that appends
    operations; acknowledged requests survive, repeated ones are answered from the journal, history is
    immutable, recovery removes exactly what no head names, and backups restore exactly.
  \<^item> Security: quotas hold and blocked workspaces recover; hard deletions are permanent and survive
    merges; an audit log that verifies is the original one; a deletion receipt is sealed exactly when
    all targets are done; backups and restricted fields open exactly for their authorised holders;
    the scanner returns only valid spans, redaction replaces exactly the covered bytes, and the secret
    policy fails closed; sanitising is idempotent; the benchmark gate passes exactly when no case leaks.
  \<^item> Core: along any chain of derivations a policy only narrows, except for the validity of consent,
    which the code does not compare; the lineage check accepts exactly the acyclic graphs.
  \<^item> Model calls: attempts, deadlines and audit events of a route are bounded and paired, and no probe
    stays claimed when a route returns normally; an audit sink that refuses the start of a probe
    makes the circuit deny every later call.

  \<^bold>\<open>Parameters.\<close> Third-party code is an argument with its documented behaviour as hypothesis: the
  checksum of a frame, BLAKE3, Ed25519 and XChaCha20-Poly1305 (\<open>crypto_ok\<close>), the JSON codecs
  (\<open>codecs_ok\<close>, injectivity where a theorem needs it), fresh identifiers, operating-system randomness,
  the clock, the evidence verifier of a deletion, and, in each attempt of a model call, the provider, the
  audit sink and the schema validator. No hash is assumed to be free of collisions: a
  theorem that would need it ends with the two encodings that collide. Every hypothesis has an instance
  in the witnesses.

  \<^bold>\<open>Bounds.\<close> Counters are 32- or 64-bit words with the checked arithmetic of the code; lengths are
  natural numbers, and \<open>usize\<close> is taken to have 64 bits. Unpaged scans fail beyond their documented
  limits: \<open>store_fits\<close> says that a journal is within them, and the properties that need a result assume
  it. The page loop and the planner carry no fuel: their termination is proved. Signed times are
  integers, since the code only compares them.

  \<^bold>\<open>Not modelled.\<close> Locks and their poisoning (each operation is one atomic step), \<open>Debug\<close> output, erasure
  of key material, and the floating-point entropy of the secret scanner, whose verdict is an argument.
  The adapters to fjall, redb and RocksDB consist of calls into those engines. The index, recall,
  context, cognition, knowledge and hierarchy crates and the routing of the model crate rank with
  floating-point scores; the rest of the model crate, mcp, server, cli, capture, chat, agent-runtime and proto are protocol adapters around network, process
  and file I/O; service, native-service, reference, graph, continuity and runtime assemble the other
  crates over the event, evidence, memory and semantic records of the core, which are not modelled;
  secure-store works on operating-system files; the bench and conformance crates
  measure and test.
\<close>

end
